(* ===== verification/Asm_Prelude.thy ===== *)
theory Asm_Prelude
  imports "HOL-Library.Word" "HOL-Library.Monad_Syntax" "HOL-Library.Multiset"
begin

text \<open>
  Shared vocabulary of the development.

  A Rust \<open>Result<A, E>\<close> is the sum type \<open>'e + 'a\<close> with the constructors named
  \<open>Err\<close> and \<open>Ok\<close>.  A function that may panic (\<open>expect\<close>, \<open>assert!\<close>,
  indexing out of range, arithmetic overflow under overflow checks) returns an \<open>option\<close> whose
  \<^term>\<open>None\<close> is the panic, so that "does not panic" is a statement \<open>f x = Some y\<close>.
  Fixed-width integers are words of that width; the checked and saturating operations of the
  Rust primitive types are defined on them here, with the laws the component proofs use.
\<close>

section \<open>Types shared by the components\<close>

type_synonym u8 = "8 word"
type_synonym u16 = "16 word"
type_synonym u32 = "32 word"
type_synonym u64 = "64 word"

type_synonym bytes = "8 word list"
type_synonym buf32 = "8 word list"
type_synonym pubkey = "8 word list"
type_synonym script = "8 word list"

type_synonym ('e, 'a) result = "'e + 'a"

abbreviation Ok :: "'a \<Rightarrow> ('e, 'a) result" where "Ok \<equiv> Inr"
abbreviation Err :: "'e \<Rightarrow> ('e, 'a) result" where "Err \<equiv> Inl"

section \<open>Results\<close>

definition res_bind :: "('e, 'a) result \<Rightarrow> ('a \<Rightarrow> ('e, 'b) result) \<Rightarrow> ('e, 'b) result" where
  "res_bind r f = (case r of Err e \<Rightarrow> Err e | Ok a \<Rightarrow> f a)"

definition map_err :: "('e \<Rightarrow> 'f) \<Rightarrow> ('e, 'a) result \<Rightarrow> ('f, 'a) result" where
  "map_err f r = (case r of Err e \<Rightarrow> Err (f e) | Ok a \<Rightarrow> Ok a)"

definition ok_or :: "'e \<Rightarrow> 'a option \<Rightarrow> ('e, 'a) result" where
  "ok_or e r = (case r of None \<Rightarrow> Err e | Some a \<Rightarrow> Ok a)"

definition is_ok :: "('e, 'a) result \<Rightarrow> bool" where
  "is_ok r = (case r of Err _ \<Rightarrow> False | Ok _ \<Rightarrow> True)"

section \<open>Fixed-width arithmetic\<close>

definition checked_add :: "'w::len word \<Rightarrow> 'w word \<Rightarrow> 'w word option" where
  "checked_add a b = (if uint a + uint b < 2 ^ LENGTH('w) then Some (a + b) else None)"

definition checked_sub :: "'w::len word \<Rightarrow> 'w word \<Rightarrow> 'w word option" where
  "checked_sub a b = (if b \<le> a then Some (a - b) else None)"

definition checked_mul :: "'w::len word \<Rightarrow> 'w word \<Rightarrow> 'w word option" where
  "checked_mul a b = (if uint a * uint b < 2 ^ LENGTH('w) then Some (a * b) else None)"

definition saturating_sub :: "'w::len word \<Rightarrow> 'w word \<Rightarrow> 'w word" where
  "saturating_sub a b = (if b \<le> a then a - b else 0)"

section \<open>Slices\<close>

primrec position :: "('a \<Rightarrow> bool) \<Rightarrow> 'a list \<Rightarrow> nat option" where
  "position p [] = None"
| "position p (x # xs) = (if p x then Some 0 else map_option Suc (position p xs))"

definition slice_get :: "'a list \<Rightarrow> nat \<Rightarrow> 'a option" where
  "slice_get xs i = (if i < length xs then Some (xs ! i) else None)"

definition insert_at :: "nat \<Rightarrow> 'a \<Rightarrow> 'a list \<Rightarrow> 'a list" where
  "insert_at i x xs = take i xs @ x # drop i xs"

definition remove_at :: "nat \<Rightarrow> 'a list \<Rightarrow> 'a list" where
  "remove_at i xs = take i xs @ drop (Suc i) xs"

definition keys_strict :: "('a \<Rightarrow> 'k::linorder) \<Rightarrow> 'a list \<Rightarrow> bool" where
  "keys_strict key xs = sorted_wrt (<) (map key xs)"

named_theorems res_simps "evaluation of result combinators"
named_theorems checked_simps "inversion of checked arithmetic"

section \<open>Laws of results\<close>

lemma res_bind_simps [simp, res_simps]:
  "res_bind (Ok a) f = f a"
  "res_bind (Err e) f = Err e"
  by (simp_all add: res_bind_def)

lemma map_err_simps [simp, res_simps]:
  "map_err f (Ok a) = Ok a"
  "map_err f (Err e) = Err (f e)"
  by (simp_all add: map_err_def)

lemma ok_or_simps [simp, res_simps]:
  "ok_or e (Some a) = Ok a"
  "ok_or e None = Err e"
  by (simp_all add: ok_or_def)

lemma is_ok_simps [simp, res_simps]:
  "is_ok (Ok a)"
  "\<not> is_ok (Err e)"
  by (simp_all add: is_ok_def)

lemma res_bind_eq_Ok [res_simps]:
  "res_bind r f = Ok b \<longleftrightarrow> (\<exists>a. r = Ok a \<and> f a = Ok b)"
  by (cases r) simp_all

lemma map_err_eq_Ok [simp]: "map_err f r = Ok a \<longleftrightarrow> r = Ok a"
  by (cases r) simp_all

lemma ok_or_eq_Ok [simp]: "ok_or e r = Ok a \<longleftrightarrow> r = Some a"
  by (cases r) simp_all

section \<open>Laws of checked arithmetic\<close>

lemma unat_lt_width: "unat (a :: 'w::len word) < 2 ^ LENGTH('w)"
  by (rule unsigned_less)

lemma unat_u32_lt: "unat (a :: u32) < 2 ^ 32"
  using unat_lt_width [of a] by simp

lemma unat_u64_lt: "unat (a :: u64) < 2 ^ 64"
  using unat_lt_width [of a] by simp

lemma unat_add_one_u32:
  assumes "(a :: u32) \<noteq> 4294967295"
  shows "unat (a + 1) = Suc (unat a)"
proof -
  have "unat a \<noteq> 4294967295" using assms by (simp add: word_unat_eq_iff)
  then show ?thesis using unat_u32_lt [of a] by (simp add: unat_word_ariths)
qed

lemma uint_add_less_iff:
  "uint a + uint b < 2 ^ LENGTH('w) \<longleftrightarrow> unat a + unat b < 2 ^ LENGTH('w)"
  for a b :: "'w::len word"
proof -
  have "uint a + uint b = int (unat a + unat b)" by simp
  then show ?thesis by (simp only: of_nat_less_numeral_power_cancel_iff)
qed

lemma checked_add_SomeD [checked_simps]:
  assumes "checked_add a b = Some c"
  shows "c = a + b" "unat c = unat a + unat b"
  using assms by (auto simp: checked_add_def uint_add_less_iff unat_word_ariths split: if_splits)

lemma checked_add_eq_None:
  "checked_add a (b :: 'w::len word) = None \<longleftrightarrow> 2 ^ LENGTH('w) \<le> unat a + unat b"
  by (simp add: checked_add_def uint_add_less_iff not_less)

lemma checked_sub_SomeD [checked_simps]:
  assumes "checked_sub a b = Some c"
  shows "b \<le> a" "unat c = unat a - unat b"
  using assms by (auto simp: checked_sub_def unat_sub split: if_splits)

lemma unat_saturating_sub: "unat (saturating_sub a b) = unat a - unat b"
  by (auto simp: saturating_sub_def unat_sub word_le_nat_alt)

section \<open>Laws of slices\<close>

lemma length_insert_at [simp]: "length (insert_at i x xs) = Suc (length xs)"
  by (simp add: insert_at_def)

lemma mset_insert_at [simp]: "mset (insert_at i x xs) = add_mset x (mset xs)"
  unfolding insert_at_def
  by (metis append_take_drop_id mset_append union_mset_add_mset_right mset.simps(2))

lemma set_insert_at [simp]: "set (insert_at i x xs) = insert x (set xs)"
  by (metis mset_insert_at set_mset_add_mset_insert set_mset_mset)

lemma mset_remove_at:
  assumes "i < length xs"
  shows "add_mset (xs ! i) (mset (remove_at i xs)) = mset xs"
proof -
  have "xs = take i xs @ xs ! i # drop (Suc i) xs"
    using assms by (rule id_take_nth_drop)
  then have "mset xs = mset (take i xs @ xs ! i # drop (Suc i) xs)" by simp
  then show ?thesis by (simp add: remove_at_def)
qed

lemma length_remove_at: "i < length xs \<Longrightarrow> Suc (length (remove_at i xs)) = length xs"
  by (simp add: remove_at_def)

lemma remove_at_split: "i = length ys \<Longrightarrow> remove_at i (ys @ z # zs) = ys @ zs"
  by (simp add: remove_at_def)

lemma insert_at_split: "i = length ys \<Longrightarrow> insert_at i x (ys @ zs) = ys @ x # zs"
  by (simp add: insert_at_def)

lemma slice_get_SomeD: "slice_get xs i = Some x \<Longrightarrow> i < length xs \<and> xs ! i = x"
  by (simp add: slice_get_def split: if_splits)

lemma position_SomeD:
  "position p xs = Some i \<Longrightarrow> i < length xs \<and> p (xs ! i) \<and> (\<forall>j<i. \<not> p (xs ! j))"
proof (induction xs arbitrary: i)
  case (Cons x xs)
  show ?case
  proof (cases "p x")
    case False
    then obtain k where k: "position p xs = Some k" "i = Suc k" using Cons.prems by auto
    show ?thesis using Cons.IH [OF k(1)] False k(2) by (auto simp: nth_Cons' less_Suc_eq_0_disj)
  qed (use Cons.prems in auto)
qed simp

lemma position_None: "position p xs = None \<longleftrightarrow> (\<forall>x\<in>set xs. \<not> p x)"
  by (induction xs) auto

lemma option_ext: "(\<And>e. x = Some e \<longleftrightarrow> y = Some e) \<Longrightarrow> x = y"
  by (cases x; cases y) auto

section \<open>Strictly sorted keys\<close>

lemma keys_strict_Nil [simp]: "keys_strict key []"
  by (simp add: keys_strict_def)

lemma keys_strict_append:
  "keys_strict key (xs @ ys) \<longleftrightarrow>
     keys_strict key xs \<and> keys_strict key ys \<and> (\<forall>x\<in>set xs. \<forall>y\<in>set ys. key x < key y)"
  by (auto simp: keys_strict_def sorted_wrt_append)

lemma keys_strict_Cons:
  "keys_strict key (x # xs) \<longleftrightarrow> keys_strict key xs \<and> (\<forall>y\<in>set xs. key x < key y)"
  by (auto simp: keys_strict_def)

lemma keys_strict_sorted: "keys_strict key xs \<Longrightarrow> sorted (map key xs)"
  by (simp add: keys_strict_def strict_sorted_imp_sorted)

lemma keys_strict_distinct: "keys_strict key xs \<Longrightarrow> distinct (map key xs)"
  unfolding keys_strict_def by (simp add: strict_sorted_iff)

lemma keys_strict_inj:
  "keys_strict key xs \<Longrightarrow> x \<in> set xs \<Longrightarrow> y \<in> set xs \<Longrightarrow> key x = key y \<Longrightarrow> x = y"
  using keys_strict_distinct by (fastforce simp: distinct_map inj_on_def)

end
