(* ===== verification/Bitcoin_Types.thy ===== *)
theory Bitcoin_Types
  imports Asm_Prelude
begin

text \<open>
  The Bitcoin data the ASM reads (transactions, outputs, the SPS-50 tag of a transaction, block
  commitments) and the environment records that stand for the library code the sources call: key
  aggregation, taproot construction, the codec, the script builder and iterator, the random number
  generator and the hash functions.  An environment is an argument of every definition that needs
  it; nothing is assumed about its fields except where a lemma states it as a hypothesis.
  The fields of a transaction the sources never read are left out.
\<close>

type_synonym txid = buf32
type_synonym block_id = buf32
type_synonym l1_height = u32

record outpoint =
  op_txid :: txid
  op_vout :: u32

record txin =
  ti_previous_output :: outpoint
  ti_witness :: "bytes list"

record txout =
  to_value :: u64
  to_script_pubkey :: script

record transaction =
  tx_input :: "txin list"
  tx_output :: "txout list"

record tag_data =
  tag_subproto_id :: u8
  tag_tx_type :: u8
  tag_aux_data :: bytes

record tx_input_ref =
  tir_tx :: transaction
  tir_tag :: tag_data

record l1_block_commitment =
  l1_block_height :: l1_height
  l1_block_blkid :: block_id

section \<open>Scripts\<close>

datatype opcode = OP_CHECKSIGVERIFY | OP_SIZE | OP_EQUALVERIFY | OP_SHA256 | OP_EQUAL | OP_CSV

datatype script_elem = PushSlice bytes | PushInt int | PushOpcode opcode

datatype script_instr = InstrPushBytes bytes | InstrOp | InstrError

section \<open>Library code as parameters\<close>

record key_env =
  aggregate_schnorr_keys :: "pubkey list \<Rightarrow> pubkey option"
  new_p2tr :: "pubkey \<Rightarrow> script"

record tx_env = key_env +
  decode_u32_exact :: "bytes \<Rightarrow> (string, u32) result"
  txout_try_into :: "txout \<Rightarrow> (string, txout) result"
  extract_tx_magic_and_tag :: "transaction \<Rightarrow> (string, bytes \<times> tag_data) result"
  script_instructions :: "script \<Rightarrow> script_instr list"
  script_build :: "script_elem list \<Rightarrow> script"
  xonly_from_slice :: "bytes \<Rightarrow> pubkey option"
  p2tr_single_leaf :: "pubkey \<Rightarrow> script \<Rightarrow> script"
  unspendable_public_key :: pubkey

record bridge_env = tx_env +
  chacha_next_u32 :: "buf32 \<Rightarrow> u64 \<Rightarrow> u32"
  descriptor_to_script :: "bytes \<Rightarrow> script"
  claim_v0_encode :: "u32 \<Rightarrow> u32 \<Rightarrow> bytes"
  claim_v1_encode :: "u32 \<Rightarrow> pubkey \<Rightarrow> bytes"
  sha256 :: "bytes \<Rightarrow> buf32"

end
