(* ===== verification/Threshold_Sig.thy ===== *)
theory Threshold_Sig
  imports Bitcoin_Types
begin

text \<open>
  The administration threshold scheme, \<open>crates/subprotocols/admin/threshold-sig/src\<close>: signer
  configurations and their updates (\<open>config.rs\<close>), indexed signatures (\<open>signature.rs\<close>) and the
  verification of a signature set (\<open>verification.rs\<close>, \<open>verification/ecdsa.rs\<close>).  Public key recovery
  and the derivation of a P2WPKH address are library code, fields of \<open>ecdsa_env\<close>.  A threshold is a
  \<open>NonZero<u8>\<close> in the source; here it is a byte, and that it is not zero is part of the invariant.
\<close>

type_synonym p2wpkh_address = "8 word list"
type_synonym message_hash = buf32

record ecdsa_env =
  recover_ecdsa :: "message_hash \<Rightarrow> nat \<Rightarrow> bytes \<Rightarrow> pubkey option"
  from_compact_ok :: "bytes \<Rightarrow> bool"
  address_from_pubkey :: "pubkey \<Rightarrow> p2wpkh_address"

datatype threshold_signature_error =
    InsufficientSignatures nat nat | InvalidThreshold u8 nat | InvalidSignature u8 | InvalidSignatureFormat
  | DuplicateSignerIndex u8 | SignerIndexOutOfBounds u8 nat | MemberAlreadyExists | DuplicateAddMember
  | DuplicateRemoveMember | MemberNotFound | InvalidMessageHash | TooManySigners nat nat

definition max_signers :: nat where "max_signers = 256"

section \<open>Configuration\<close>

record threshold_config =
  tc_signers :: "p2wpkh_address list"
  tc_threshold :: u8

record threshold_config_update =
  tcu_add_members :: "p2wpkh_address list"
  tcu_remove_members :: "p2wpkh_address list"
  tcu_new_threshold :: u8

definition bounded_members :: "p2wpkh_address list \<Rightarrow> (threshold_signature_error, p2wpkh_address list) result" where
  "bounded_members members =
     (if max_signers < length members then Err (TooManySigners (length members) max_signers) else Ok members)"

definition tcu_try_new ::
  "p2wpkh_address list \<Rightarrow> p2wpkh_address list \<Rightarrow> u8 \<Rightarrow> (threshold_signature_error, threshold_config_update) result" where
  "tcu_try_new add_members remove_members new_threshold =
     res_bind (bounded_members add_members) (\<lambda>add_members.
     res_bind (bounded_members remove_members) (\<lambda>remove_members.
       Ok \<lparr>tcu_add_members = add_members, tcu_remove_members = remove_members, tcu_new_threshold = new_threshold\<rparr>))"

definition validate_update ::
  "threshold_config_update \<Rightarrow> threshold_config \<Rightarrow> (threshold_signature_error, unit) result" where
  "validate_update update self =
     (let add = tcu_add_members update; remove = tcu_remove_members update in
      if card (set add) \<noteq> length add then Err DuplicateAddMember
      else if card (set remove) \<noteq> length remove then Err DuplicateRemoveMember
      else if list_ex (\<lambda>m. m \<in> set (tc_signers self)) add then Err MemberAlreadyExists
      else if list_ex (\<lambda>m. m \<notin> set (tc_signers self)) remove then Err MemberNotFound
      else
        let updated_size = length (tc_signers self) + length add - length remove
        in if max_signers < updated_size then Err (TooManySigners updated_size max_signers)
           else if updated_size < unat (tcu_new_threshold update)
           then Err (InvalidThreshold (tcu_new_threshold update) updated_size)
           else Ok ())"

definition apply_update ::
  "threshold_config_update \<Rightarrow> threshold_config \<Rightarrow> (threshold_signature_error, threshold_config) result" where
  "apply_update update self =
     res_bind (validate_update update self) (\<lambda>_.
       Ok \<lparr>tc_signers = filter (\<lambda>signer. signer \<notin> set (tcu_remove_members update)) (tc_signers self)
                          @ tcu_add_members update,
           tc_threshold = tcu_new_threshold update\<rparr>)"

definition tc_try_new ::
  "p2wpkh_address list \<Rightarrow> u8 \<Rightarrow> (threshold_signature_error, threshold_config) result" where
  "tc_try_new signers threshold =
     res_bind (tcu_try_new signers [] threshold) (\<lambda>update.
       apply_update update \<lparr>tc_signers = [], tc_threshold = threshold\<rparr>)"

section \<open>Signatures\<close>

record indexed_signature =
  is_index :: u8
  is_signature :: bytes

definition recovery_id :: "indexed_signature \<Rightarrow> u8" where
  "recovery_id self = is_signature self ! 0"

definition sig_compact :: "indexed_signature \<Rightarrow> bytes" where
  "sig_compact self = take 64 (drop 1 (is_signature self))"

fun first_repeated :: "u8 set \<Rightarrow> indexed_signature list \<Rightarrow> u8 option" where
  "first_repeated seen [] = None"
| "first_repeated seen (sig # sigs) =
     (if is_index sig \<in> seen then Some (is_index sig) else first_repeated (insert (is_index sig) seen) sigs)"

definition signature_set_new ::
  "indexed_signature list \<Rightarrow> (threshold_signature_error, indexed_signature list) result" where
  "signature_set_new signatures =
     (case first_repeated {} signatures of
        Some i \<Rightarrow> Err (DuplicateSignerIndex i)
      | None \<Rightarrow>
          if max_signers < length signatures then Err (TooManySigners (length signatures) max_signers)
          else Ok signatures)"

definition normalize_recovery_id :: "u8 \<Rightarrow> (threshold_signature_error, nat) result" where
  "normalize_recovery_id header =
     (if header \<le> 3 then Ok (unat header)
      else if 31 \<le> header \<and> header \<le> 34 then Ok (unat (header - 31))
      else if 35 \<le> header \<and> header \<le> 38 then Ok (unat (header - 35))
      else if 39 \<le> header \<and> header \<le> 42 then Ok (unat (header - 39))
      else Err InvalidSignatureFormat)"

definition verify_ecdsa_signature ::
  "'e ecdsa_env_scheme \<Rightarrow> threshold_config \<Rightarrow> message_hash \<Rightarrow> indexed_signature
     \<Rightarrow> (threshold_signature_error, unit) result" where
  "verify_ecdsa_signature env config message sig =
     (let index = unat (is_index sig); signers_len = length (tc_signers config) in
      if signers_len \<le> index then Err (SignerIndexOutOfBounds (is_index sig) (signers_len - 1))
      else
        res_bind (normalize_recovery_id (recovery_id sig)) (\<lambda>recid.
          if \<not> from_compact_ok env (sig_compact sig) then Err InvalidSignatureFormat
          else
            (case recover_ecdsa env message recid (sig_compact sig) of
               None \<Rightarrow> Err (InvalidSignature (is_index sig))
             | Some pubkey \<Rightarrow>
                 if address_from_pubkey env pubkey \<noteq> tc_signers config ! index
                 then Err (InvalidSignature (is_index sig))
                 else Ok ())))"

fun verify_ecdsa_signatures ::
  "'e ecdsa_env_scheme \<Rightarrow> threshold_config \<Rightarrow> indexed_signature list \<Rightarrow> message_hash
     \<Rightarrow> (threshold_signature_error, unit) result" where
  "verify_ecdsa_signatures env config [] message = Ok ()"
| "verify_ecdsa_signatures env config (sig # sigs) message =
     res_bind (verify_ecdsa_signature env config message sig) (\<lambda>_. verify_ecdsa_signatures env config sigs message)"

definition verify_threshold_signatures ::
  "'e ecdsa_env_scheme \<Rightarrow> threshold_config \<Rightarrow> indexed_signature list \<Rightarrow> message_hash
     \<Rightarrow> (threshold_signature_error, unit) result" where
  "verify_threshold_signatures env config signatures message =
     res_bind (signature_set_new signatures) (\<lambda>signature_set.
       if length signature_set < unat (tc_threshold config)
       then Err (InsufficientSignatures (length signature_set) (unat (tc_threshold config)))
       else verify_ecdsa_signatures env config signature_set message)"

section \<open>Laws\<close>

definition config_inv :: "threshold_config \<Rightarrow> bool" where
  "config_inv c \<longleftrightarrow> distinct (tc_signers c) \<and> length (tc_signers c) \<le> max_signers
     \<and> 0 < tc_threshold c \<and> unat (tc_threshold c) \<le> length (tc_signers c)"

lemma validate_update_Ok_iff:
  assumes "distinct (tc_signers c)"
  shows "validate_update u c = Ok () \<longleftrightarrow>
    distinct (tcu_add_members u) \<and> distinct (tcu_remove_members u)
    \<and> set (tcu_add_members u) \<inter> set (tc_signers c) = {} \<and> set (tcu_remove_members u) \<subseteq> set (tc_signers c)
    \<and> length (tc_signers c) + length (tcu_add_members u) - length (tcu_remove_members u) \<le> max_signers
    \<and> unat (tcu_new_threshold u) \<le> length (tc_signers c) + length (tcu_add_members u) - length (tcu_remove_members u)"
  by (auto simp: validate_update_def Let_def list_ex_iff distinct_card card_distinct not_less)

lemma length_filter_out:
  assumes "distinct xs" "distinct ys" "set ys \<subseteq> set xs"
  shows "length (filter (\<lambda>x. x \<notin> set ys) xs) + length ys = length xs"
proof -
  have "length (filter (\<lambda>x. x \<notin> set ys) xs) = card (set xs - set ys)"
    using assms(1) by (simp add: distinct_card [symmetric] set_diff_eq)
  moreover have "card (set xs - set ys) = card (set xs) - card (set ys)" using assms(3) by (simp add: card_Diff_subset)
  moreover have "card (set ys) \<le> card (set xs)" using assms(3) by (simp add: card_mono)
  ultimately show ?thesis using distinct_card [OF assms(1)] distinct_card [OF assms(2)] by simp
qed

lemma apply_update_spec:
  assumes "distinct (tc_signers c)" and "0 < tcu_new_threshold u" and "apply_update u c = Ok c'"
  shows "config_inv c'" and "set (tc_signers c') = set (tc_signers c) - set (tcu_remove_members u) \<union> set (tcu_add_members u)"
    and "tc_threshold c' = tcu_new_threshold u"
proof -
  have v: "validate_update u c = Ok ()" and c': "c' = \<lparr>tc_signers = filter (\<lambda>s. s \<notin> set (tcu_remove_members u)) (tc_signers c)
      @ tcu_add_members u, tc_threshold = tcu_new_threshold u\<rparr>"
    using assms(3) by (auto simp: apply_update_def res_simps)
  note V = v [unfolded validate_update_Ok_iff [OF assms(1)]]
  have "length (filter (\<lambda>s. s \<notin> set (tcu_remove_members u)) (tc_signers c)) + length (tcu_remove_members u) = length (tc_signers c)"
    using V assms(1) by (intro length_filter_out) auto
  then have "length (tc_signers c') = length (tc_signers c) + length (tcu_add_members u) - length (tcu_remove_members u)"
    by (simp add: c')
  then show "config_inv c'" using V assms(1,2) by (auto simp: config_inv_def c')
  show "set (tc_signers c') = set (tc_signers c) - set (tcu_remove_members u) \<union> set (tcu_add_members u)"
    and "tc_threshold c' = tcu_new_threshold u" by (auto simp: c')
qed

lemma first_repeated_None: "first_repeated seen sigs = None \<longleftrightarrow> distinct (map is_index sigs) \<and> is_index ` set sigs \<inter> seen = {}"
  by (induction seen sigs rule: first_repeated.induct) auto

lemma verify_ecdsa_signatures_Ok:
  "verify_ecdsa_signatures env config sigs message = Ok () \<longleftrightarrow>
     (\<forall>sig \<in> set sigs. verify_ecdsa_signature env config message sig = Ok ())"
  by (induction sigs) (auto simp: res_simps)

lemma normalize_recovery_id_less: "normalize_recovery_id h = Ok n \<Longrightarrow> n < 4"
  by (auto simp: normalize_recovery_id_def word_le_nat_alt unat_sub split: if_splits)

lemma verify_ecdsa_signature_OkD:
  assumes "verify_ecdsa_signature env config message sig = Ok ()"
  shows "unat (is_index sig) < length (tc_signers config)
    \<and> (\<exists>recid pk. recid < 4 \<and> recover_ecdsa env message recid (sig_compact sig) = Some pk
        \<and> address_from_pubkey env pk = tc_signers config ! unat (is_index sig))"
  using assms normalize_recovery_id_less
  by (auto simp: verify_ecdsa_signature_def Let_def res_simps split: if_splits option.splits)

lemma tc_try_new_spec:
  assumes "tc_try_new signers t = Ok c0" and "0 < t"
  shows "config_inv c0 \<and> tc_signers c0 = signers \<and> tc_threshold c0 = t"
proof -
  let ?u = "\<lparr>tcu_add_members = signers, tcu_remove_members = [], tcu_new_threshold = t\<rparr>"
  have u: "apply_update ?u \<lparr>tc_signers = [], tc_threshold = t\<rparr> = Ok c0"
    using assms(1) by (auto simp: tc_try_new_def tcu_try_new_def bounded_members_def res_simps split: if_splits)
  have "tc_signers c0 = signers" "tc_threshold c0 = t" using u by (auto simp: apply_update_def res_simps)
  then show ?thesis using apply_update_spec(1) [OF _ _ u] assms(2) by simp
qed

text \<open>A quorum: as many distinct configured signers as the threshold, each recovered from a signature over
  the message.\<close>

definition quorum :: "'e ecdsa_env_scheme \<Rightarrow> threshold_config \<Rightarrow> indexed_signature list \<Rightarrow> message_hash \<Rightarrow> bool" where
  "quorum env c sigs message \<longleftrightarrow>
     (\<exists>A \<subseteq> set (tc_signers c). unat (tc_threshold c) \<le> card A
        \<and> (\<forall>a \<in> A. \<exists>sig \<in> set sigs. \<exists>recid pk. recid < 4
             \<and> recover_ecdsa env message recid (sig_compact sig) = Some pk \<and> address_from_pubkey env pk = a))"

lemma verify_threshold_quorum:
  assumes "config_inv c" and "verify_threshold_signatures env c sigs message = Ok ()"
  shows "quorum env c sigs message"
proof -
  let ?f = "\<lambda>sig. tc_signers c ! unat (is_index sig)"
  have dist: "distinct (map is_index sigs)" and len: "unat (tc_threshold c) \<le> length sigs"
    and ok: "\<And>sig. sig \<in> set sigs \<Longrightarrow> verify_ecdsa_signature env c message sig = Ok ()"
    using assms(2) by (auto simp: verify_threshold_signatures_def signature_set_new_def first_repeated_None
        verify_ecdsa_signatures_Ok res_simps split: option.splits if_splits)
  note D = verify_ecdsa_signature_OkD [OF ok]
  have "inj_on ?f (set sigs)"
  proof (rule inj_onI)
    fix a b assume ab: "a \<in> set sigs" "b \<in> set sigs" "?f a = ?f b"
    then have "is_index a = is_index b"
      using D [of a] D [of b] assms(1) by (auto simp: config_inv_def nth_eq_iff_index_eq word_unat_eq_iff)
    then show "a = b" using dist ab by (auto simp: distinct_map dest: inj_onD)
  qed
  moreover have "distinct sigs" using dist by (simp add: distinct_map)
  ultimately have "card (?f ` set sigs) = length sigs" by (simp add: card_image distinct_card)
  moreover have "?f ` set sigs \<subseteq> set (tc_signers c)" using D by auto
  moreover have "\<forall>a \<in> ?f ` set sigs. \<exists>sig \<in> set sigs. \<exists>recid pk. recid < 4
         \<and> recover_ecdsa env message recid (sig_compact sig) = Some pk \<and> address_from_pubkey env pk = a"
    using D by blast
  ultimately show ?thesis using len unfolding quorum_def by (intro exI [of _ "?f ` set sigs"]) simp
qed

section \<open>Properties\<close>

text \<open>A consistent update of a signer set.\<close>

definition update_consistent :: "threshold_config_update \<Rightarrow> threshold_config \<Rightarrow> bool" where
  "update_consistent u c \<longleftrightarrow>
     distinct (tcu_add_members u) \<and> distinct (tcu_remove_members u)
   \<and> set (tcu_add_members u) \<inter> set (tc_signers c) = {} \<and> set (tcu_remove_members u) \<subseteq> set (tc_signers c)
   \<and> unat (tcu_new_threshold u) \<le> length (tc_signers c) + length (tcu_add_members u) - length (tcu_remove_members u)
   \<and> length (tc_signers c) + length (tcu_add_members u) - length (tcu_remove_members u) \<le> max_signers"

lemma apply_update_iff:
  assumes "config_inv c"
  shows "apply_update u c = Ok c' \<longleftrightarrow> update_consistent u c
    \<and> c' = \<lparr>tc_signers = filter (\<lambda>m. m \<notin> set (tcu_remove_members u)) (tc_signers c) @ tcu_add_members u,
            tc_threshold = tcu_new_threshold u\<rparr>"
proof -
  have "distinct (tc_signers c)" using assms by (simp add: config_inv_def)
  from validate_update_Ok_iff [OF this, of u] show ?thesis
    by (cases "validate_update u c") (auto simp: apply_update_def update_consistent_def)
qed

lemma tc_try_new_iff:
  "tc_try_new signers t = Ok c \<longleftrightarrow> distinct signers \<and> length signers \<le> max_signers \<and> unat t \<le> length signers
     \<and> c = \<lparr>tc_signers = signers, tc_threshold = t\<rparr>"
proof -
  let ?u = "\<lparr>tcu_add_members = signers, tcu_remove_members = [], tcu_new_threshold = t\<rparr>"
  let ?e = "\<lparr>tc_signers = [], tc_threshold = t\<rparr>"
  have "validate_update ?u ?e = Ok () \<longleftrightarrow> distinct signers \<and> length signers \<le> max_signers \<and> unat t \<le> length signers"
    by (subst validate_update_Ok_iff) simp_all
  moreover have "tc_try_new signers t = (if max_signers < length signers then Err (TooManySigners (length signers) max_signers)
      else apply_update ?u ?e)" by (simp add: tc_try_new_def tcu_try_new_def bounded_members_def)
  ultimately show ?thesis by (cases "validate_update ?u ?e") (simp_all add: apply_update_def, auto)
qed

text \<open>C33: threshold configurations stay satisfiable.  An update is accepted exactly when it names new and
  old members without repetition, adds only strangers, removes only members and leaves at most 256
  signers who can meet the new threshold.  The signers who stay then keep their order, the new ones follow
  in the order named, and the result is again a satisfiable configuration without repetitions, with
  precisely the requested signer set.  A fresh configuration is accepted exactly when its signers are
  distinct, at most 256, and can meet its threshold.\<close>
theorem threshold_update_keeps_config:
  assumes "config_inv c" and "0 < tcu_new_threshold u"
  shows "(is_ok (apply_update u c) \<longleftrightarrow> update_consistent u c)
    \<and> (\<forall>c'. apply_update u c = Ok c' \<longrightarrow> config_inv c' \<and> tc_threshold c' = tcu_new_threshold u
        \<and> tc_signers c' = filter (\<lambda>m. m \<notin> set (tcu_remove_members u)) (tc_signers c) @ tcu_add_members u
        \<and> set (tc_signers c') = set (tc_signers c) - set (tcu_remove_members u) \<union> set (tcu_add_members u))
    \<and> (tc_try_new signers t = Ok c0 \<longleftrightarrow> distinct signers \<and> length signers \<le> max_signers \<and> unat t \<le> length signers
        \<and> c0 = \<lparr>tc_signers = signers, tc_threshold = t\<rparr>)"
proof -
  have d: "distinct (tc_signers c)" using assms(1) by (simp add: config_inv_def)
  have "is_ok (apply_update u c) \<longleftrightarrow> (\<exists>c'. apply_update u c = Ok c')" by (cases "apply_update u c") simp_all
  then have one: "is_ok (apply_update u c) \<longleftrightarrow> update_consistent u c" unfolding apply_update_iff [OF assms(1)] by simp
  have two: "config_inv c' \<and> tc_threshold c' = tcu_new_threshold u
        \<and> tc_signers c' = filter (\<lambda>m. m \<notin> set (tcu_remove_members u)) (tc_signers c) @ tcu_add_members u
        \<and> set (tc_signers c') = set (tc_signers c) - set (tcu_remove_members u) \<union> set (tcu_add_members u)"
    if ok: "apply_update u c = Ok c'" for c'
    using apply_update_spec [OF d assms(2) ok] ok [unfolded apply_update_iff [OF assms(1)]] by simp
  show ?thesis using one two tc_try_new_iff [of signers t c0] by blast
qed

theorem threshold_update_keeps_config_witness:
  "\<exists>c'. apply_update \<lparr>tcu_add_members = [[3]], tcu_remove_members = [[1]], tcu_new_threshold = 2\<rparr>
       \<lparr>tc_signers = [[1], [2]], tc_threshold = 1\<rparr> = Ok c' \<and> config_inv c' \<and> set (tc_signers c') = {[2], [3]}
     \<and> \<not> is_ok (apply_update \<lparr>tcu_add_members = [], tcu_remove_members = [[4]], tcu_new_threshold = 1\<rparr>
       \<lparr>tc_signers = [[1], [2]], tc_threshold = 1\<rparr>)"
proof -
  let ?u = "\<lparr>tcu_add_members = [[3]], tcu_remove_members = [[1]], tcu_new_threshold = 2\<rparr>"
  let ?v = "\<lparr>tcu_add_members = [], tcu_remove_members = [[4]], tcu_new_threshold = 1\<rparr>"
  let ?c = "\<lparr>tc_signers = [[1], [2]], tc_threshold = 1\<rparr>"
  have inv: "config_inv ?c" "0 < tcu_new_threshold ?u" "0 < tcu_new_threshold ?v" by (simp_all add: config_inv_def max_signers_def)
  note T = threshold_update_keeps_config [OF inv(1,2)] and V = threshold_update_keeps_config [OF inv(1,3)]
  have "update_consistent ?u ?c" "\<not> update_consistent ?v ?c" by code_simp+
  then have ok: "is_ok (apply_update ?u ?c)" "\<not> is_ok (apply_update ?v ?c)" using T V by blast+
  then obtain c' where "apply_update ?u ?c = Ok c'" by (cases "apply_update ?u ?c") simp_all
  then show ?thesis using T ok(2) by auto
qed

text \<open>C19: an authorisation comes from at least the threshold of distinct signers.  When a signature set
  verifies, there is a set of configured signers, no smaller than the threshold, each of whom is the
  address of a key recovered from one of the signatures over this very message; a signer counted twice,
  an index out of range or a header of the uncompressed range cannot contribute.\<close>
theorem threshold_met_by_distinct_signers:
  assumes "config_inv c" and "verify_threshold_signatures env c sigs message = Ok ()"
  shows "\<exists>A \<subseteq> set (tc_signers c). unat (tc_threshold c) \<le> card A
    \<and> (\<forall>a \<in> A. \<exists>sig \<in> set sigs. \<exists>recid pk. recid < 4
         \<and> recover_ecdsa env message recid (sig_compact sig) = Some pk \<and> address_from_pubkey env pk = a)"
  using verify_threshold_quorum [OF assms] by (simp add: quorum_def)

definition sample_ecdsa_env :: ecdsa_env where
  "sample_ecdsa_env = \<lparr>recover_ecdsa = (\<lambda>m i b. if take 1 b = take 1 m then Some (drop 1 b) else None),
     from_compact_ok = (\<lambda>b. True), address_from_pubkey = (\<lambda>k. k)\<rparr>"

theorem threshold_met_by_distinct_signers_witness:
  "\<exists>A \<subseteq> {[1], [2], [3]}. 2 \<le> card (A :: p2wpkh_address set)
    \<and> (\<forall>a \<in> A. \<exists>sig \<in> {\<lparr>is_index = 0, is_signature = [31, 9, 1]\<rparr>, \<lparr>is_index = 2, is_signature = [0, 9, 3]\<rparr>}.
         \<exists>recid pk. recid < 4 \<and> recover_ecdsa sample_ecdsa_env [9] recid (sig_compact sig) = Some pk
           \<and> address_from_pubkey sample_ecdsa_env pk = a)"
proof -
  let ?c = "\<lparr>tc_signers = [[1], [2], [3]], tc_threshold = 2\<rparr>"
  let ?sigs = "[\<lparr>is_index = 0, is_signature = [31, 9, 1]\<rparr>, \<lparr>is_index = 2, is_signature = [0, 9, 3]\<rparr>]"
  have c: "config_inv ?c" by (simp add: config_inv_def max_signers_def)
  have "verify_threshold_signatures sample_ecdsa_env ?c ?sigs [9] = Ok ()" by code_simp
  from threshold_met_by_distinct_signers [OF c this] show ?thesis by simp
qed

end
