(* ===== verification/Bridge_Types.thy ===== *)
theory Bridge_Types
  imports Bitcoin_Types
begin

text \<open>
  The value types of \<open>crates/subprotocols/bridge/types\<close>: operator bitmaps, operator
  selections, withdrawal intents and outputs, the safe harbor, and the operator claims the bridge
  exports.  An \<open>OperatorBitmap\<close> is the list of its bits, a \<open>Descriptor\<close> (a third-party
  type the code only stores, compares and hands on) is its byte string.
\<close>

type_synonym operator_idx = u32
type_synonym operator_bitmap = "bool list"
type_synonym operator_selection = u32
type_synonym descriptor = bytes

section \<open>Operator selection\<close>

definition no_selection_sentinel :: u32 where
  "no_selection_sentinel = 4294967295"

definition sel_any :: operator_selection where
  "sel_any = no_selection_sentinel"

definition sel_specific :: "operator_idx \<Rightarrow> operator_selection option" where
  "sel_specific idx = (if idx = no_selection_sentinel then None else Some idx)"

definition as_specific :: "operator_selection \<Rightarrow> operator_idx option" where
  "as_specific s = (if s \<noteq> no_selection_sentinel then Some s else None)"

section \<open>Operator bitmap\<close>

datatype operator_bitmap_error =
    IndexOutOfBounds operator_idx operator_idx
  | MismatchedBitmapLengths nat nat
  | InsufficientActiveBitmapLength nat nat

definition bm_new_empty :: operator_bitmap where
  "bm_new_empty = []"

definition bm_new_with_size :: "nat \<Rightarrow> bool \<Rightarrow> operator_bitmap" where
  "bm_new_with_size n initial_state = replicate n initial_state"

definition bm_is_active :: "operator_bitmap \<Rightarrow> operator_idx \<Rightarrow> bool" where
  "bm_is_active b idx = (case slice_get b (unat idx) of Some v \<Rightarrow> v | None \<Rightarrow> False)"

definition bm_try_set ::
  "operator_bitmap \<Rightarrow> operator_idx \<Rightarrow> bool \<Rightarrow> (operator_bitmap_error, operator_bitmap) result" where
  "bm_try_set b idx active =
     (let i = unat idx in
      if length b < i then Err (IndexOutOfBounds idx (of_nat (length b)))
      else let b' = (if i = length b then b @ [False] else b) in Ok (b'[i := active]))"

definition bm_active_indices :: "operator_bitmap \<Rightarrow> operator_idx list" where
  "bm_active_indices b = map of_nat (filter (\<lambda>i. b ! i) [0..<length b])"

definition bm_active_count :: "operator_bitmap \<Rightarrow> nat" where
  "bm_active_count b = length (filter (\<lambda>v. v) b)"

definition bm_inactive_count :: "operator_bitmap \<Rightarrow> nat" where
  "bm_inactive_count b = length (filter (\<lambda>v. \<not> v) b)"

definition bm_ssz :: "(operator_bitmap \<Rightarrow> bytes) \<Rightarrow> operator_bitmap \<Rightarrow> u32 \<times> bytes" where
  "bm_ssz as_raw_slice b = (of_nat (length b), as_raw_slice b)"

definition bm_from_ssz ::
  "(bytes \<Rightarrow> bool list) \<Rightarrow> u32 \<times> bytes \<Rightarrow> (string, operator_bitmap) result" where
  "bm_from_ssz from_vec value =
     (let bits = from_vec (snd value) in
      if length bits < unat (fst value)
      then Err ''operator bitmap bit length exceeds byte payload''
      else Ok (take (unat (fst value)) bits))"

definition filter_eligible_operators ::
  "operator_bitmap \<Rightarrow> operator_bitmap \<Rightarrow> operator_bitmap \<Rightarrow> (operator_bitmap_error, operator_bitmap) result"
where
  "filter_eligible_operators notary_operators previous_assignees current_active_operators =
     (if length notary_operators \<noteq> length previous_assignees
      then Err (MismatchedBitmapLengths (length notary_operators) (length previous_assignees))
      else if length current_active_operators < length notary_operators
      then Err (InsufficientActiveBitmapLength (length current_active_operators) (length notary_operators))
      else
        let active = take (length notary_operators) current_active_operators;
            active = map2 (\<and>) active notary_operators;
            active = map2 (\<and>) active (map Not previous_assignees)
        in Ok active)"

section \<open>Withdrawals\<close>

record withdrawal_output =
  wo_destination :: descriptor
  wo_amt :: u64

record withdrawal_intent =
  wi_destination :: descriptor
  wi_amt :: u64
  wi_selected_operator :: operator_selection

definition to_output :: "withdrawal_intent \<Rightarrow> withdrawal_output" where
  "to_output w = \<lparr>wo_destination = wi_destination w, wo_amt = wi_amt w\<rparr>"

definition denomination_units :: "withdrawal_intent \<Rightarrow> u64 \<Rightarrow> u64 option" where
  "denomination_units w denom =
     (if denom = 0 \<or> wi_amt w mod denom \<noteq> 0 then None else Some (wi_amt w div denom))"

definition decompose :: "withdrawal_intent \<Rightarrow> u64 \<Rightarrow> withdrawal_intent list option" where
  "decompose w denomination =
     (case denomination_units w denomination of
        None \<Rightarrow> None
      | Some n \<Rightarrow> Some (replicate (unat n)
          \<lparr>wi_destination = wi_destination w, wi_amt = denomination,
           wi_selected_operator = wi_selected_operator w\<rparr>))"

section \<open>Safe harbor\<close>

type_synonym safe_harbor_address = descriptor

record safe_harbor =
  sh_address :: safe_harbor_address
  sh_activated :: bool

definition safe_harbor_address_try_from ::
  "(descriptor \<Rightarrow> 't) \<Rightarrow> 't \<Rightarrow> descriptor \<Rightarrow> ('t, safe_harbor_address) result" where
  "safe_harbor_address_try_from type_tag p2tr d = (if type_tag d = p2tr then Ok d else Err (type_tag d))"

definition sh_new :: "safe_harbor_address \<Rightarrow> safe_harbor" where
  "sh_new a = \<lparr>sh_address = a, sh_activated = False\<rparr>"

definition sh_active_address :: "safe_harbor \<Rightarrow> safe_harbor_address option" where
  "sh_active_address s = (if sh_activated s then Some (sh_address s) else None)"

definition sh_set_activated :: "bool \<Rightarrow> safe_harbor \<Rightarrow> safe_harbor" where
  "sh_set_activated b s = s\<lparr>sh_activated := b\<rparr>"

definition sh_update_address :: "safe_harbor_address \<Rightarrow> safe_harbor \<Rightarrow> safe_harbor \<times> bool" where
  "sh_update_address a s = (if sh_activated s then (s, False) else (s\<lparr>sh_address := a\<rparr>, True))"

section \<open>Operator claims and the initial configuration\<close>

record operator_claim_v0 =
  ocv0_deposit_idx :: u32
  ocv0_operator_idx :: operator_idx

record operator_claim_v1 =
  ocv1_deposit_idx :: u32
  ocv1_operator_pubkey :: pubkey

definition claim_v0_hash :: "'e bridge_env_scheme \<Rightarrow> operator_claim_v0 \<Rightarrow> buf32" where
  "claim_v0_hash env c = sha256 env (claim_v0_encode env (ocv0_deposit_idx c) (ocv0_operator_idx c))"

definition claim_v1_hash :: "'e bridge_env_scheme \<Rightarrow> operator_claim_v1 \<Rightarrow> buf32" where
  "claim_v1_hash env c = sha256 env (claim_v1_encode env (ocv1_deposit_idx c) (ocv1_operator_pubkey c))"

record bridge_init_config =
  bic_operators :: "pubkey list"
  bic_denomination :: u64
  bic_assignment_duration :: u16
  bic_operator_fee :: u64
  bic_recovery_delay :: u16
  bic_safe_harbor_address :: safe_harbor_address

section \<open>Laws of the bitmap\<close>

lemma bm_is_active_iff: "bm_is_active b idx \<longleftrightarrow> unat idx < length b \<and> b ! unat idx"
  by (simp add: bm_is_active_def slice_get_def)

lemma bm_is_active_lt: "bm_is_active b idx \<Longrightarrow> unat idx < length b"
  by (simp add: bm_is_active_iff)

lemma bm_try_set_ok:
  assumes "bm_try_set b idx v = Ok b'"
  shows "unat idx \<le> length b" "length b' = max (length b) (Suc (unat idx))"
    and "bm_is_active b' j \<longleftrightarrow> (if j = idx then v else bm_is_active b j)"
proof -
  show le: "unat idx \<le> length b"
    using assms by (auto simp: bm_try_set_def Let_def split: if_splits)
  show "length b' = max (length b) (Suc (unat idx))"
    using assms le by (auto simp: bm_try_set_def Let_def split: if_splits)
  show "bm_is_active b' j \<longleftrightarrow> (if j = idx then v else bm_is_active b j)"
    using assms le by (auto simp: bm_try_set_def Let_def bm_is_active_iff nth_list_update nth_append
        less_Suc_eq word_unat_eq_iff split: if_splits)
qed

lemma bm_try_set_in_range:
  "unat idx \<le> length b \<Longrightarrow> \<exists>b'. bm_try_set b idx v = Ok b'"
  by (simp add: bm_try_set_def Let_def)

lemma bm_try_set_inside: "unat idx < length b \<Longrightarrow> bm_try_set b idx v = Ok (b[unat idx := v])"
  by (simp add: bm_try_set_def Let_def)

lemma bm_try_set_out_of_range:
  "length b < unat idx \<Longrightarrow> bm_try_set b idx v = Err (IndexOutOfBounds idx (of_nat (length b)))"
  by (simp add: bm_try_set_def Let_def)

lemma bm_active_count_indices: "bm_active_count b = length (bm_active_indices b)"
proof -
  have "filter (\<lambda>v. v) (map ((!) b) [0..<length b]) = map ((!) b) (filter (\<lambda>i. b ! i) [0..<length b])"
    by (simp add: filter_map comp_def)
  then have "length (filter (\<lambda>v. v) (map ((!) b) [0..<length b])) = length (filter (\<lambda>i. b ! i) [0..<length b])"
    by simp
  then show ?thesis by (simp add: map_nth bm_active_count_def bm_active_indices_def)
qed

lemma unat_of_nat_u32: "n < 2 ^ 32 \<Longrightarrow> unat (of_nat n :: u32) = n"
  by (simp add: unat_of_nat take_bit_nat_eq_self)

lemma bm_active_indices_set:
  assumes "length b \<le> 2 ^ 32"
  shows "set (bm_active_indices b) = {i. bm_is_active b i}"
proof (intro set_eqI iffI)
  fix i assume "i \<in> set (bm_active_indices b)"
  then obtain n where "i = of_nat n" "n < length b" "b ! n" by (auto simp: bm_active_indices_def)
  then show "i \<in> {i. bm_is_active b i}" using assms by (simp add: bm_is_active_iff unat_of_nat_u32)
next
  fix i assume "i \<in> {i. bm_is_active b i}"
  then show "i \<in> set (bm_active_indices b)"
    by (auto simp: bm_active_indices_def bm_is_active_iff intro!: rev_image_eqI [of "unat i"])
qed

lemma bm_active_indices_distinct:
  assumes "length b \<le> 2 ^ 32"
  shows "distinct (bm_active_indices b)"
proof -
  have "inj_on (of_nat :: nat \<Rightarrow> u32) {0..<length b}"
    using assms by (intro inj_onI) (metis atLeastLessThan_iff less_le_trans unat_of_nat_u32)
  then show ?thesis unfolding bm_active_indices_def
    by (auto simp: distinct_map intro: inj_on_subset)
qed

lemma bm_active_count_pos:
  "length b \<le> 2 ^ 32 \<Longrightarrow> 0 < bm_active_count b \<longleftrightarrow> (\<exists>i. bm_is_active b i)"
  using bm_active_indices_set [of b] by (cases "bm_active_indices b") (auto simp: bm_active_count_indices)

lemma bm_replicate_False [simp]: "\<not> bm_is_active (bm_new_with_size n False) i"
  by (simp add: bm_is_active_iff bm_new_with_size_def)

lemma bm_new_with_size_length [simp]: "length (bm_new_with_size n v) = n"
  by (simp add: bm_new_with_size_def)

lemma filter_eligible_ok_iff:
  "(\<exists>e. filter_eligible_operators n p a = Ok e) \<longleftrightarrow> length n = length p \<and> length n \<le> length a"
  by (auto simp: filter_eligible_operators_def Let_def)

lemma filter_eligible_ok:
  assumes "filter_eligible_operators n p a = Ok e"
  shows "length e = length n"
    and "bm_is_active e i \<longleftrightarrow> bm_is_active n i \<and> \<not> bm_is_active p i \<and> bm_is_active a i"
  using assms by (auto simp: filter_eligible_operators_def Let_def bm_is_active_iff split: if_splits)

section \<open>Laws of withdrawals\<close>

lemma denomination_units_SomeD:
  assumes "denomination_units w d = Some n"
  shows "0 < unat d" "unat (wi_amt w) = unat n * unat d"
proof -
  have d: "d \<noteq> 0" "wi_amt w mod d = 0" "n = wi_amt w div d"
    using assms by (auto simp: denomination_units_def split: if_splits)
  then show "0 < unat d" by (simp add: unat_gt_0)
  have "unat (wi_amt w) mod unat d = 0" using d(2) by (metis unat_0 unat_mod)
  then show "unat (wi_amt w) = unat n * unat d" using d(3) by (metis add_0_right div_mult_mod_eq unat_div)
qed

lemma denomination_units_exact:
  assumes "0 < unat d" and "unat (wi_amt w) = k * unat d"
  shows "\<exists>n. denomination_units w d = Some n \<and> unat n = k"
proof -
  have "d \<noteq> 0" using assms(1) by auto
  moreover have "unat (wi_amt w mod d) = 0" using assms by (simp add: unat_mod)
  then have "wi_amt w mod d = 0" by (simp add: unat_eq_0)
  moreover have "unat (wi_amt w div d) = k" using assms by (simp add: unat_div)
  ultimately show ?thesis by (simp add: denomination_units_def)
qed

section \<open>Properties\<close>

text \<open>The operators eligible for an assignment are exactly the ones that signed for the
  deposit, have not been tried before and are still active.  The computation succeeds precisely
  when the bitmaps have compatible lengths, the result keeps the length of the notary set, and the
  two failures name the two lengths.\<close>
theorem filter_eligible_operators_spec:
  "(case filter_eligible_operators notary previous active of
      Ok e \<Rightarrow> length e = length notary
        \<and> {i. bm_is_active e i} = {i. bm_is_active notary i} \<inter> {i. bm_is_active active i} - {i. bm_is_active previous i}
    | Err x \<Rightarrow> x = MismatchedBitmapLengths (length notary) (length previous)
          \<and> length notary \<noteq> length previous
        \<or> x = InsufficientActiveBitmapLength (length active) (length notary)
          \<and> length notary = length previous \<and> length active < length notary)
   \<and> (is_ok (filter_eligible_operators notary previous active)
        \<longleftrightarrow> length notary = length previous \<and> length notary \<le> length active)"
proof (cases "filter_eligible_operators notary previous active")
  case (Inl x)
  then show ?thesis by (auto simp: filter_eligible_operators_def Let_def split: if_splits)
next
  case (Inr e)
  then show ?thesis using filter_eligible_ok [OF Inr] filter_eligible_ok_iff [of notary previous active] by auto
qed

text \<open>Splitting a withdrawal into denomination-sized parts conserves its value.  When the
  amount is a multiple of the denomination the parts all carry exactly the denomination, keep the
  destination and the operator preference, and their amounts sum to the intent's amount; otherwise,
  or when the denomination is zero, no parts are produced.\<close>
theorem decompose_conserves_amount:
  "case decompose w d of
     None \<Rightarrow> unat d = 0 \<or> 0 < unat (wi_amt w) mod unat d
   | Some ws \<Rightarrow>
       0 < unat d \<and> length ws * unat d = unat (wi_amt w)
       \<and> sum_list (map (\<lambda>x. unat (wi_amt x)) ws) = unat (wi_amt w)
       \<and> set ws \<subseteq> {w\<lparr>wi_amt := d\<rparr>}"
proof (cases "denomination_units w d")
  case None
  then have "d = 0 \<or> unat (wi_amt w mod d) \<noteq> 0"
    by (auto simp: denomination_units_def unat_eq_0 split: if_splits)
  then show ?thesis using None by (auto simp: decompose_def unat_mod)
next
  case (Some n)
  then show ?thesis using denomination_units_SomeD [OF Some]
    by (auto simp: decompose_def sum_list_replicate)
qed

text \<open>The safe harbor destination is frozen once activated.  After activation an address
  update is refused and changes nothing, whatever its argument; before activation it takes effect
  and does not activate anything.\<close>
theorem safe_harbor_frozen_when_activated:
  "(sh_update_address a (sh_set_activated True s) = (sh_set_activated True s, False))
   \<and> sh_active_address (fst (sh_update_address a s)) =
       (if sh_activated s then Some (sh_address s) else None)
   \<and> (snd (sh_update_address a s) \<longleftrightarrow> \<not> sh_activated s)
   \<and> sh_address (fst (sh_update_address a s)) = (if sh_activated s then sh_address s else a)"
  by (simp add: sh_update_address_def sh_set_activated_def sh_active_address_def)

text \<open>An operator bitmap survives its storage encoding.  The raw slice may carry padding bits
  after the last operator; decoding with the recorded bit length drops exactly those.\<close>
theorem bitmap_ssz_roundtrip:
  assumes "\<exists>pad. from_vec (as_raw_slice b) = b @ pad" and "length b < 2 ^ 32"
  shows "bm_from_ssz from_vec (bm_ssz as_raw_slice b) = Ok b"
  using assms by (auto simp: bm_from_ssz_def bm_ssz_def Let_def unat_of_nat_u32)

theorem bitmap_ssz_roundtrip_witness:
  "bm_from_ssz (\<lambda>bs. concat (map (\<lambda>w. map (bit w) [0..<8]) bs))
     (bm_ssz (\<lambda>b. [if b ! 0 then 5 else 4]) [True, False, True]) = Ok [True, False, True]"
proof (rule bitmap_ssz_roundtrip)
  show "\<exists>pad. concat (map (\<lambda>w. map (bit w) [0..<8]) [if [True, False, True] ! 0 then 5 else 4 :: u8])
      = [True, False, True] @ pad"
    by (intro exI [of _ "replicate 5 False"]) code_simp
qed simp

end
