(* ===== verification/Bridge_Txs.thy ===== *)
theory Bridge_Txs
  imports Bridge_Types
begin

text \<open>
  The transaction formats of \<open>crates/subprotocols/bridge/txs\<close>: the transaction types, the
  structural errors, and one parser per type, each following the order of the checks of the source.
  Error contexts (static strings used for logging only) are not carried.
\<close>

section \<open>Constants and transaction types\<close>

definition bridge_subprotocol_id :: u8 where
  "bridge_subprotocol_id = 2"

datatype bridge_tx_type =
  DepositRequestTx | DepositTx | WithdrawalFulfillmentTx | CommitTx | SlashTx | UnstakeTx

definition bridge_tx_type_u8 :: "bridge_tx_type \<Rightarrow> u8" where
  "bridge_tx_type_u8 t =
     (case t of DepositRequestTx \<Rightarrow> 0 | DepositTx \<Rightarrow> 1 | WithdrawalFulfillmentTx \<Rightarrow> 2
      | CommitTx \<Rightarrow> 3 | SlashTx \<Rightarrow> 4 | UnstakeTx \<Rightarrow> 5)"

definition bridge_tx_type_try_from :: "u8 \<Rightarrow> (u8, bridge_tx_type) result" where
  "bridge_tx_type_try_from v =
     (if v = 0 then Ok DepositRequestTx
      else if v = 1 then Ok DepositTx
      else if v = 2 then Ok WithdrawalFulfillmentTx
      else if v = 3 then Ok CommitTx
      else if v = 4 then Ok SlashTx
      else if v = 5 then Ok UnstakeTx
      else Err v)"

section \<open>Errors\<close>

datatype witness_error =
    InvalidLength nat nat
  | InvalidScriptStructure
  | NotKeyPathSpend nat
  | InvalidKeyPathSignatureLength nat

datatype tx_structure_error_kind =
    MissingInput nat
  | MissingOutput nat
  | WrongSpentOutput u32 u32
  | InvalidOutput nat string
  | InvalidTxFormat string
  | InvalidAuxiliaryData string
  | InvalidWitness witness_error

record tx_structure_error =
  tse_tx_type :: bridge_tx_type
  tse_kind :: tx_structure_error_kind

definition tx_err :: "bridge_tx_type \<Rightarrow> tx_structure_error_kind \<Rightarrow> (tx_structure_error, 'a) result" where
  "tx_err t k = Err \<lparr>tse_tx_type = t, tse_kind = k\<rparr>"

section \<open>Deposit\<close>

record deposit_info =
  di_deposit_idx :: u32
  di_deposit_output :: txout
  di_drt_inpoint :: outpoint

definition di_amt :: "deposit_info \<Rightarrow> u64" where
  "di_amt i = to_value (di_deposit_output i)"

definition di_locked_script :: "deposit_info \<Rightarrow> script" where
  "di_locked_script i = to_script_pubkey (di_deposit_output i)"

definition deposit_output_index :: nat where "deposit_output_index = 1"
definition drt_output_index :: nat where "drt_output_index = 1"
definition drt_input_index :: nat where "drt_input_index = 0"

definition ensure_key_path_spend :: "bytes list \<Rightarrow> (witness_error, unit) result" where
  "ensure_key_path_spend witness =
     (let has_annex = 2 \<le> length witness \<and> last witness \<noteq> [] \<and> hd (last witness) = 0x50;
          elements = length witness - (if has_annex then 1 else 0)
      in if elements \<noteq> 1 then Err (NotKeyPathSpend elements)
         else let signature = witness ! 0
              in if length signature \<noteq> 64 \<and> length signature \<noteq> 65
                 then Err (InvalidKeyPathSignatureLength (length signature))
                 else Ok ())"

definition parse_deposit_tx ::
  "'e tx_env_scheme \<Rightarrow> tx_input_ref \<Rightarrow> (tx_structure_error, deposit_info) result" where
  "parse_deposit_tx env t =
     (case decode_u32_exact env (tag_aux_data (tir_tag t)) of
        Err e \<Rightarrow> tx_err DepositTx (InvalidAuxiliaryData e)
      | Ok deposit_idx \<Rightarrow>
     (case slice_get (tx_output (tir_tx t)) deposit_output_index of
        None \<Rightarrow> tx_err DepositTx (MissingOutput deposit_output_index)
      | Some raw_output \<Rightarrow>
     (case txout_try_into env raw_output of
        Err e \<Rightarrow> tx_err DepositTx (InvalidOutput deposit_output_index e)
      | Ok deposit_output \<Rightarrow>
     (case slice_get (tx_input (tir_tx t)) drt_input_index of
        None \<Rightarrow> tx_err DepositTx (MissingInput drt_input_index)
      | Some drt_input \<Rightarrow>
     (let drt_inpoint = ti_previous_output drt_input in
      if op_vout drt_inpoint \<noteq> of_nat drt_output_index
      then tx_err DepositTx (WrongSpentOutput (of_nat drt_output_index) (op_vout drt_inpoint))
      else
     (case ensure_key_path_spend (ti_witness drt_input) of
        Err e \<Rightarrow> tx_err DepositTx (InvalidWitness e)
      | Ok _ \<Rightarrow> Ok \<lparr>di_deposit_idx = deposit_idx, di_deposit_output = deposit_output,
                    di_drt_inpoint = drt_inpoint\<rparr>))))))"

section \<open>Deposit request\<close>

definition max_destination_len :: nat where "max_destination_len = 42"

datatype drt_header_aux_error = TooShort nat | DestinationTooLong nat nat

record drt_header_aux =
  drt_recovery_pk :: bytes
  drt_destination :: bytes

definition drt_aux_new :: "bytes \<Rightarrow> bytes \<Rightarrow> (drt_header_aux_error, drt_header_aux) result" where
  "drt_aux_new recovery_pk destination =
     (if max_destination_len < length destination
      then Err (DestinationTooLong max_destination_len (length destination))
      else Ok \<lparr>drt_recovery_pk = recovery_pk, drt_destination = destination\<rparr>)"

definition drt_from_aux_data :: "bytes \<Rightarrow> (drt_header_aux_error, drt_header_aux) result" where
  "drt_from_aux_data aux_data =
     (if length aux_data < 32 then Err (TooShort (length aux_data))
      else
        let recovery_pk = take 32 aux_data; destination = drop 32 aux_data
        in if max_destination_len < length destination
           then Err (DestinationTooLong max_destination_len (length destination))
           else Ok \<lparr>drt_recovery_pk = recovery_pk, drt_destination = destination\<rparr>)"

definition drt_build_tag_data :: "drt_header_aux \<Rightarrow> tag_data" where
  "drt_build_tag_data a =
     \<lparr>tag_subproto_id = bridge_subprotocol_id, tag_tx_type = bridge_tx_type_u8 DepositRequestTx,
      tag_aux_data = drt_recovery_pk a @ drt_destination a\<rparr>"

record deposit_request_info =
  dri_header_aux :: drt_header_aux
  dri_output :: txout

definition parse_drt ::
  "'e tx_env_scheme \<Rightarrow> transaction \<Rightarrow> (tx_structure_error, deposit_request_info) result" where
  "parse_drt env tx =
     (case extract_tx_magic_and_tag env tx of
        Err e \<Rightarrow> tx_err DepositRequestTx (InvalidTxFormat e)
      | Ok (_, tag) \<Rightarrow>
     (case drt_from_aux_data (tag_aux_data tag) of
        Err _ \<Rightarrow> tx_err DepositRequestTx (InvalidAuxiliaryData ''deposit request aux data'')
      | Ok aux \<Rightarrow>
     (case slice_get (tx_output tx) drt_output_index of
        None \<Rightarrow> tx_err DepositRequestTx (MissingOutput drt_output_index)
      | Some raw_output \<Rightarrow>
     (case txout_try_into env raw_output of
        Err e \<Rightarrow> tx_err DepositRequestTx (InvalidOutput drt_output_index e)
      | Ok out \<Rightarrow> Ok \<lparr>dri_header_aux = aux, dri_output = out\<rparr>))))"

definition deposit_request_tapscript :: "'e tx_env_scheme \<Rightarrow> bytes \<Rightarrow> u16 \<Rightarrow> script" where
  "deposit_request_tapscript env recovery_pk recovery_delay =
     script_build env [PushSlice recovery_pk, PushOpcode OP_CHECKSIGVERIFY,
                       PushInt (uint recovery_delay), PushOpcode OP_CSV]"

definition create_deposit_request_locking_script ::
  "'e tx_env_scheme \<Rightarrow> bytes \<Rightarrow> pubkey \<Rightarrow> u16 \<Rightarrow> script" where
  "create_deposit_request_locking_script env recovery_pk internal_key recovery_delay =
     p2tr_single_leaf env internal_key (deposit_request_tapscript env recovery_pk recovery_delay)"

section \<open>Withdrawal fulfillment\<close>

record withdrawal_fulfillment_info =
  wfi_deposit_idx :: u32
  wfi_destination :: script
  wfi_amount :: u64

definition user_withdrawal_fulfillment_output_index :: nat where
  "user_withdrawal_fulfillment_output_index = 1"

definition parse_withdrawal_fulfillment_tx ::
  "'e tx_env_scheme \<Rightarrow> tx_input_ref \<Rightarrow> (tx_structure_error, withdrawal_fulfillment_info) result" where
  "parse_withdrawal_fulfillment_tx env t =
     (case decode_u32_exact env (tag_aux_data (tir_tag t)) of
        Err e \<Rightarrow> tx_err WithdrawalFulfillmentTx (InvalidAuxiliaryData e)
      | Ok deposit_idx \<Rightarrow>
     (case slice_get (tx_output (tir_tx t)) user_withdrawal_fulfillment_output_index of
        None \<Rightarrow> tx_err WithdrawalFulfillmentTx (MissingOutput user_withdrawal_fulfillment_output_index)
      | Some out \<Rightarrow> Ok \<lparr>wfi_deposit_idx = deposit_idx, wfi_destination = to_script_pubkey out,
                       wfi_amount = to_value out\<rparr>))"

section \<open>Slash\<close>

record slash_info =
  si_operator_idx :: operator_idx
  si_stake_inpoint :: outpoint

definition slash_stake_input_index :: nat where "slash_stake_input_index = 1"

definition parse_slash_tx ::
  "'e tx_env_scheme \<Rightarrow> tx_input_ref \<Rightarrow> (tx_structure_error, slash_info) result" where
  "parse_slash_tx env t =
     (case decode_u32_exact env (tag_aux_data (tir_tag t)) of
        Err e \<Rightarrow> tx_err SlashTx (InvalidAuxiliaryData e)
      | Ok operator_idx \<Rightarrow>
     (case slice_get (tx_input (tir_tx t)) slash_stake_input_index of
        None \<Rightarrow> tx_err SlashTx (MissingInput slash_stake_input_index)
      | Some i \<Rightarrow> Ok \<lparr>si_operator_idx = operator_idx, si_stake_inpoint = ti_previous_output i\<rparr>))"

section \<open>Unstake\<close>

record unstake_info =
  ui_operator_idx :: operator_idx
  ui_stake_inpoint :: outpoint
  ui_witness_pushed_pubkey :: pubkey
  ui_stake_hash :: buf32

definition stake_connector_script :: "'e tx_env_scheme \<Rightarrow> buf32 \<Rightarrow> pubkey \<Rightarrow> script" where
  "stake_connector_script env stake_hash pubkey =
     script_build env
       [PushSlice pubkey, PushOpcode OP_CHECKSIGVERIFY,
        PushOpcode OP_SIZE, PushInt 0x20, PushOpcode OP_EQUALVERIFY,
        PushOpcode OP_SHA256, PushSlice stake_hash, PushOpcode OP_EQUAL]"

definition expected_stake_connector_script_pubkey :: "'e tx_env_scheme \<Rightarrow> buf32 \<Rightarrow> pubkey \<Rightarrow> script" where
  "expected_stake_connector_script_pubkey env stake_hash nn_pubkey =
     p2tr_single_leaf env (unspendable_public_key env) (stake_connector_script env stake_hash nn_pubkey)"

definition push32_at :: "'e tx_env_scheme \<Rightarrow> script \<Rightarrow> nat \<Rightarrow> bytes option" where
  "push32_at env s i =
     (case slice_get (script_instructions env s) i of
        Some (InstrPushBytes b) \<Rightarrow> if length b = 32 then Some b else None
      | _ \<Rightarrow> None)"

definition extract_script_params :: "'e tx_env_scheme \<Rightarrow> script \<Rightarrow> (bytes \<times> bytes) option" where
  "extract_script_params env s =
     do { pubkey \<leftarrow> push32_at env s 0; stake_hash \<leftarrow> push32_at env s 6; Some (pubkey, stake_hash) }"

definition validate_and_extract_script_params ::
  "'e tx_env_scheme \<Rightarrow> script \<Rightarrow> (pubkey \<times> buf32) option" where
  "validate_and_extract_script_params env s =
     do {
       (pubkey_bytes, stake_hash_bytes) \<leftarrow> extract_script_params env s;
       pubkey \<leftarrow> xonly_from_slice env pubkey_bytes;
       if s = stake_connector_script env stake_hash_bytes pubkey
       then Some (pubkey, stake_hash_bytes) else None
     }"

definition unstake_stake_input_index :: nat where "unstake_stake_input_index = 0"
definition stake_witness_items :: nat where "stake_witness_items = 4"
definition script_index :: nat where "script_index = 2"

definition parse_unstake_tx ::
  "'e tx_env_scheme \<Rightarrow> tx_input_ref \<Rightarrow> (tx_structure_error, unstake_info) result" where
  "parse_unstake_tx env t =
     (case decode_u32_exact env (tag_aux_data (tir_tag t)) of
        Err e \<Rightarrow> tx_err UnstakeTx (InvalidAuxiliaryData e)
      | Ok operator_idx \<Rightarrow>
     (case slice_get (tx_input (tir_tx t)) unstake_stake_input_index of
        None \<Rightarrow> tx_err UnstakeTx (MissingInput unstake_stake_input_index)
      | Some stake_input \<Rightarrow>
     (let witness = ti_witness stake_input in
      if length witness \<noteq> stake_witness_items
      then tx_err UnstakeTx (InvalidWitness (InvalidLength stake_witness_items (length witness)))
      else
     (case validate_and_extract_script_params env (witness ! script_index) of
        None \<Rightarrow> tx_err UnstakeTx (InvalidWitness InvalidScriptStructure)
      | Some (pubkey, stake_hash) \<Rightarrow>
          Ok \<lparr>ui_operator_idx = operator_idx, ui_stake_inpoint = ti_previous_output stake_input,
              ui_witness_pushed_pubkey = pubkey, ui_stake_hash = stake_hash\<rparr>))))"

section \<open>Dispatch on the transaction type\<close>

datatype parsed_tx =
    ParsedDeposit deposit_info
  | ParsedWithdrawalFulfillment withdrawal_fulfillment_info
  | ParsedSlash slash_info
  | ParsedUnstake unstake_info

definition result_ok :: "('a \<Rightarrow> 'b) \<Rightarrow> ('e, 'a) result \<Rightarrow> 'b option" where
  "result_ok f r = (case r of Ok a \<Rightarrow> Some (f a) | Err _ \<Rightarrow> None)"

definition bridge_parse_tx :: "'e tx_env_scheme \<Rightarrow> tx_input_ref \<Rightarrow> parsed_tx option" where
  "bridge_parse_tx env t =
     (case bridge_tx_type_try_from (tag_tx_type (tir_tag t)) of
        Err _ \<Rightarrow> None
      | Ok DepositTx \<Rightarrow> result_ok ParsedDeposit (parse_deposit_tx env t)
      | Ok WithdrawalFulfillmentTx \<Rightarrow>
          result_ok ParsedWithdrawalFulfillment (parse_withdrawal_fulfillment_tx env t)
      | Ok SlashTx \<Rightarrow> result_ok ParsedSlash (parse_slash_tx env t)
      | Ok UnstakeTx \<Rightarrow> result_ok ParsedUnstake (parse_unstake_tx env t)
      | Ok DepositRequestTx \<Rightarrow> None
      | Ok CommitTx \<Rightarrow> None)"

section \<open>Laws of the formats\<close>

definition key_path_witness :: "bytes list \<Rightarrow> bool" where
  "key_path_witness w \<longleftrightarrow>
     (\<exists>sig. (length sig = 64 \<or> length sig = 65) \<and> (w = [sig] \<or> (\<exists>rest. w = [sig, 0x50 # rest])))"

lemma bridge_tx_type_roundtrip:
  "bridge_tx_type_try_from v = Ok t \<longleftrightarrow> v = bridge_tx_type_u8 t"
  by (cases t) (auto simp: bridge_tx_type_try_from_def bridge_tx_type_u8_def)

lemma ensure_key_path_spend_iff: "ensure_key_path_spend w = Ok () \<longleftrightarrow> key_path_witness w"
proof (cases w)
  case Nil
  then show ?thesis by (simp add: ensure_key_path_spend_def key_path_witness_def)
next
  case (Cons a w1)
  show ?thesis
  proof (cases w1)
    case Nil
    then show ?thesis using Cons by (auto simp: ensure_key_path_spend_def key_path_witness_def Let_def)
  next
    case (Cons b w2)
    show ?thesis
    proof (cases w2)
      case Nil
      then show ?thesis using \<open>w = a # w1\<close> Cons
        by (cases b) (auto simp: ensure_key_path_spend_def key_path_witness_def Let_def)
    next
      case (Cons c w3)
      then show ?thesis using \<open>w = a # w1\<close> \<open>w1 = b # w2\<close>
        by (auto simp: ensure_key_path_spend_def key_path_witness_def Let_def)
    qed
  qed
qed

lemma drt_from_aux_data_iff:
  "drt_from_aux_data bs = Ok a \<longleftrightarrow>
     bs = drt_recovery_pk a @ drt_destination a \<and> length (drt_recovery_pk a) = 32
     \<and> length (drt_destination a) \<le> max_destination_len"
proof
  assume "drt_from_aux_data bs = Ok a"
  then show "bs = drt_recovery_pk a @ drt_destination a \<and> length (drt_recovery_pk a) = 32
     \<and> length (drt_destination a) \<le> max_destination_len"
    by (auto simp: drt_from_aux_data_def Let_def split: if_splits)
next
  assume "bs = drt_recovery_pk a @ drt_destination a \<and> length (drt_recovery_pk a) = 32
     \<and> length (drt_destination a) \<le> max_destination_len"
  then show "drt_from_aux_data bs = Ok a" by (simp add: drt_from_aux_data_def Let_def)
qed

section \<open>Properties\<close>

text \<open>C37: the deposit parser accepts exactly the transactions whose first input spends output 1 of
  its parent through the taproot key path, that is with one signature of 64 or 65 bytes, alone or
  followed by an annex, that carry a decodable deposit index and a valid output 1; it returns that
  index, that output and that outpoint.  A script-path spend of the deposit request (the
  depositor's own takeback) is never a deposit.\<close>
theorem parse_deposit_tx_accepts_iff:
  "parse_deposit_tx env t = Ok info \<longleftrightarrow>
     (\<exists>i is raw. tx_input (tir_tx t) = i # is
        \<and> op_vout (ti_previous_output i) = 1 \<and> key_path_witness (ti_witness i)
        \<and> di_drt_inpoint info = ti_previous_output i
        \<and> decode_u32_exact env (tag_aux_data (tir_tag t)) = Ok (di_deposit_idx info)
        \<and> slice_get (tx_output (tir_tx t)) 1 = Some raw
        \<and> txout_try_into env raw = Ok (di_deposit_output info))"
  (is "?l \<longleftrightarrow> ?r")
proof
  assume ?l
  then show ?r
    by (cases "tx_input (tir_tx t)")
       (auto simp: parse_deposit_tx_def tx_err_def Let_def slice_get_def drt_input_index_def
          drt_output_index_def deposit_output_index_def simp flip: ensure_key_path_spend_iff
          split: sum.splits option.splits if_splits)
next
  assume ?r
  then obtain i "is" raw where r: "tx_input (tir_tx t) = i # is" "op_vout (ti_previous_output i) = 1"
    "ensure_key_path_spend (ti_witness i) = Ok ()" "di_drt_inpoint info = ti_previous_output i"
    "decode_u32_exact env (tag_aux_data (tir_tag t)) = Ok (di_deposit_idx info)"
    "slice_get (tx_output (tir_tx t)) 1 = Some raw" "txout_try_into env raw = Ok (di_deposit_output info)"
    by (auto simp flip: ensure_key_path_spend_iff)
  have "slice_get (tx_input (tir_tx t)) 0 = Some i" using r(1) by (simp add: slice_get_def)
  then show ?l using r
    by (simp add: parse_deposit_tx_def drt_input_index_def drt_output_index_def deposit_output_index_def)
qed

function sample_instructions :: "bytes \<Rightarrow> script_instr list" where
  "sample_instructions s =
     (case s of
        [] \<Rightarrow> []
      | c # cs \<Rightarrow>
          if 1 \<le> c \<and> c \<le> 75 then InstrPushBytes (take (unat c) cs) # sample_instructions (drop (unat c) cs)
          else InstrOp # sample_instructions cs)"
  by pat_completeness auto
termination
  by (relation "measure length") auto

declare sample_instructions.simps [simp del]

definition sample_elem :: "script_elem \<Rightarrow> bytes" where
  "sample_elem e =
     (case e of
        PushSlice b \<Rightarrow> of_nat (length b) # b
      | PushInt i \<Rightarrow> [1, of_int i]
      | PushOpcode OP_CHECKSIGVERIFY \<Rightarrow> [0xad]
      | PushOpcode OP_SIZE \<Rightarrow> [0x82]
      | PushOpcode OP_EQUALVERIFY \<Rightarrow> [0x88]
      | PushOpcode OP_SHA256 \<Rightarrow> [0xa8]
      | PushOpcode OP_EQUAL \<Rightarrow> [0x87]
      | PushOpcode OP_CSV \<Rightarrow> [0xb2])"

definition sample_decode_u32 :: "bytes \<Rightarrow> (string, u32) result" where
  "sample_decode_u32 b =
     (case b of
        [x0, x1, x2, x3] \<Rightarrow> Ok (ucast x0 * 16777216 + ucast x1 * 65536 + ucast x2 * 256 + ucast x3)
      | _ \<Rightarrow> Err ''length'')"

definition sample_tx_env :: bridge_env where
  "sample_tx_env =
     \<lparr>aggregate_schnorr_keys = (\<lambda>ks. if ks = [] then None else Some (concat ks)),
      new_p2tr = (\<lambda>k. 81 # 32 # k),
      decode_u32_exact = sample_decode_u32,
      txout_try_into = Ok,
      extract_tx_magic_and_tag = (\<lambda>tx. case tx_output tx of
          out # _ \<Rightarrow> Ok ([], \<lparr>tag_subproto_id = 2, tag_tx_type = 0, tag_aux_data = to_script_pubkey out\<rparr>)
        | [] \<Rightarrow> Err ''no output''),
      script_instructions = sample_instructions,
      script_build = (\<lambda>es. concat (map sample_elem es)),
      xonly_from_slice = Some,
      p2tr_single_leaf = (\<lambda>k leaf. k @ leaf),
      unspendable_public_key = [0x50],
      chacha_next_u32 = (\<lambda>seed stream. ucast stream + 7),
      descriptor_to_script = (\<lambda>d. d),
      claim_v0_encode = (\<lambda>d i. [ucast d, ucast i]),
      claim_v1_encode = (\<lambda>d k. ucast d # k),
      sha256 = (\<lambda>b. b)\<rparr>"

text \<open>The auxiliary data of a deposit request decodes to exactly the pair it was built from, and
  every accepted byte string is the encoding of its decoding, so the format is unambiguous; an
  encoding never exceeds 74 bytes.\<close>
theorem drt_aux_roundtrip:
  "(drt_from_aux_data bs = Ok a \<longleftrightarrow>
      bs = tag_aux_data (drt_build_tag_data a) \<and> length (drt_recovery_pk a) = 32
      \<and> drt_aux_new (drt_recovery_pk a) (drt_destination a) = Ok a)
   \<and> (is_ok (drt_from_aux_data bs) \<longleftrightarrow> 32 \<le> length bs \<and> length bs \<le> 74)"
proof -
  have "is_ok (drt_from_aux_data bs) \<longleftrightarrow> 32 \<le> length bs \<and> length bs \<le> 74"
    by (auto simp: drt_from_aux_data_def Let_def max_destination_len_def)
  then show ?thesis
    by (auto simp: drt_from_aux_data_iff drt_build_tag_data_def drt_aux_new_def)
qed

end
