(* ===== verification/Checkpoint_Types.thy ===== *)
theory Checkpoint_Types
  imports Bridge_Types
begin

text \<open>
  The data of the checkpoint subprotocol: \<open>crates/subprotocols/checkpoint/types\<close> (payload, claim,
  predicate transition, configuration) and the errors of
  \<open>crates/subprotocols/checkpoint/verification/src/errors.rs\<close>.  Codecs, tree hashes and proof
  verification are library code: they are the fields of \<open>checkpoint_env\<close>.
\<close>

type_synonym predicate_key = bytes
type_synonym epoch = u32
type_synonym manifest_hash = buf32

record ol_block_commitment =
  olbc_slot :: u64
  olbc_blkid :: buf32

record checkpoint_tip =
  ct_epoch :: epoch
  ct_l1_height :: l1_height
  ct_l2_commitment :: ol_block_commitment

record terminal_header_complement =
  thc_timestamp :: u64
  thc_parent_blkid :: buf32
  thc_body_root :: buf32
  thc_logs_root :: buf32

record ol_log =
  ol_account_serial :: u32
  ol_payload :: bytes

record checkpoint_sidecar =
  sc_ol_state_diff :: bytes
  sc_ol_logs :: "ol_log list"
  sc_terminal_header_complement :: terminal_header_complement

record checkpoint_payload =
  cp_new_tip :: checkpoint_tip
  cp_sidecar :: checkpoint_sidecar
  cp_proof :: bytes

record l2_block_range =
  l2r_start :: ol_block_commitment
  l2r_end :: ol_block_commitment

record checkpoint_claim =
  cc_epoch :: epoch
  cc_l2_range :: l2_block_range
  cc_asm_manifests_hash :: buf32
  cc_state_diff_hash :: buf32
  cc_ol_logs_hash :: buf32
  cc_terminal_header_complement_hash :: buf32

record pending_predicate_transition =
  ppt_predicate :: predicate_key
  ppt_boundary :: l1_height

record checkpoint_init_config =
  cic_sequencer_key :: buf32
  cic_checkpoint_predicate :: predicate_key
  cic_genesis_l1_height :: l1_height
  cic_genesis_ol_blkid :: buf32

definition check_genesis_l1_height ::
  "checkpoint_init_config \<Rightarrow> l1_height \<Rightarrow> (l1_height \<times> l1_height, unit) result" where
  "check_genesis_l1_height c anchor_height =
     (if cic_genesis_l1_height c = anchor_height then Ok ()
      else Err (cic_genesis_l1_height c, anchor_height))"

text \<open>The bounded lists of a payload: a constructor refuses a list over its limit.\<close>

datatype checkpoint_payload_error =
  StateDiffTooLarge nat | OLLogsTooLarge nat | ProofTooLarge nat

definition ol_da_diff_max_size :: nat where "ol_da_diff_max_size = 262144"
definition max_ol_logs_per_checkpoint :: nat where "max_ol_logs_per_checkpoint = 16384"
definition max_proof_len :: nat where "max_proof_len = 4096"

definition sidecar_new ::
  "bytes \<Rightarrow> ol_log list \<Rightarrow> terminal_header_complement \<Rightarrow> (checkpoint_payload_error, checkpoint_sidecar) result" where
  "sidecar_new ol_state_diff ol_logs thc =
     (if ol_da_diff_max_size < length ol_state_diff then Err (StateDiffTooLarge (length ol_state_diff))
      else if max_ol_logs_per_checkpoint < length ol_logs then Err (OLLogsTooLarge (length ol_logs))
      else Ok \<lparr>sc_ol_state_diff = ol_state_diff, sc_ol_logs = ol_logs, sc_terminal_header_complement = thc\<rparr>)"

definition payload_new ::
  "checkpoint_tip \<Rightarrow> checkpoint_sidecar \<Rightarrow> bytes \<Rightarrow> (checkpoint_payload_error, checkpoint_payload) result" where
  "payload_new new_tip sidecar proof =
     (if max_proof_len < length proof then Err (ProofTooLarge (length proof))
      else Ok \<lparr>cp_new_tip = new_tip, cp_sidecar = sidecar, cp_proof = proof\<rparr>)"

section \<open>Errors\<close>

datatype invalid_checkpoint_payload =
    CheckpointPredicateVerification string
  | InvalidEpoch epoch epoch
  | L1HeightRegresses u32 u32
  | CheckpointBeyondL1Tip u32 u32
  | L2SlotDoesNotAdvance u64 u64
  | RangeStraddlesPredicateBoundary u32 u32 u32
  | MalformedWithdrawalDestDesc
  | InvalidWithdrawalAmount u64
  | WithdrawalTotalTooLarge
  | EpochOverflow
  | InsufficientFunds u64 u64
  | DenominationMismatch u64 u64

datatype invalid_sequencer_key = PubkeyMismatch buf32 bytes

datatype checkpoint_validation_error =
    InvalidPayload invalid_checkpoint_payload
  | InvalidSequencerKey invalid_sequencer_key

section \<open>Library code\<close>

record withdrawal_log_data =
  wld_dest :: bytes
  wld_amt :: u64
  wld_selected_operator :: u32

record envelope_leaf =
  el_pubkey :: bytes
  el_payload :: bytes

record envelope_spend =
  es_spent_outpoint :: outpoint
  es_unverified_leaf :: envelope_leaf

record checkpoint_env = bridge_env +
  parse_signed_envelope_spend :: "txin \<Rightarrow> (string, envelope_spend) result"
  verify_spent_output :: "envelope_spend \<Rightarrow> script \<Rightarrow> (string, envelope_leaf) result"
  decode_payload_exact :: "bytes \<Rightarrow> (string, checkpoint_payload) result"
  verify_claim_witness :: "predicate_key \<Rightarrow> bytes \<Rightarrow> bytes \<Rightarrow> (string, unit) result"
  claim_ssz_bytes :: "checkpoint_claim \<Rightarrow> bytes"
  ol_logs_ssz_bytes :: "ol_log list \<Rightarrow> bytes"
  hash_raw :: "bytes \<Rightarrow> buf32"
  complement_tree_hash_root :: "terminal_header_complement \<Rightarrow> buf32"
  bridge_gateway_acct_serial :: u32
  try_into_withdrawal_log :: "ol_log \<Rightarrow> (string, withdrawal_log_data) result"
  descriptor_from_bytes :: "bytes \<Rightarrow> (string, descriptor) result"
  bitcoin_amount_try_from :: "u64 \<Rightarrow> u64 option"
  sha256_iter :: "bytes list \<Rightarrow> buf32"

definition range_hash_zero :: buf32 where
  "range_hash_zero = replicate 32 0"

definition compute_asm_manifests_hash_from_leaves ::
  "'e checkpoint_env_scheme \<Rightarrow> manifest_hash list \<Rightarrow> buf32" where
  "compute_asm_manifests_hash_from_leaves env leaves =
     (if leaves = [] then range_hash_zero else sha256_iter env leaves)"

end
