(* ===== verification/Asm_Common.thy ===== *)
theory Asm_Common
  imports Bridge_Txs Checkpoint_Types
begin

text \<open>
  What the subprotocols share: the messages they exchange
  (\<open>crates/subprotocols/bridge/msgs\<close>, \<open>crates/subprotocols/checkpoint/msgs\<close>), the logs they emit
  (\<open>crates/logs\<close>), and the auxiliary data they request and read
  (\<open>crates/common/src/aux_input\<close>).  A relayer is the pair of lists of what was relayed and logged
  so far.  The manifest MMR is library code, given by the fields of \<open>mmr_env\<close>.
\<close>

section \<open>Messages and logs\<close>

datatype bridge_incoming_msg =
    DispatchWithdrawal withdrawal_intent
  | UpdateOperatorSet "pubkey list" "operator_idx list"
  | UpdateSafeHarborAddress safe_harbor_address
  | Defcon

datatype checkpoint_incoming_msg =
    UpdateSequencerKey buf32
  | UpdateCheckpointPredicate predicate_key
  | DepositProcessed u64

datatype interproto_msg =
    BridgeMsg bridge_incoming_msg
  | CheckpointMsg checkpoint_incoming_msg

datatype asm_log =
    DepositLog bytes u64
  | CheckpointTipUpdate checkpoint_tip
  | EePredicateKeyUpdate u32 predicate_key
  | CheckpointPredicateEnacted predicate_key
  | AsmStfUpdate predicate_key
  | NewExportEntry u8 buf32
  | ExportExtraDataUpdate u8 bytes

definition asm_log_type_id :: "asm_log \<Rightarrow> u16" where
  "asm_log_type_id l =
     (case l of DepositLog _ _ \<Rightarrow> 1 | CheckpointTipUpdate _ \<Rightarrow> 3 | EePredicateKeyUpdate _ _ \<Rightarrow> 4
      | CheckpointPredicateEnacted _ \<Rightarrow> 5 | AsmStfUpdate _ \<Rightarrow> 11 | NewExportEntry _ _ \<Rightarrow> 12
      | ExportExtraDataUpdate _ _ \<Rightarrow> 13)"

definition extract_next_predicate_from_logs :: "asm_log list \<Rightarrow> predicate_key option" where
  "extract_next_predicate_from_logs logs =
     (case List.map_filter (\<lambda>l. case l of AsmStfUpdate p \<Rightarrow> Some p | _ \<Rightarrow> None) logs of
        [] \<Rightarrow> None
      | p # _ \<Rightarrow> Some p)"

record relayer =
  rl_msgs :: "interproto_msg list"
  rl_logs :: "asm_log list"

definition relay_msg :: "interproto_msg \<Rightarrow> relayer \<Rightarrow> relayer" where
  "relay_msg m r = r\<lparr>rl_msgs := rl_msgs r @ [m]\<rparr>"

definition emit_log :: "asm_log \<Rightarrow> relayer \<Rightarrow> relayer" where
  "emit_log l r = r\<lparr>rl_logs := rl_logs r @ [l]\<rparr>"

section \<open>Requests for auxiliary data\<close>

record manifest_hash_range =
  mhr_start :: u64
  mhr_end :: u64

record aux_requests =
  ar_manifest_hashes :: "manifest_hash_range list"
  ar_bitcoin_txs :: "txid list"

record aux_request_collector =
  arc_requests :: aux_requests
  arc_max_resolvable_manifest_height :: u64

definition arc_new :: "u64 \<Rightarrow> aux_request_collector" where
  "arc_new bound = \<lparr>arc_requests = \<lparr>ar_manifest_hashes = [], ar_bitcoin_txs = []\<rparr>,
                    arc_max_resolvable_manifest_height = bound\<rparr>"

definition request_manifest_hashes :: "u64 \<Rightarrow> u64 \<Rightarrow> aux_request_collector \<Rightarrow> aux_request_collector" where
  "request_manifest_hashes start_height end_height c =
     (if end_height < start_height \<or> arc_max_resolvable_manifest_height c < end_height then c
      else c\<lparr>arc_requests := (arc_requests c)\<lparr>ar_manifest_hashes :=
               ar_manifest_hashes (arc_requests c) @ [\<lparr>mhr_start = start_height, mhr_end = end_height\<rparr>]\<rparr>\<rparr>)"

definition request_bitcoin_tx :: "txid \<Rightarrow> aux_request_collector \<Rightarrow> aux_request_collector" where
  "request_bitcoin_tx tid c =
     c\<lparr>arc_requests := (arc_requests c)\<lparr>ar_bitcoin_txs := ar_bitcoin_txs (arc_requests c) @ [tid]\<rparr>\<rparr>"

section \<open>Verified auxiliary data\<close>

datatype aux_error =
    InvalidMmrProof u64 manifest_hash
  | InvalidBitcoinTx nat string
  | BitcoinTxNotFound txid
  | BitcoinTxOutNotFound txid u32
  | ManifestHashNotFound u64
  | InvertedManifestRange u64 u64

record mmr_proof =
  mp_index :: u64
  mp_cohashes :: "buf32 list"

record 'm mmr_env =
  mmr_new_repeated :: "buf32 \<Rightarrow> u64 \<Rightarrow> 'm"
  mmr_num_entries :: "'m \<Rightarrow> u64"
  mmr_verify :: "'m \<Rightarrow> mmr_proof \<Rightarrow> buf32 \<Rightarrow> bool"
  mmr_add_leaf :: "'m \<Rightarrow> buf32 \<Rightarrow> (string, 'm) result"
  mmr_prefill_leaf :: buf32
  tx_deserialize :: "bytes \<Rightarrow> (string, transaction) result"
  compute_txid :: "transaction \<Rightarrow> txid"

record aux_data =
  ad_manifest_hashes :: "(manifest_hash \<times> mmr_proof) list"
  ad_bitcoin_txs :: "bytes list"

record verified_aux_data =
  vad_txs :: "txid \<rightharpoonup> transaction"
  vad_manifest_hashes :: "u64 \<rightharpoonup> manifest_hash"

definition mmr_new :: "('m, 'z) mmr_env_scheme \<Rightarrow> u64 \<Rightarrow> 'm" where
  "mmr_new env genesis_height = mmr_new_repeated env (mmr_prefill_leaf env) (genesis_height + 1)"

definition last_inserted_height :: "('m, 'z) mmr_env_scheme \<Rightarrow> 'm \<Rightarrow> u64" where
  "last_inserted_height env m = mmr_num_entries env m - 1"

fun index_bitcoin_txs ::
  "('m, 'z) mmr_env_scheme \<Rightarrow> nat \<Rightarrow> bytes list \<Rightarrow> (txid \<rightharpoonup> transaction)
     \<Rightarrow> (aux_error, txid \<rightharpoonup> transaction) result" where
  "index_bitcoin_txs env i [] txs = Ok txs"
| "index_bitcoin_txs env i (raw # rest) txs =
     (case tx_deserialize env raw of
        Err e \<Rightarrow> Err (InvalidBitcoinTx i e)
      | Ok tx \<Rightarrow> index_bitcoin_txs env (Suc i) rest (txs(compute_txid env tx \<mapsto> tx)))"

fun index_manifest_hashes ::
  "('m, 'z) mmr_env_scheme \<Rightarrow> 'm \<Rightarrow> (manifest_hash \<times> mmr_proof) list \<Rightarrow> (u64 \<rightharpoonup> manifest_hash)
     \<Rightarrow> (aux_error, u64 \<rightharpoonup> manifest_hash) result" where
  "index_manifest_hashes env m [] hs = Ok hs"
| "index_manifest_hashes env m ((h, pf) # rest) hs =
     (if mmr_verify env m pf h then index_manifest_hashes env m rest (hs(mp_index pf \<mapsto> h))
      else Err (InvalidMmrProof (mp_index pf) h))"

definition aux_try_new ::
  "('m, 'z) mmr_env_scheme \<Rightarrow> aux_data \<Rightarrow> 'm \<Rightarrow> (aux_error, verified_aux_data) result" where
  "aux_try_new env data m =
     res_bind (index_bitcoin_txs env 0 (ad_bitcoin_txs data) Map.empty) (\<lambda>txs.
     res_bind (index_manifest_hashes env m (ad_manifest_hashes data) Map.empty) (\<lambda>hs.
       Ok \<lparr>vad_txs = txs, vad_manifest_hashes = hs\<rparr>))"

definition get_bitcoin_tx :: "verified_aux_data \<Rightarrow> txid \<Rightarrow> (aux_error, transaction) result" where
  "get_bitcoin_tx aux tid = ok_or (BitcoinTxNotFound tid) (vad_txs aux tid)"

definition get_bitcoin_txout :: "verified_aux_data \<Rightarrow> outpoint \<Rightarrow> (aux_error, txout) result" where
  "get_bitcoin_txout aux op =
     res_bind (get_bitcoin_tx aux (op_txid op)) (\<lambda>tx.
       ok_or (BitcoinTxOutNotFound (op_txid op) (op_vout op)) (slice_get (tx_output tx) (unat (op_vout op))))"

definition get_manifest_hash :: "verified_aux_data \<Rightarrow> u64 \<Rightarrow> (aux_error, manifest_hash) result" where
  "get_manifest_hash aux height = ok_or (ManifestHashNotFound height) (vad_manifest_hashes aux height)"

fun collect_results :: "('e, 'a) result list \<Rightarrow> ('e, 'a list) result" where
  "collect_results [] = Ok []"
| "collect_results (r # rs) = res_bind r (\<lambda>a. res_bind (collect_results rs) (\<lambda>as. Ok (a # as)))"

definition height_range :: "u64 \<Rightarrow> u64 \<Rightarrow> u64 list" where
  "height_range start end_h = map of_nat [unat start..<Suc (unat end_h)]"

definition get_manifest_hashes ::
  "verified_aux_data \<Rightarrow> u64 \<Rightarrow> u64 \<Rightarrow> (aux_error, manifest_hash list) result" where
  "get_manifest_hashes aux start end_h =
     (if end_h < start then Err (InvertedManifestRange start end_h)
      else collect_results (map (get_manifest_hash aux) (height_range start end_h)))"

section \<open>Laws\<close>

lemma relay_simps [simp]:
  "rl_msgs (relay_msg m r) = rl_msgs r @ [m]" "rl_logs (relay_msg m r) = rl_logs r"
  "rl_msgs (emit_log l r) = rl_msgs r" "rl_logs (emit_log l r) = rl_logs r @ [l]"
  by (simp_all add: relay_msg_def emit_log_def)

lemma request_simps [simp]:
  "ar_bitcoin_txs (arc_requests (request_bitcoin_tx i c)) = ar_bitcoin_txs (arc_requests c) @ [i]"
  "ar_manifest_hashes (arc_requests (request_bitcoin_tx i c)) = ar_manifest_hashes (arc_requests c)"
  "arc_max_resolvable_manifest_height (request_bitcoin_tx i c) = arc_max_resolvable_manifest_height c"
  "ar_bitcoin_txs (arc_requests (request_manifest_hashes a b c)) = ar_bitcoin_txs (arc_requests c)"
  "arc_max_resolvable_manifest_height (request_manifest_hashes a b c) = arc_max_resolvable_manifest_height c"
  by (simp_all add: request_bitcoin_tx_def request_manifest_hashes_def)

lemma request_manifest_hashes_set:
  "set (ar_manifest_hashes (arc_requests (request_manifest_hashes a b c))) =
     set (ar_manifest_hashes (arc_requests c))
     \<union> (if a \<le> b \<and> b \<le> arc_max_resolvable_manifest_height c then {\<lparr>mhr_start = a, mhr_end = b\<rparr>} else {})"
  by (auto simp: request_manifest_hashes_def not_le)

lemma collect_results_Ok_iff: "(\<exists>as. collect_results rs = Ok as) \<longleftrightarrow> (\<forall>r\<in>set rs. is_ok r)"
proof (induction rs)
  case (Cons r rs)
  then show ?case by (cases r; cases "collect_results rs") auto
qed simp

lemma collect_results_Ok: "collect_results rs = Ok as \<Longrightarrow> rs = map Ok as"
proof (induction rs arbitrary: as)
  case (Cons r rs)
  then show ?case by (cases r; cases "collect_results rs") auto
qed simp

lemma height_range_set: "set (height_range a b) = {h. a \<le> h \<and> h \<le> b}"
proof
  show "set (height_range a b) \<subseteq> {h. a \<le> h \<and> h \<le> b}"
  proof
    fix h assume "h \<in> set (height_range a b)"
    then obtain n where n: "h = of_nat n" "unat a \<le> n" "n \<le> unat b" by (auto simp: height_range_def)
    have "n < 2 ^ 64" using n(3) unat_u64_lt [of b] by simp
    then have "unat h = n" using n(1) by (simp add: unat_of_nat)
    then show "h \<in> {h. a \<le> h \<and> h \<le> b}" using n by (simp add: word_le_nat_alt)
  qed
next
  show "{h. a \<le> h \<and> h \<le> b} \<subseteq> set (height_range a b)"
  proof
    fix h assume "h \<in> {h. a \<le> h \<and> h \<le> b}"
    then have "unat h \<in> set [unat a..<Suc (unat b)]" by (auto simp: word_le_nat_alt)
    then have "of_nat (unat h) \<in> set (height_range a b)" unfolding height_range_def set_map by (rule imageI)
    then show "h \<in> set (height_range a b)" by simp
  qed
qed

lemma get_manifest_hashes_ok:
  assumes "a \<le> b" and "\<forall>h. a \<le> h \<and> h \<le> b \<longrightarrow> vad_manifest_hashes aux h \<noteq> None"
  shows "\<exists>hs. get_manifest_hashes aux a b = Ok hs"
proof -
  have "is_ok (get_manifest_hash aux h)" if "h \<in> set (height_range a b)" for h
    using that assms(2) by (auto simp: height_range_set get_manifest_hash_def ok_or_def)
  then have "\<forall>r\<in>set (map (get_manifest_hash aux) (height_range a b)). is_ok r" by auto
  then have "\<exists>hs. collect_results (map (get_manifest_hash aux) (height_range a b)) = Ok hs"
    by (simp only: collect_results_Ok_iff)
  then show ?thesis using assms(1) by (simp add: get_manifest_hashes_def)
qed

lemma index_bitcoin_txs_Ok:
  "index_bitcoin_txs env i raws txs = Ok res \<Longrightarrow> res t = Some tx \<Longrightarrow>
     txs t = Some tx \<or> compute_txid env tx = t \<and> (\<exists>raw\<in>set raws. tx_deserialize env raw = Ok tx)"
proof (induction env i raws txs rule: index_bitcoin_txs.induct)
  case (2 env i raw rest txs)
  then obtain tx' where "tx_deserialize env raw = Ok tx'" by (auto split: sum.splits)
  then show ?case using 2(1) [of tx'] 2(2,3) by (auto simp del: fun_upd_apply)
       (auto split: if_splits)
qed simp

lemma index_manifest_hashes_Ok:
  "index_manifest_hashes env m items hs = Ok res \<Longrightarrow> res k = Some h \<Longrightarrow>
     hs k = Some h \<or> (\<exists>pf. (h, pf) \<in> set items \<and> mp_index pf = k \<and> mmr_verify env m pf h)"
proof (induction env m items hs rule: index_manifest_hashes.induct)
  case (2 env m h' pf rest hs)
  then have v: "mmr_verify env m pf h'" and r: "index_manifest_hashes env m rest (hs(mp_index pf \<mapsto> h')) = Ok res"
    by (simp_all split: if_splits)
  from 2(1) [OF v r 2(3)] show ?case using v by (auto split: if_splits)
qed simp

section \<open>Properties\<close>

text \<open>C25: auxiliary data is checked before anything can read it.  Whatever a lookup in successfully
  constructed data returns was verified: a transaction decoded from a supplied raw transaction and
  has the identifier it is looked up by, an output is the one at its position in such a
  transaction, and a manifest hash came with an MMR proof for exactly the height it is looked up
  by; a range lookup returns one verified hash per height, in order.\<close>
theorem verified_aux_data_is_verified:
  assumes "aux_try_new env data m = Ok aux"
  shows "(get_bitcoin_tx aux t = Ok tx \<longrightarrow>
        compute_txid env tx = t \<and> (\<exists>raw\<in>set (ad_bitcoin_txs data). tx_deserialize env raw = Ok tx))
    \<and> (get_bitcoin_txout aux op = Ok out \<longrightarrow>
        (\<exists>tx. compute_txid env tx = op_txid op \<and> unat (op_vout op) < length (tx_output tx)
           \<and> out = tx_output tx ! unat (op_vout op)))
    \<and> (get_manifest_hash aux h = Ok x \<longrightarrow>
        (\<exists>pf. (x, pf) \<in> set (ad_manifest_hashes data) \<and> mp_index pf = h \<and> mmr_verify env m pf x))
    \<and> (get_manifest_hashes aux a b = Ok xs \<longrightarrow>
        a \<le> b \<and> map (get_manifest_hash aux) (height_range a b) = map Ok xs)"
proof -
  obtain txs hs where i: "index_bitcoin_txs env 0 (ad_bitcoin_txs data) Map.empty = Ok txs"
    "index_manifest_hashes env m (ad_manifest_hashes data) Map.empty = Ok hs"
    "vad_txs aux = txs" "vad_manifest_hashes aux = hs"
    using assms by (auto simp: aux_try_new_def res_bind_eq_Ok)
  have tx: "compute_txid env tx = t \<and> (\<exists>raw\<in>set (ad_bitcoin_txs data). tx_deserialize env raw = Ok tx)"
    if "get_bitcoin_tx aux t = Ok tx" for t tx
    using index_bitcoin_txs_Ok [OF i(1), of t tx] that i(3)
    by (auto simp: get_bitcoin_tx_def ok_or_def split: option.splits)
  have out: "\<exists>tx. compute_txid env tx = op_txid op \<and> unat (op_vout op) < length (tx_output tx)
      \<and> out = tx_output tx ! unat (op_vout op)" if "get_bitcoin_txout aux op = Ok out"
    using that tx by (auto simp: get_bitcoin_txout_def res_bind_eq_Ok ok_or_def slice_get_def
        split: option.splits if_splits)
  have mh: "\<exists>pf. (x, pf) \<in> set (ad_manifest_hashes data) \<and> mp_index pf = h \<and> mmr_verify env m pf x"
    if "get_manifest_hash aux h = Ok x"
    using index_manifest_hashes_Ok [OF i(2), of h x] that i(4)
    by (auto simp: get_manifest_hash_def ok_or_def split: option.splits)
  have "a \<le> b \<and> map (get_manifest_hash aux) (height_range a b) = map Ok xs"
    if "get_manifest_hashes aux a b = Ok xs"
    using that collect_results_Ok by (auto simp: get_manifest_hashes_def split: if_splits)
  then show ?thesis using tx out mh by blast
qed

definition sample_mmr_env :: "buf32 list mmr_env" where
  "sample_mmr_env =
     \<lparr>mmr_new_repeated = (\<lambda>x n. replicate (unat n) x), mmr_num_entries = (\<lambda>m. of_nat (length m)),
      mmr_verify = (\<lambda>m pf x. slice_get m (unat (mp_index pf)) = Some x),
      mmr_add_leaf = (\<lambda>m x. Ok (m @ [x])), mmr_prefill_leaf = [0],
      tx_deserialize = (\<lambda>raw. Ok \<lparr>tx_input = [], tx_output = [\<lparr>to_value = 5, to_script_pubkey = raw\<rparr>]\<rparr>),
      compute_txid = (\<lambda>tx. concat (map to_script_pubkey (tx_output tx)))\<rparr>"

theorem verified_aux_data_is_verified_witness:
  "\<exists>aux pf. aux_try_new sample_mmr_env
      \<lparr>ad_manifest_hashes = [([8], \<lparr>mp_index = 1, mp_cohashes = []\<rparr>)], ad_bitcoin_txs = [[3, 4]]\<rparr> [[0], [8]] = Ok aux
    \<and> get_manifest_hash aux 1 = Ok [8] \<and> mp_index pf = 1 \<and> mmr_verify sample_mmr_env [[0], [8]] pf [8]"
proof -
  let ?d = "\<lparr>ad_manifest_hashes = [([8], \<lparr>mp_index = 1, mp_cohashes = []\<rparr>)], ad_bitcoin_txs = [[3, 4]]\<rparr>"
  obtain aux where aux: "aux_try_new sample_mmr_env ?d [[0], [8]] = Ok aux" "get_manifest_hash aux 1 = Ok [8]"
    by (simp add: aux_try_new_def sample_mmr_env_def slice_get_def get_manifest_hash_def)
  show ?thesis
    using verified_aux_data_is_verified [OF aux(1), where h = 1 and x = "[8]"] aux by blast
qed

end
