(* ===== verification/Header_Verification.thy ===== *)
theory Header_Verification
  imports Bitcoin_Types
begin

text \<open>
  Bitcoin header verification, \<open>crates/btc-verification/src\<close>: the ring buffer of block timestamps
  (\<open>timestamp_store.rs\<close>), the header verification state and its update
  (\<open>header_verification.rs\<close>), and its storage form (\<open>ssz_delegate.rs\<close>).
  Target arithmetic, work arithmetic, encodings and the hash function are library code, given by
  the fields of \<open>btc_env\<close>; the consensus parameters are a function of the network.
\<close>

datatype network = Bitcoin | Testnet | Signet | Regtest | OtherNetwork

record header =
  hd_prev_blockhash :: block_id
  hd_merkle_root :: buf32
  hd_time :: u32
  hd_bits :: u32
  hd_version :: u32
  hd_nonce :: u32

type_synonym btc_work = "256 word"

record btc_env =
  sha256d :: "bytes \<Rightarrow> buf32"
  header_encode :: "header \<Rightarrow> bytes"
  difficulty_adjustment_interval :: "network \<Rightarrow> u64"
  from_next_work_required :: "u32 \<Rightarrow> u64 \<Rightarrow> network \<Rightarrow> u32"
  target_is_met_by :: "u32 \<Rightarrow> block_id \<Rightarrow> bool"
  header_work :: "u32 \<Rightarrow> btc_work"
  work_add :: "btc_work \<Rightarrow> btc_work \<Rightarrow> btc_work"
  work_to_le_bytes :: "btc_work \<Rightarrow> bytes"

definition compute_block_hash :: "'e btc_env_scheme \<Rightarrow> header \<Rightarrow> block_id" where
  "compute_block_hash env h = sha256d env (header_encode env h)"

section \<open>Timestamp store\<close>

definition timestamps_for_median :: nat where "timestamps_for_median = 11"
definition median_timestamp_index :: nat where "median_timestamp_index = timestamps_for_median div 2"

record timestamp_store =
  ts_buffer :: "u32 list"
  ts_head :: nat

definition ts_default :: timestamp_store where
  "ts_default = \<lparr>ts_buffer = replicate timestamps_for_median 0, ts_head = 0\<rparr>"

definition ts_new :: "u32 list \<Rightarrow> timestamp_store" where
  "ts_new initial_timestamps = \<lparr>ts_buffer = initial_timestamps, ts_head = 0\<rparr>"

definition ts_from_parts :: "u32 list \<Rightarrow> nat \<Rightarrow> timestamp_store option" where
  "ts_from_parts buffer head =
     (if head < timestamps_for_median then Some \<lparr>ts_buffer = buffer, ts_head = head\<rparr> else None)"

definition ts_insert :: "u32 \<Rightarrow> timestamp_store \<Rightarrow> timestamp_store" where
  "ts_insert timestamp s =
     \<lparr>ts_buffer = (ts_buffer s)[ts_head s := timestamp],
      ts_head = (ts_head s + 1) mod timestamps_for_median\<rparr>"

definition ts_median :: "timestamp_store \<Rightarrow> u32" where
  "ts_median s = sort (ts_buffer s) ! median_timestamp_index"

section \<open>Header verification state\<close>

record header_verification_state =
  hvs_network :: network
  hvs_last_verified_block :: l1_block_commitment
  hvs_next_block_target :: u32
  hvs_epoch_start_timestamp :: u32
  hvs_block_timestamp_history :: timestamp_store
  hvs_total_accumulated_pow :: btc_work

record l1_anchor =
  la_block :: l1_block_commitment
  la_next_target :: u32
  la_epoch_start_timestamp :: u32
  la_network :: network

datatype l1_verification_error =
    ContinuityError block_id block_id
  | PowMismatch u32 u32
  | PowNotMet block_id u32
  | TimestampError u32 u32

definition hvs_new :: "l1_anchor \<Rightarrow> timestamp_store \<Rightarrow> btc_work \<Rightarrow> header_verification_state" where
  "hvs_new anchor history pow =
     \<lparr>hvs_network = la_network anchor, hvs_last_verified_block = la_block anchor,
      hvs_next_block_target = la_next_target anchor,
      hvs_epoch_start_timestamp = la_epoch_start_timestamp anchor,
      hvs_block_timestamp_history = history, hvs_total_accumulated_pow = pow\<rparr>"

definition hvs_init :: "l1_anchor \<Rightarrow> header_verification_state" where
  "hvs_init anchor = hvs_new anchor ts_default 0"

definition is_multiple_of :: "u32 \<Rightarrow> u32 \<Rightarrow> bool" where
  "is_multiple_of a b \<longleftrightarrow> a mod b = 0"

definition adjustment_interval :: "'e btc_env_scheme \<Rightarrow> header_verification_state \<Rightarrow> u32" where
  "adjustment_interval env s = ucast (difficulty_adjustment_interval env (hvs_network s))"

definition next_target :: "'e btc_env_scheme \<Rightarrow> header \<Rightarrow> header_verification_state \<Rightarrow> u32" where
  "next_target env h s =
     (let next_height = l1_block_height (hvs_last_verified_block s) + 1 in
      if \<not> is_multiple_of next_height (adjustment_interval env s) then hvs_next_block_target s
      else
        let timespan = ucast (saturating_sub (hd_time h) (hvs_epoch_start_timestamp s))
        in from_next_work_required env (hd_bits h) timespan (hvs_network s))"

definition update_timestamps ::
  "'e btc_env_scheme \<Rightarrow> u32 \<Rightarrow> header_verification_state \<Rightarrow> header_verification_state" where
  "update_timestamps env timestamp s =
     (let s1 = s\<lparr>hvs_block_timestamp_history := ts_insert timestamp (hvs_block_timestamp_history s)\<rparr>;
          new_block_num = l1_block_height (hvs_last_verified_block s1)
      in if is_multiple_of new_block_num (adjustment_interval env s1)
         then s1\<lparr>hvs_epoch_start_timestamp := timestamp\<rparr> else s1)"

definition check_and_update ::
  "'e btc_env_scheme \<Rightarrow> header \<Rightarrow> header_verification_state
     \<Rightarrow> (l1_verification_error, header_verification_state) result" where
  "check_and_update env h s =
     (let tip = l1_block_blkid (hvs_last_verified_block s);
          median = ts_median (hvs_block_timestamp_history s);
          block_hash = compute_block_hash env h in
      if hd_prev_blockhash h \<noteq> tip then Err (ContinuityError tip (hd_prev_blockhash h))
      else if hd_bits h \<noteq> hvs_next_block_target s
      then Err (PowMismatch (hvs_next_block_target s) (hd_bits h))
      else if hd_time h \<le> median then Err (TimestampError (hd_time h) median)
      else if \<not> target_is_met_by env (hd_bits h) block_hash then Err (PowNotMet block_hash (hd_bits h))
      else
        let next_height = l1_block_height (hvs_last_verified_block s) + 1;
            s1 = s\<lparr>hvs_last_verified_block := \<lparr>l1_block_height = next_height, l1_block_blkid = block_hash\<rparr>\<rparr>;
            s2 = update_timestamps env (hd_time h) s1;
            s3 = s2\<lparr>hvs_next_block_target := next_target env h s2\<rparr>
        in Ok (s3\<lparr>hvs_total_accumulated_pow :=
                   work_add env (hvs_total_accumulated_pow s3) (header_work env (hd_bits h))\<rparr>))"

definition get_relative_difficulty_adjustment_height ::
  "'e btc_env_scheme \<Rightarrow> u64 \<Rightarrow> l1_height \<Rightarrow> network \<Rightarrow> l1_height" where
  "get_relative_difficulty_adjustment_height env idx start net =
     (let interval = ucast (difficulty_adjustment_interval env net)
      in (start div interval + ucast idx) * interval)"

section \<open>Storage form\<close>

definition network_to_id :: "network \<Rightarrow> u8 option" where
  "network_to_id n =
     (case n of Bitcoin \<Rightarrow> Some 0 | Testnet \<Rightarrow> Some 1 | Signet \<Rightarrow> Some 2 | Regtest \<Rightarrow> Some 3
      | OtherNetwork \<Rightarrow> None)"

definition network_from_id :: "u8 \<Rightarrow> (string, network) result" where
  "network_from_id i =
     (if i = 0 then Ok Bitcoin else if i = 1 then Ok Testnet else if i = 2 then Ok Signet
      else if i = 3 then Ok Regtest else Err ''unsupported Bitcoin network id'')"

record header_verification_state_ssz =
  hvz_network :: u8
  hvz_last_verified_block :: l1_block_commitment
  hvz_next_block_target :: u32
  hvz_epoch_start_timestamp :: u32
  hvz_buffer :: "u32 list"
  hvz_head :: u8
  hvz_total_accumulated_pow :: btc_work

definition into_delegate :: "header_verification_state \<Rightarrow> header_verification_state_ssz option" where
  "into_delegate s =
     do {
       n \<leftarrow> network_to_id (hvs_network s);
       head \<leftarrow> (if ts_head (hvs_block_timestamp_history s) < 256
                then Some (of_nat (ts_head (hvs_block_timestamp_history s))) else None);
       Some \<lparr>hvz_network = n, hvz_last_verified_block = hvs_last_verified_block s,
             hvz_next_block_target = hvs_next_block_target s,
             hvz_epoch_start_timestamp = hvs_epoch_start_timestamp s,
             hvz_buffer = ts_buffer (hvs_block_timestamp_history s), hvz_head = head,
             hvz_total_accumulated_pow = hvs_total_accumulated_pow s\<rparr>
     }"

definition from_delegate ::
  "header_verification_state_ssz \<Rightarrow> (string, header_verification_state) result option" where
  "from_delegate z =
     (case network_from_id (hvz_network z) of
        Err e \<Rightarrow> Some (Err e)
      | Ok n \<Rightarrow>
          if timestamps_for_median \<le> unat (hvz_head z)
          then Some (Err ''timestamp store head out of bounds'')
          else if length (hvz_buffer z) \<noteq> timestamps_for_median then None
          else do {
            history \<leftarrow> ts_from_parts (hvz_buffer z) (unat (hvz_head z));
            Some (Ok \<lparr>hvs_network = n, hvs_last_verified_block = hvz_last_verified_block z,
                      hvs_next_block_target = hvz_next_block_target z,
                      hvs_epoch_start_timestamp = hvz_epoch_start_timestamp z,
                      hvs_block_timestamp_history = history,
                      hvs_total_accumulated_pow = hvz_total_accumulated_pow z\<rparr>)
          })"

section \<open>The store is a sliding window\<close>

definition ts_ok :: "timestamp_store \<Rightarrow> bool" where
  "ts_ok s \<longleftrightarrow> length (ts_buffer s) = timestamps_for_median \<and> ts_head s < timestamps_for_median"

definition ts_window :: "timestamp_store \<Rightarrow> u32 list" where
  "ts_window s = drop (ts_head s) (ts_buffer s) @ take (ts_head s) (ts_buffer s)"

lemma ts_default_ok: "ts_ok ts_default"
  by (simp add: ts_ok_def ts_default_def timestamps_for_median_def)

lemma ts_insert_ok: "ts_ok s \<Longrightarrow> ts_ok (ts_insert t s)"
  by (simp add: ts_ok_def ts_insert_def timestamps_for_median_def)

lemma ts_window_length: "ts_ok s \<Longrightarrow> length (ts_window s) = timestamps_for_median"
  by (simp add: ts_ok_def ts_window_def)

lemma ts_window_mset: "mset (ts_window s) = mset (ts_buffer s)"
  unfolding ts_window_def mset_append by (metis add.commute append_take_drop_id mset_append)

lemma ts_insert_window:
  assumes "ts_ok s"
  shows "ts_window (ts_insert t s) = tl (ts_window s) @ [t]"
proof -
  let ?b = "ts_buffer s" and ?h = "ts_head s"
  have h: "?h < length ?b" using assms by (simp add: ts_ok_def)
  have upd: "?b[?h := t] = take ?h ?b @ t # drop (Suc ?h) ?b" using h by (rule upd_conv_take_nth_drop)
  have old: "drop ?h ?b = ?b ! ?h # drop (Suc ?h) ?b" using h by (simp add: Cons_nth_drop_Suc)
  show ?thesis
  proof (cases "Suc ?h = timestamps_for_median")
    case True
    then have "drop (Suc ?h) ?b = []" using assms by (simp add: ts_ok_def)
    then show ?thesis using True upd old by (simp add: ts_window_def ts_insert_def)
  next
    case False
    then have "Suc ?h mod timestamps_for_median = Suc ?h" using assms by (simp add: ts_ok_def)
    moreover have "drop (Suc ?h) (?b[?h := t]) = drop (Suc ?h) ?b" by simp
    moreover have "take (Suc ?h) (?b[?h := t]) = take ?h ?b @ [t]"
      using h upd by (simp add: take_Suc_conv_app_nth)
    ultimately show ?thesis using old by (simp add: ts_window_def ts_insert_def)
  qed
qed

lemma sorted_count_le: "sorted xs \<Longrightarrow> i < length xs \<Longrightarrow> Suc i \<le> length (filter (\<lambda>x. x \<le> xs ! i) xs)"
proof -
  assume a: "sorted xs" "i < length xs"
  have "filter (\<lambda>x. x \<le> xs ! i) (take (Suc i) xs) = take (Suc i) xs"
  proof (rule filter_True, rule ballI)
    fix x assume "x \<in> set (take (Suc i) xs)"
    then obtain j where "j < Suc i" "j < length xs" "x = xs ! j" by (auto simp: in_set_conv_nth)
    then show "x \<le> xs ! i" using sorted_nth_mono [OF a(1)] a(2) by simp
  qed
  moreover have "length (filter P (take (Suc i) xs)) \<le> length (filter P xs)" for P
    by (subst (2) append_take_drop_id [of "Suc i" xs, symmetric], subst filter_append) simp
  ultimately show ?thesis using a(2) by (metis Suc_leI length_take min.absorb2)
qed

lemma sorted_count_ge: "sorted xs \<Longrightarrow> i < length xs \<Longrightarrow> length xs - i \<le> length (filter (\<lambda>x. xs ! i \<le> x) xs)"
proof -
  assume a: "sorted xs" "i < length xs"
  have "filter (\<lambda>x. xs ! i \<le> x) (drop i xs) = drop i xs"
  proof (rule filter_True, rule ballI)
    fix x assume "x \<in> set (drop i xs)"
    then obtain j where "j < length xs - i" "x = xs ! (i + j)" by (auto simp: in_set_conv_nth)
    then show "xs ! i \<le> x" using sorted_nth_mono [OF a(1)] by simp
  qed
  moreover have "length (filter P (drop i xs)) \<le> length (filter P xs)" for P
    by (subst (2) append_take_drop_id [of i xs, symmetric], subst filter_append) simp
  ultimately show ?thesis by (metis length_drop)
qed

lemma filter_length_mset: "mset xs = mset ys \<Longrightarrow> length (filter P xs) = length (filter P ys)"
  by (metis mset_filter size_mset)

lemma ts_median_window:
  assumes "ts_ok s"
  shows "ts_median s \<in> set (ts_window s)
    \<and> 6 \<le> length (filter (\<lambda>t. t \<le> ts_median s) (ts_window s))
    \<and> 6 \<le> length (filter (\<lambda>t. ts_median s \<le> t) (ts_window s))"
proof -
  let ?s = "sort (ts_buffer s)"
  have len: "length ?s = 11" using assms by (simp add: ts_ok_def timestamps_for_median_def)
  have m: "ts_median s = ?s ! 5" by (simp add: ts_median_def median_timestamp_index_def timestamps_for_median_def)
  have ms: "mset ?s = mset (ts_window s)" by (simp add: ts_window_mset)
  have "?s ! 5 \<in> set ?s" using len by (intro nth_mem) simp
  then have "ts_median s \<in> set (ts_window s)" using m arg_cong [OF ms, of set_mset] by simp
  then show ?thesis
    using sorted_count_le [of ?s 5] sorted_count_ge [of ?s 5] len m
      filter_length_mset [OF ms, of "\<lambda>t. t \<le> ts_median s"]
      filter_length_mset [OF ms, of "\<lambda>t. ts_median s \<le> t"] by simp
qed

section \<open>Chains of headers\<close>

fun verify_headers ::
  "'e btc_env_scheme \<Rightarrow> header list \<Rightarrow> header_verification_state
     \<Rightarrow> (l1_verification_error, header_verification_state) result" where
  "verify_headers env [] s = Ok s"
| "verify_headers env (h # hs) s = res_bind (check_and_update env h s) (verify_headers env hs)"

fun epoch_start :: "u32 \<Rightarrow> u32 \<Rightarrow> u32 \<Rightarrow> header list \<Rightarrow> u32" where
  "epoch_start interval height t [] = t"
| "epoch_start interval height t (h # hs) =
     epoch_start interval (height + 1) (if is_multiple_of (height + 1) interval then hd_time h else t) hs"

lemma check_and_update_OkD:
  assumes "check_and_update env h s = Ok s'"
  shows "hd_prev_blockhash h = l1_block_blkid (hvs_last_verified_block s)"
    and "hd_bits h = hvs_next_block_target s"
    and "ts_median (hvs_block_timestamp_history s) < hd_time h"
    and "target_is_met_by env (hd_bits h) (compute_block_hash env h)"
    and "hvs_last_verified_block s' =
      \<lparr>l1_block_height = l1_block_height (hvs_last_verified_block s) + 1, l1_block_blkid = compute_block_hash env h\<rparr>"
    and "hvs_block_timestamp_history s' = ts_insert (hd_time h) (hvs_block_timestamp_history s)"
    and "hvs_network s' = hvs_network s"
    and "hvs_epoch_start_timestamp s' =
      (if is_multiple_of (l1_block_height (hvs_last_verified_block s) + 1) (adjustment_interval env s)
       then hd_time h else hvs_epoch_start_timestamp s)"
    and "hvs_next_block_target s' =
      (if is_multiple_of (l1_block_height (hvs_last_verified_block s) + 1 + 1) (adjustment_interval env s)
       then from_next_work_required env (hd_bits h)
         (ucast (saturating_sub (hd_time h) (hvs_epoch_start_timestamp s'))) (hvs_network s)
       else hvs_next_block_target s)"
    and "hvs_total_accumulated_pow s' = work_add env (hvs_total_accumulated_pow s) (header_work env (hd_bits h))"
  using assms
  by (auto simp: check_and_update_def Let_def update_timestamps_def next_target_def adjustment_interval_def
      not_le split: if_splits)

lemma adjustment_interval_cong: "hvs_network s' = hvs_network s \<Longrightarrow> adjustment_interval env s' = adjustment_interval env s"
  by (simp add: adjustment_interval_def)

text \<open>The rules of the chain, in terms of the headers accepted before and of the state they were accepted on:
  the tip, the eleven latest timestamps, and the target the next header has to carry.\<close>

definition chain_tip :: "'e btc_env_scheme \<Rightarrow> header_verification_state \<Rightarrow> header list \<Rightarrow> block_id" where
  "chain_tip env s hs = last (l1_block_blkid (hvs_last_verified_block s) # map (compute_block_hash env) hs)"

definition recent_times :: "header_verification_state \<Rightarrow> header list \<Rightarrow> u32 list" where
  "recent_times s hs = drop (length hs) (ts_window (hvs_block_timestamp_history s) @ map hd_time hs)"

definition required_target :: "'e btc_env_scheme \<Rightarrow> header_verification_state \<Rightarrow> header list \<Rightarrow> u32" where
  "required_target env s hs =
     (if hs = [] then hvs_next_block_target s
      else if is_multiple_of (l1_block_height (hvs_last_verified_block s) + of_nat (length hs) + 1) (adjustment_interval env s)
      then from_next_work_required env (hd_bits (last hs))
             (ucast (saturating_sub (hd_time (last hs))
                (epoch_start (adjustment_interval env s) (l1_block_height (hvs_last_verified_block s))
                   (hvs_epoch_start_timestamp s) hs))) (hvs_network s)
      else hd_bits (last hs))"

definition extends_chain :: "'e btc_env_scheme \<Rightarrow> header_verification_state \<Rightarrow> header list \<Rightarrow> header \<Rightarrow> bool" where
  "extends_chain env s hs h \<longleftrightarrow>
     hd_prev_blockhash h = chain_tip env s hs \<and> hd_bits h = required_target env s hs
   \<and> 6 \<le> length (filter (\<lambda>t. t < hd_time h) (recent_times s hs))
   \<and> target_is_met_by env (hd_bits h) (compute_block_hash env h)"

lemma median_below:
  assumes "ts_ok s"
  shows "ts_median s < t \<longleftrightarrow> 6 \<le> length (filter (\<lambda>x. x < t) (ts_window s))"
proof
  note M = ts_median_window [OF assms]
  have sub: "length (filter P xs) \<le> length (filter Q xs)" if "\<And>x. P x \<Longrightarrow> Q x" for P Q and xs :: "u32 list"
    using that by (induction xs) auto
  show "6 \<le> length (filter (\<lambda>x. x < t) (ts_window s))" if "ts_median s < t"
    using M sub [of "\<lambda>x. x \<le> ts_median s" "\<lambda>x. x < t" "ts_window s"] that by fastforce
  show "ts_median s < t" if six: "6 \<le> length (filter (\<lambda>x. x < t) (ts_window s))"
  proof (rule ccontr)
    assume "\<not> ts_median s < t"
    then have "length (filter (\<lambda>x. ts_median s \<le> x) (ts_window s)) \<le> length (filter (\<lambda>x. \<not> x < t) (ts_window s))"
      by (intro sub) auto
    then show False
      using six M ts_window_length [OF assms] sum_length_filter_compl [of "\<lambda>x. x < t" "ts_window s"]
      by (simp add: timestamps_for_median_def)
  qed
qed

lemma is_ok_check_and_update:
  "is_ok (check_and_update env h s) \<longleftrightarrow>
     hd_prev_blockhash h = l1_block_blkid (hvs_last_verified_block s) \<and> hd_bits h = hvs_next_block_target s
   \<and> ts_median (hvs_block_timestamp_history s) < hd_time h \<and> target_is_met_by env (hd_bits h) (compute_block_hash env h)"
  by (auto simp: check_and_update_def Let_def is_ok_def not_le)

lemma verify_headers_snoc:
  "verify_headers env (hs @ [h]) s = res_bind (verify_headers env hs s) (check_and_update env h)"
proof (induction hs arbitrary: s)
  case Nil
  show ?case by (cases "check_and_update env h s") simp_all
next
  case (Cons x hs)
  then show ?case by (cases "check_and_update env x s") simp_all
qed

lemma epoch_start_snoc:
  "epoch_start interval height t (hs @ [h]) =
     (if is_multiple_of (height + of_nat (length hs) + 1) interval then hd_time h else epoch_start interval height t hs)"
  by (induction hs arbitrary: height t) (simp_all add: ac_simps)

text \<open>The state after a chain of accepted headers.\<close>

definition chain_state ::
  "'e btc_env_scheme \<Rightarrow> header_verification_state \<Rightarrow> header list \<Rightarrow> header_verification_state \<Rightarrow> bool" where
  "chain_state env s hs s' \<longleftrightarrow>
     l1_block_height (hvs_last_verified_block s') = l1_block_height (hvs_last_verified_block s) + of_nat (length hs)
   \<and> l1_block_blkid (hvs_last_verified_block s') = chain_tip env s hs
   \<and> hvs_network s' = hvs_network s \<and> hvs_next_block_target s' = required_target env s hs
   \<and> ts_ok (hvs_block_timestamp_history s') \<and> ts_window (hvs_block_timestamp_history s') = recent_times s hs
   \<and> hvs_epoch_start_timestamp s' = epoch_start (adjustment_interval env s)
        (l1_block_height (hvs_last_verified_block s)) (hvs_epoch_start_timestamp s) hs
   \<and> hvs_total_accumulated_pow s' =
        foldl (\<lambda>w h. work_add env w (header_work env (hd_bits h))) (hvs_total_accumulated_pow s) hs"

lemma recent_times_snoc:
  assumes "ts_ok (hvs_block_timestamp_history s)"
  shows "recent_times s (hs @ [h]) = tl (recent_times s hs) @ [hd_time h]"
proof -
  let ?w = "ts_window (hvs_block_timestamp_history s)"
  have "length ?w = 11" using ts_window_length [OF assms] by (simp add: timestamps_for_median_def)
  then have len: "Suc (length hs) \<le> length (?w @ map hd_time hs)" by simp
  have "recent_times s (hs @ [h]) = drop (Suc (length hs)) ((?w @ map hd_time hs) @ [hd_time h])" by (simp add: recent_times_def)
  also have "\<dots> = drop (Suc (length hs)) (?w @ map hd_time hs) @ [hd_time h]"
    by (subst drop_append) (use len in simp)
  also have "drop (Suc (length hs)) (?w @ map hd_time hs) = tl (recent_times s hs)"
    unfolding recent_times_def by (simp only: tl_drop drop_Suc)
  finally show ?thesis .
qed

lemma chain_state_step:
  assumes S: "chain_state env s hs s1" and ok: "ts_ok (hvs_block_timestamp_history s)"
    and run: "check_and_update env h s1 = Ok s'"
  shows "chain_state env s (hs @ [h]) s'"
proof -
  note C = check_and_update_OkD [OF run]
  have S': "ts_ok (hvs_block_timestamp_history s1)" "adjustment_interval env s1 = adjustment_interval env s"
    using S adjustment_interval_cong [of s1 s env] by (simp_all add: chain_state_def)
  have bits: "hd_bits h = required_target env s hs" using C(2) S by (simp add: chain_state_def)
  have height: "l1_block_height (hvs_last_verified_block s1) + 1 = l1_block_height (hvs_last_verified_block s) + of_nat (length (hs @ [h]))"
    using S by (simp add: chain_state_def)
  have epoch: "hvs_epoch_start_timestamp s' = epoch_start (adjustment_interval env s)
        (l1_block_height (hvs_last_verified_block s)) (hvs_epoch_start_timestamp s) (hs @ [h])"
    using S C(8) by (simp add: chain_state_def epoch_start_snoc S'(2) add.assoc)
  have "hvs_next_block_target s' = required_target env s (hs @ [h])"
    using C(9) bits S unfolding S'(2) epoch height by (simp add: required_target_def chain_state_def)
  moreover have "ts_window (hvs_block_timestamp_history s') = recent_times s (hs @ [h])"
    using S ts_insert_window [OF S'(1)] recent_times_snoc [OF ok] C(6) by (simp add: chain_state_def)
  moreover have "chain_tip env s (hs @ [h]) = compute_block_hash env h" by (simp add: chain_tip_def)
  ultimately show ?thesis using S C(5,6,7,10) epoch height ts_insert_ok [OF S'(1)]
    by (simp add: chain_state_def)
qed

lemma verify_headers_chain:
  assumes ok: "ts_ok (hvs_block_timestamp_history s)"
  shows "(is_ok (verify_headers env hs s) \<longleftrightarrow> (\<forall>i < length hs. extends_chain env s (take i hs) (hs ! i)))
    \<and> (\<forall>s'. verify_headers env hs s = Ok s' \<longrightarrow> chain_state env s hs s')"
proof (induction hs rule: rev_induct)
  case Nil
  then show ?case using ok by (simp add: chain_state_def chain_tip_def recent_times_def required_target_def)
next
  case (snoc h hs)
  have split: "(\<forall>i < length (hs @ [h]). extends_chain env s (take i (hs @ [h])) ((hs @ [h]) ! i))
      \<longleftrightarrow> (\<forall>i < length hs. extends_chain env s (take i hs) (hs ! i)) \<and> extends_chain env s hs h"
    by (auto simp: less_Suc_eq nth_append)
  show ?case
  proof (cases "verify_headers env hs s")
    case (Inl e)
    then show ?thesis using snoc.IH split by (simp add: verify_headers_snoc is_ok_def)
  next
    case (Inr s1)
    then have S: "chain_state env s hs s1" and run: "verify_headers env (hs @ [h]) s = check_and_update env h s1"
      using snoc.IH by (simp_all add: verify_headers_snoc)
    have "is_ok (check_and_update env h s1) \<longleftrightarrow> extends_chain env s hs h"
      using S median_below [of "hvs_block_timestamp_history s1" "hd_time h"]
      unfolding is_ok_check_and_update extends_chain_def by (auto simp: chain_state_def)
    moreover have "\<forall>i < length hs. extends_chain env s (take i hs) (hs ! i)" using snoc.IH Inr by (simp add: is_ok_def)
    ultimately show ?thesis using split run chain_state_step [OF S ok] by simp
  qed
qed

section \<open>Properties\<close>

text \<open>C35: the timestamp ring buffer is a sliding window over the last eleven timestamps, and the
  median it reports is the median of that window: it is one of the eleven, at least six of them are
  not above it and at least six are not below it.  Inserting forgets exactly the oldest entry.\<close>
theorem timestamp_store_is_sliding_window:
  assumes "ts_ok s"
  shows "ts_ok (ts_insert t s) \<and> ts_window (ts_insert t s) = tl (ts_window s) @ [t]
    \<and> length (ts_window s) = 11 \<and> ts_median s \<in> set (ts_window s)
    \<and> 6 \<le> length (filter (\<lambda>x. x \<le> ts_median s) (ts_window s))
    \<and> 6 \<le> length (filter (\<lambda>x. ts_median s \<le> x) (ts_window s))"
  using ts_insert_ok [OF assms] ts_insert_window [OF assms] ts_median_window [OF assms]
    ts_window_length [OF assms] by (simp add: timestamps_for_median_def)

theorem timestamp_store_is_sliding_window_witness:
  "ts_window (ts_insert 9 (ts_new [1, 2, 3, 4, 5, 6, 7, 8, 20, 10, 11])) = [2, 3, 4, 5, 6, 7, 8, 20, 10, 11, 9]"
proof -
  have ok: "ts_ok (ts_new [1, 2, 3, 4, 5, 6, 7, 8, 20, 10, 11])" by code_simp
  have "tl (ts_window (ts_new [1, 2, 3, 4, 5, 6, 7, 8, 20, 10, 11])) = [2, 3, 4, 5, 6, 7, 8, 20, 10, 11]"
    by code_simp
  then show ?thesis using timestamp_store_is_sliding_window [OF ok, of 9] by simp
qed

text \<open>C16: exactly the valid chains are accepted.  A sequence of headers is accepted on a verified state if and
  only if every one of them names the hash of the one before, carries exactly the target required at its
  height, has a time later than at least six of the eleven times before it, and has a hash that meets its
  target.  The required target is that of the previous header, except at the start of a difficulty
  interval, where it is retargeted from the previous header's time and the time the interval before was
  opened.  The state afterwards has the last header as the verified block, the height grown by their
  number, the eleven latest times, the next required target, and the sum of their work.\<close>
theorem accepted_headers_form_chain:
  assumes "ts_ok (hvs_block_timestamp_history s)"
  shows "(is_ok (verify_headers env hs s) \<longleftrightarrow> (\<forall>i < length hs. extends_chain env s (take i hs) (hs ! i)))
    \<and> (\<forall>s'. verify_headers env hs s = Ok s' \<longrightarrow> chain_state env s hs s')"
  by (rule verify_headers_chain [OF assms])

definition sample_btc_env :: btc_env where
  "sample_btc_env = \<lparr>sha256d = (\<lambda>b. 7 # b), header_encode = (\<lambda>h. [ucast (hd_time h)]),
     difficulty_adjustment_interval = (\<lambda>_. 4), from_next_work_required = (\<lambda>bits span _. bits + ucast span),
     target_is_met_by = (\<lambda>_ _. True), header_work = (\<lambda>_. 3), work_add = (+), work_to_le_bytes = (\<lambda>w. [ucast w])\<rparr>"

definition sample_header :: "block_id \<Rightarrow> u32 \<Rightarrow> u32 \<Rightarrow> header" where
  "sample_header prev t bits = \<lparr>hd_prev_blockhash = prev, hd_merkle_root = [], hd_time = t, hd_bits = bits,
     hd_version = 1, hd_nonce = 0\<rparr>"

definition sample_hvs :: header_verification_state where
  "sample_hvs = hvs_init \<lparr>la_block = \<lparr>l1_block_height = 6, l1_block_blkid = [1]\<rparr>, la_next_target = 5,
     la_epoch_start_timestamp = 90, la_network = Regtest\<rparr>"

theorem accepted_headers_form_chain_witness:
  "(\<exists>s'. verify_headers sample_btc_env [sample_header [1] 100 5, sample_header [7, 100] 104 15] sample_hvs = Ok s'
     \<and> l1_block_height (hvs_last_verified_block s') = 8 \<and> hvs_epoch_start_timestamp s' = 104
     \<and> hvs_next_block_target s' = 15 \<and> hvs_total_accumulated_pow s' = 6)
   \<and> \<not> is_ok (verify_headers sample_btc_env [sample_header [1] 100 5, sample_header [7, 100] 104 5] sample_hvs)"
proof -
  let ?hs = "[sample_header [1] 100 5, sample_header [7, 100] 104 15]"
  let ?bad = "[sample_header [1] 100 5, sample_header [7, 100] 104 5]"
  have ok: "ts_ok (hvs_block_timestamp_history sample_hvs)" by code_simp
  have "extends_chain sample_btc_env sample_hvs (take 0 ?hs) (?hs ! 0)"
    "extends_chain sample_btc_env sample_hvs (take 1 ?hs) (?hs ! 1)" by code_simp+
  then have "\<forall>i < length ?hs. extends_chain sample_btc_env sample_hvs (take i ?hs) (?hs ! i)" by (auto simp: less_Suc_eq)
  then have "is_ok (verify_headers sample_btc_env ?hs sample_hvs)"
    using accepted_headers_form_chain [OF ok, of sample_btc_env ?hs] by blast
  then obtain s' where s': "verify_headers sample_btc_env ?hs sample_hvs = Ok s'"
    by (cases "verify_headers sample_btc_env ?hs sample_hvs") auto
  have v: "l1_block_height (hvs_last_verified_block sample_hvs) + of_nat (length ?hs) = 8"
    "epoch_start (adjustment_interval sample_btc_env sample_hvs)
        (l1_block_height (hvs_last_verified_block sample_hvs)) (hvs_epoch_start_timestamp sample_hvs) ?hs = 104"
    "required_target sample_btc_env sample_hvs ?hs = 15"
    "foldl (\<lambda>w h. work_add sample_btc_env w (header_work sample_btc_env (hd_bits h)))
        (hvs_total_accumulated_pow sample_hvs) ?hs = 6" by code_simp+
  have "chain_state sample_btc_env sample_hvs ?hs s'" using accepted_headers_form_chain [OF ok, of sample_btc_env ?hs] s' by blast
  then have one: "l1_block_height (hvs_last_verified_block s') = 8 \<and> hvs_epoch_start_timestamp s' = 104
     \<and> hvs_next_block_target s' = 15 \<and> hvs_total_accumulated_pow s' = 6" unfolding chain_state_def using v by metis
  have "\<not> extends_chain sample_btc_env sample_hvs (take 1 ?bad) (?bad ! 1)" by code_simp
  then have "\<not> is_ok (verify_headers sample_btc_env ?bad sample_hvs)"
    using accepted_headers_form_chain [OF ok, of sample_btc_env ?bad] by fastforce
  then show ?thesis using s' one by blast
qed

text \<open>The storage form of the header verification state is faithful.  A state of a supported
  network with a well-formed store encodes and decodes to itself; every value that decodes does so
  to a state with a well-formed store whose encoding is that value; and decoding a value with the
  schema's buffer length never panics.\<close>
theorem header_state_storage_roundtrip:
  "(ts_ok (hvs_block_timestamp_history s) \<and> hvs_network s \<noteq> OtherNetwork \<longrightarrow>
      (\<exists>z. into_delegate s = Some z \<and> from_delegate z = Some (Ok s)))
   \<and> (from_delegate z = Some (Ok s) \<longrightarrow>
      ts_ok (hvs_block_timestamp_history s) \<and> into_delegate s = Some z)
   \<and> (length (hvz_buffer z) = 11 \<longrightarrow> from_delegate z \<noteq> None)"
proof -
  have net: "network_to_id n = Some i \<longleftrightarrow> network_from_id i = Ok n" for n i
    by (cases n) (auto simp: network_to_id_def network_from_id_def)
  have "\<exists>z. into_delegate s = Some z \<and> from_delegate z = Some (Ok s)"
    if a: "ts_ok (hvs_block_timestamp_history s)" "hvs_network s \<noteq> OtherNetwork"
  proof -
    obtain i where i: "network_to_id (hvs_network s) = Some i"
      using a(2) by (cases "hvs_network s") (auto simp: network_to_id_def)
    have u: "unat (of_nat (ts_head (hvs_block_timestamp_history s)) :: u8) = ts_head (hvs_block_timestamp_history s)"
      using a(1) by (simp add: ts_ok_def timestamps_for_median_def unat_of_nat)
    show ?thesis using a(1) i net [of "hvs_network s" i] u
      by (simp add: into_delegate_def from_delegate_def ts_ok_def timestamps_for_median_def ts_from_parts_def)
  qed
  moreover have "ts_ok (hvs_block_timestamp_history s) \<and> into_delegate s = Some z"
    if d: "from_delegate z = Some (Ok s)"
  proof -
    obtain n where n: "network_from_id (hvz_network z) = Ok n" using d
      by (auto simp: from_delegate_def split: sum.splits)
    then have "network_to_id n = Some (hvz_network z)" by (simp add: net)
    then show ?thesis using d n
      by (auto simp: from_delegate_def into_delegate_def ts_ok_def ts_from_parts_def timestamps_for_median_def
          split: if_splits)
  qed
  moreover have "from_delegate z \<noteq> None" if "length (hvz_buffer z) = 11"
    using that by (auto simp: from_delegate_def ts_from_parts_def timestamps_for_median_def split: sum.splits)
  ultimately show ?thesis by blast
qed

theorem header_state_storage_roundtrip_witness:
  "\<exists>z. into_delegate sample_hvs = Some z \<and> from_delegate z = Some (Ok sample_hvs)"
proof -
  have "ts_ok (hvs_block_timestamp_history sample_hvs) \<and> hvs_network sample_hvs \<noteq> OtherNetwork" by code_simp
  then show ?thesis using header_state_storage_roundtrip [of sample_hvs] by blast
qed

end
