(* ===== verification/Admin_Txs.thy ===== *)
theory Admin_Txs
  imports Threshold_Sig Asm_Common Header_Verification
begin

text \<open>
  Administration transactions: roles, transaction types and confirmation depths
  (\<open>crates/subprotocols/admin/types/src\<close>), the actions, the message their signers sign, and the parser
  (\<open>crates/subprotocols/admin/txs/src\<close>).  Address rendering, hexadecimal rendering, hashing, the
  envelope format and the SSZ codec are library code, fields of \<open>admin_env\<close>.  An \<open>EvenPublicKey\<close> is the
  32 bytes it renders as.
\<close>

section \<open>Roles and transaction types\<close>

datatype role = StrataAdministrator | StrataSequencerManager | AlpenAdministrator | StrataSecurityCouncil

fun role_index :: "role \<Rightarrow> nat" where
  "role_index StrataAdministrator = 0"
| "role_index StrataSequencerManager = 1"
| "role_index AlpenAdministrator = 2"
| "role_index StrataSecurityCouncil = 3"

fun role_name :: "role \<Rightarrow> string" where
  "role_name StrataAdministrator = ''Strata Administrator''"
| "role_name StrataSequencerManager = ''Strata Sequencer Manager''"
| "role_name AlpenAdministrator = ''Alpen Administrator''"
| "role_name StrataSecurityCouncil = ''Strata Security Council''"

datatype update_tx_type =
    StrataAdminMultisigUpdate | OlStfVkUpdate | AsmStfVkUpdate | OperatorUpdate | SafeHarborAddressUpdate
  | StrataSecurityCouncilMultisigUpdate | StrataSeqManagerMultisigUpdate | SequencerUpdate
  | AlpenAdminMultisigUpdate | EeStfVkUpdate | Defcon1Update | Defcon3Update

fun update_tx_type_code :: "update_tx_type \<Rightarrow> u8" where
  "update_tx_type_code StrataAdminMultisigUpdate = 10"
| "update_tx_type_code OlStfVkUpdate = 11"
| "update_tx_type_code AsmStfVkUpdate = 12"
| "update_tx_type_code OperatorUpdate = 13"
| "update_tx_type_code SafeHarborAddressUpdate = 14"
| "update_tx_type_code StrataSecurityCouncilMultisigUpdate = 15"
| "update_tx_type_code StrataSeqManagerMultisigUpdate = 20"
| "update_tx_type_code SequencerUpdate = 21"
| "update_tx_type_code AlpenAdminMultisigUpdate = 30"
| "update_tx_type_code EeStfVkUpdate = 31"
| "update_tx_type_code Defcon1Update = 41"
| "update_tx_type_code Defcon3Update = 43"

fun authorized_role :: "update_tx_type \<Rightarrow> role" where
  "authorized_role StrataAdminMultisigUpdate = StrataAdministrator"
| "authorized_role OlStfVkUpdate = StrataAdministrator"
| "authorized_role AsmStfVkUpdate = StrataAdministrator"
| "authorized_role OperatorUpdate = StrataAdministrator"
| "authorized_role SafeHarborAddressUpdate = StrataAdministrator"
| "authorized_role StrataSecurityCouncilMultisigUpdate = StrataAdministrator"
| "authorized_role AlpenAdminMultisigUpdate = AlpenAdministrator"
| "authorized_role EeStfVkUpdate = AlpenAdministrator"
| "authorized_role SequencerUpdate = StrataSequencerManager"
| "authorized_role StrataSeqManagerMultisigUpdate = StrataSequencerManager"
| "authorized_role Defcon1Update = StrataSecurityCouncil"
| "authorized_role Defcon3Update = StrataSecurityCouncil"

fun update_name :: "update_tx_type \<Rightarrow> string" where
  "update_name StrataAdminMultisigUpdate = ''Strata Administrator Multisig Update''"
| "update_name StrataSeqManagerMultisigUpdate = ''Strata Sequencer Manager Multisig Update''"
| "update_name AlpenAdminMultisigUpdate = ''Alpen Administrator Multisig Update''"
| "update_name StrataSecurityCouncilMultisigUpdate = ''Strata Security Council Multisig Update''"
| "update_name OperatorUpdate = ''Bridge Operator Set Update''"
| "update_name SequencerUpdate = ''Sequencer Update''"
| "update_name OlStfVkUpdate = ''OL STF VK Update''"
| "update_name AsmStfVkUpdate = ''ASM STF VK Update''"
| "update_name EeStfVkUpdate = ''EE STF VK Update''"
| "update_name Defcon1Update = ''Defcon 1''"
| "update_name Defcon3Update = ''Defcon 3''"
| "update_name SafeHarborAddressUpdate = ''Safe Harbor Address Update''"

definition update_tx_type_try_from :: "u8 \<Rightarrow> (u8, update_tx_type) result" where
  "update_tx_type_try_from value =
     (if value = 10 then Ok StrataAdminMultisigUpdate
      else if value = 11 then Ok OlStfVkUpdate
      else if value = 12 then Ok AsmStfVkUpdate
      else if value = 13 then Ok OperatorUpdate
      else if value = 14 then Ok SafeHarborAddressUpdate
      else if value = 15 then Ok StrataSecurityCouncilMultisigUpdate
      else if value = 20 then Ok StrataSeqManagerMultisigUpdate
      else if value = 21 then Ok SequencerUpdate
      else if value = 30 then Ok AlpenAdminMultisigUpdate
      else if value = 31 then Ok EeStfVkUpdate
      else if value = 41 then Ok Defcon1Update
      else if value = 43 then Ok Defcon3Update
      else Err value)"

datatype admin_tx_type = CancelTx | UpdateTx update_tx_type

definition cancel_tx_type :: u8 where "cancel_tx_type = 0"

fun admin_tx_type_code :: "admin_tx_type \<Rightarrow> u8" where
  "admin_tx_type_code CancelTx = cancel_tx_type"
| "admin_tx_type_code (UpdateTx u) = update_tx_type_code u"

definition admin_tx_type_try_from :: "u8 \<Rightarrow> (u8, admin_tx_type) result" where
  "admin_tx_type_try_from value =
     (if value = cancel_tx_type then Ok CancelTx
      else res_bind (update_tx_type_try_from value) (\<lambda>u. Ok (UpdateTx u)))"

fun admin_tx_type_name :: "admin_tx_type \<Rightarrow> string" where
  "admin_tx_type_name CancelTx = ''Cancel''"
| "admin_tx_type_name (UpdateTx u) = update_name u"

section \<open>Configuration\<close>

record confirmation_depths =
  cd_strata_admin_multisig_update :: u16
  cd_strata_seq_manager_multisig_update :: u16
  cd_alpen_admin_multisig_update :: u16
  cd_strata_security_council_multisig_update :: u16
  cd_operator_update :: u16
  cd_sequencer_update :: u16
  cd_ol_stf_vk_update :: u16
  cd_asm_stf_vk_update :: u16
  cd_ee_stf_vk_update :: u16
  cd_defcon3 :: u16
  cd_safe_harbor_address_update :: u16

definition cd_get :: "update_tx_type \<Rightarrow> confirmation_depths \<Rightarrow> u16 option" where
  "cd_get tx_type self =
     (let depth = (case tx_type of
          StrataAdminMultisigUpdate \<Rightarrow> cd_strata_admin_multisig_update self
        | StrataSeqManagerMultisigUpdate \<Rightarrow> cd_strata_seq_manager_multisig_update self
        | AlpenAdminMultisigUpdate \<Rightarrow> cd_alpen_admin_multisig_update self
        | StrataSecurityCouncilMultisigUpdate \<Rightarrow> cd_strata_security_council_multisig_update self
        | OperatorUpdate \<Rightarrow> cd_operator_update self
        | SequencerUpdate \<Rightarrow> cd_sequencer_update self
        | OlStfVkUpdate \<Rightarrow> cd_ol_stf_vk_update self
        | AsmStfVkUpdate \<Rightarrow> cd_asm_stf_vk_update self
        | EeStfVkUpdate \<Rightarrow> cd_ee_stf_vk_update self
        | Defcon1Update \<Rightarrow> 0
        | Defcon3Update \<Rightarrow> cd_defcon3 self
        | SafeHarborAddressUpdate \<Rightarrow> cd_safe_harbor_address_update self)
      in if depth \<noteq> 0 then Some depth else None)"

type_synonym btc_address = string

record unchecked_threshold_config =
  utc_signers :: "btc_address list"
  utc_threshold :: u8

record administration_init_config =
  aic_strata_administrator :: unchecked_threshold_config
  aic_strata_sequencer_manager :: unchecked_threshold_config
  aic_alpen_administrator :: unchecked_threshold_config
  aic_strata_security_council :: unchecked_threshold_config
  aic_confirmation_depths :: confirmation_depths
  aic_max_seqno_gap :: u8

datatype invalid_threshold_config = SignerNotP2wpkh nat | InvalidConfig threshold_signature_error

record signer_network_mismatch =
  snm_role :: role
  snm_index :: nat
  snm_network :: network

section \<open>Actions\<close>

type_synonym update_id = u32

datatype update_action =
    StrataAdminMultisig threshold_config_update
  | StrataSeqManagerMultisig threshold_config_update
  | AlpenAdminMultisig threshold_config_update
  | StrataSecurityCouncilMultisig threshold_config_update
  | OperatorSet "pubkey list" "u32 list"
  | Sequencer pubkey
  | OlStfVk predicate_key
  | AsmStfVk predicate_key
  | EeStfVk predicate_key
  | Defcon1
  | Defcon3
  | SafeHarborAddress safe_harbor_address

fun update_type_of :: "update_action \<Rightarrow> update_tx_type" where
  "update_type_of (StrataAdminMultisig u) = StrataAdminMultisigUpdate"
| "update_type_of (StrataSeqManagerMultisig u) = StrataSeqManagerMultisigUpdate"
| "update_type_of (AlpenAdminMultisig u) = AlpenAdminMultisigUpdate"
| "update_type_of (StrataSecurityCouncilMultisig u) = StrataSecurityCouncilMultisigUpdate"
| "update_type_of (OperatorSet add_members remove_members) = OperatorUpdate"
| "update_type_of (Sequencer k) = SequencerUpdate"
| "update_type_of (OlStfVk k) = OlStfVkUpdate"
| "update_type_of (AsmStfVk k) = AsmStfVkUpdate"
| "update_type_of (EeStfVk k) = EeStfVkUpdate"
| "update_type_of Defcon1 = Defcon1Update"
| "update_type_of Defcon3 = Defcon3Update"
| "update_type_of (SafeHarborAddress a) = SafeHarborAddressUpdate"

definition update_required_role :: "update_action \<Rightarrow> role" where
  "update_required_role u = authorized_role (update_type_of u)"

datatype multisig_action = CancelAction update_id update_action | UpdateAction update_action

fun action_tx_type :: "multisig_action \<Rightarrow> admin_tx_type" where
  "action_tx_type (CancelAction target_id update) = CancelTx"
| "action_tx_type (UpdateAction update) = UpdateTx (update_type_of update)"

fun action_required_role :: "multisig_action \<Rightarrow> role" where
  "action_required_role (UpdateAction update) = update_required_role update"
| "action_required_role (CancelAction target_id update) = update_required_role update"

type_synonym signature_list = "indexed_signature list"

record admin_env = ecdsa_env +
  p2wpkh_from_address :: "btc_address \<Rightarrow> p2wpkh_address option"
  is_valid_for_network :: "network \<Rightarrow> btc_address \<Rightarrow> bool"
  network_to_string :: "network \<Rightarrow> string"
  p2wpkh_to_string :: "network \<Rightarrow> p2wpkh_address \<Rightarrow> string"
  safe_harbor_to_string :: "network \<Rightarrow> safe_harbor_address \<Rightarrow> string"
  predicate_id :: "predicate_key \<Rightarrow> u8"
  predicate_condition :: "predicate_key \<Rightarrow> bytes"
  predicate_type_name :: "u8 \<Rightarrow> string option"
  lower_hex :: "bytes \<Rightarrow> string"
  condition_hash :: "bytes \<Rightarrow> buf32"
  signed_msg_hash :: "string \<Rightarrow> message_hash"
  taproot_leaf_script :: "bytes list \<Rightarrow> script option"
  parse_envelope_payload :: "script \<Rightarrow> (string, bytes) result"
  system_reserved_accts :: u32
  decode_cancel_wire :: "bytes \<Rightarrow> (string, u64 \<times> update_id \<times> signature_list) result"
  decode_multisig_wire :: "bytes \<Rightarrow> (string, u64 \<times> threshold_config_update \<times> signature_list) result"
  decode_operator_wire :: "bytes \<Rightarrow> (string, u64 \<times> (pubkey list \<times> u32 list) \<times> signature_list) result"
  decode_sequencer_wire :: "bytes \<Rightarrow> (string, u64 \<times> pubkey \<times> signature_list) result"
  decode_predicate_wire :: "bytes \<Rightarrow> (string, u64 \<times> predicate_key \<times> signature_list) result"
  decode_unit_wire :: "bytes \<Rightarrow> (string, u64 \<times> unit \<times> signature_list) result"
  decode_safe_harbor_wire :: "bytes \<Rightarrow> (string, u64 \<times> safe_harbor_address \<times> signature_list) result"

text \<open>The signer sets of the parameter file.\<close>

definition signer_configs :: "administration_init_config \<Rightarrow> (role \<times> unchecked_threshold_config) list" where
  "signer_configs self =
     [(StrataAdministrator, aic_strata_administrator self),
      (StrataSequencerManager, aic_strata_sequencer_manager self),
      (AlpenAdministrator, aic_alpen_administrator self),
      (StrataSecurityCouncil, aic_strata_security_council self)]"

fun check_role_networks ::
  "'e admin_env_scheme \<Rightarrow> network \<Rightarrow> (role \<times> unchecked_threshold_config) list
     \<Rightarrow> (signer_network_mismatch, unit) result" where
  "check_role_networks env net [] = Ok ()"
| "check_role_networks env net ((r, config) # rest) =
     (case position (\<lambda>address. \<not> is_valid_for_network env net address) (utc_signers config) of
        Some index \<Rightarrow> Err \<lparr>snm_role = r, snm_index = index, snm_network = net\<rparr>
      | None \<Rightarrow> check_role_networks env net rest)"

definition check_signer_networks ::
  "'e admin_env_scheme \<Rightarrow> network \<Rightarrow> administration_init_config \<Rightarrow> (signer_network_mismatch, unit) result" where
  "check_signer_networks env net self = check_role_networks env net (signer_configs self)"

fun resolve_signers ::
  "'e admin_env_scheme \<Rightarrow> nat \<Rightarrow> btc_address list \<Rightarrow> (invalid_threshold_config, p2wpkh_address list) result" where
  "resolve_signers env index [] = Ok []"
| "resolve_signers env index (address # rest) =
     (case p2wpkh_from_address env address of
        None \<Rightarrow> Err (SignerNotP2wpkh index)
      | Some a \<Rightarrow> res_bind (resolve_signers env (Suc index) rest) (\<lambda>as. Ok (a # as)))"

definition threshold_config_try_from ::
  "'e admin_env_scheme \<Rightarrow> unchecked_threshold_config \<Rightarrow> (invalid_threshold_config, threshold_config) result" where
  "threshold_config_try_from env config =
     res_bind (resolve_signers env 0 (utc_signers config)) (\<lambda>signers.
       map_err InvalidConfig (tc_try_new signers (utc_threshold config)))"

definition utc_try_new ::
  "'e admin_env_scheme \<Rightarrow> btc_address list \<Rightarrow> u8 \<Rightarrow> (invalid_threshold_config, unchecked_threshold_config) result" where
  "utc_try_new env signers threshold =
     (let config = \<lparr>utc_signers = signers, utc_threshold = threshold\<rparr>
      in res_bind (threshold_config_try_from env config) (\<lambda>_. Ok config))"

section \<open>The signing message\<close>

text \<open>Decimal rendering of an unsigned integer, and lines joined by newlines.\<close>

fun dec :: "nat \<Rightarrow> string" where
  "dec n = (if n < 10 then [char_of (48 + n)] else dec (n div 10) @ [char_of (48 + n mod 10)])"

declare dec.simps [simp del]

abbreviation newline :: char where
  "newline \<equiv> CHR 0x0A"

fun join_lines :: "string list \<Rightarrow> string" where
  "join_lines [] = []"
| "join_lines [l] = l"
| "join_lines (l # ls) = l @ newline # join_lines ls"

definition admin_subprotocol_version :: u8 where "admin_subprotocol_version = 1"

definition push_detail :: "string \<Rightarrow> string" where
  "push_detail line = ''  '' @ line"

definition append_indexed_fields :: "string \<Rightarrow> string \<Rightarrow> string list \<Rightarrow> string list" where
  "append_indexed_fields count_label item_label values =
     push_detail (count_label @ '': '' @ dec (length values))
     # map (\<lambda>(idx, v). push_detail (dec (idx + 1) @ ''. '' @ item_label @ '': '' @ v)) (enumerate 0 values)"

definition render_multisig :: "'e admin_env_scheme \<Rightarrow> network \<Rightarrow> threshold_config_update \<Rightarrow> string list" where
  "render_multisig env net config =
     push_detail (''New Threshold: '' @ dec (unat (tcu_new_threshold config)))
     # append_indexed_fields ''Members to Add'' ''Add Member'' (map (p2wpkh_to_string env net) (tcu_add_members config))
     @ append_indexed_fields ''Members to Remove'' ''Remove Member'' (map (p2wpkh_to_string env net) (tcu_remove_members config))"

definition render_predicate :: "'e admin_env_scheme \<Rightarrow> predicate_key \<Rightarrow> string list" where
  "render_predicate env key =
     (let predicate_type = (case predicate_type_name env (predicate_id env key) of
            Some name \<Rightarrow> name
          | None \<Rightarrow> ''unknown ('' @ dec (unat (predicate_id env key)) @ '')'');
          condition = predicate_condition env key
      in [push_detail (''Predicate Type: '' @ predicate_type),
          if length condition \<le> 32 then push_detail (''Predicate Hex: '' @ lower_hex env condition)
          else push_detail (''Predicate Hash: '' @ lower_hex env (condition_hash env condition))])"

definition render_operator_set :: "'e admin_env_scheme \<Rightarrow> pubkey list \<Rightarrow> u32 list \<Rightarrow> string list" where
  "render_operator_set env add_members remove_members =
     append_indexed_fields ''Operators to Add'' ''Add Operator'' (map (lower_hex env) add_members)
     @ append_indexed_fields ''Operators to Remove'' ''Remove Operator Index'' (map (\<lambda>i. dec (unat i)) remove_members)"

fun render_update :: "'e admin_env_scheme \<Rightarrow> network \<Rightarrow> update_action \<Rightarrow> string list" where
  "render_update env net (StrataAdminMultisig u) = render_multisig env net u"
| "render_update env net (StrataSeqManagerMultisig u) = render_multisig env net u"
| "render_update env net (AlpenAdminMultisig u) = render_multisig env net u"
| "render_update env net (StrataSecurityCouncilMultisig u) = render_multisig env net u"
| "render_update env net (OperatorSet add_members remove_members) = render_operator_set env add_members remove_members"
| "render_update env net (Sequencer k) = [push_detail (''New Sequencer Key: '' @ lower_hex env k)]"
| "render_update env net (OlStfVk k) = render_predicate env k"
| "render_update env net (AsmStfVk k) = render_predicate env k"
| "render_update env net (EeStfVk k) = render_predicate env k"
| "render_update env net Defcon1 = []"
| "render_update env net Defcon3 = []"
| "render_update env net (SafeHarborAddress a) = [push_detail (''New Safe Harbor Address: '' @ safe_harbor_to_string env net a)]"

fun render_details :: "'e admin_env_scheme \<Rightarrow> network \<Rightarrow> multisig_action \<Rightarrow> string list" where
  "render_details env net (CancelAction target_id update) =
     push_detail (''Target Update: '' @ update_name (update_type_of update)) # render_update env net update"
| "render_details env net (UpdateAction update) = render_update env net update"

definition message_lines :: "'e admin_env_scheme \<Rightarrow> multisig_action \<Rightarrow> u64 \<Rightarrow> network \<Rightarrow> string list" where
  "message_lines env action seqno net =
     [''Strata ASM Administration v'' @ dec (unat admin_subprotocol_version),
      ''Network: '' @ network_to_string env net,
      ''Action: '' @ admin_tx_type_name (action_tx_type action),
      ''Authorized By: '' @ role_name (action_required_role action),
      ''Sequence: '' @ dec (unat seqno)]
     @ (if render_details env net action \<noteq> [] then ''Action Details:'' # render_details env net action else [])"

definition for_action :: "'e admin_env_scheme \<Rightarrow> multisig_action \<Rightarrow> u64 \<Rightarrow> network \<Rightarrow> string" where
  "for_action env action seqno net = join_lines (message_lines env action seqno net)"

definition compute_sighash :: "'e admin_env_scheme \<Rightarrow> string \<Rightarrow> message_hash" where
  "compute_sighash env message = signed_msg_hash env message"

section \<open>Parsing\<close>

datatype administration_tx_parse_error =
    MissingPayloadScript u8 | MalformedPayload u8 string | MalformedEnvelope string

record signed_payload =
  sp_seqno :: u64
  sp_action :: multisig_action
  sp_signatures :: signature_list

datatype envelope_action = EnvelopeCancel update_id | EnvelopeUpdate update_action

record envelope_payload =
  ep_seqno :: u64
  ep_action :: envelope_action
  ep_signatures :: signature_list

fun envelope_action_from :: "multisig_action \<Rightarrow> envelope_action" where
  "envelope_action_from (CancelAction target_id update) = EnvelopeCancel target_id"
| "envelope_action_from (UpdateAction update) = EnvelopeUpdate update"

definition envelope_payload_from :: "signed_payload \<Rightarrow> envelope_payload" where
  "envelope_payload_from payload =
     \<lparr>ep_seqno = sp_seqno payload, ep_action = envelope_action_from (sp_action payload),
      ep_signatures = sp_signatures payload\<rparr>"

definition resolve ::
  "envelope_payload \<Rightarrow> (update_id \<Rightarrow> update_action option) \<Rightarrow> (update_id, signed_payload) result" where
  "resolve self find_queued =
     res_bind
       (case ep_action self of
          EnvelopeCancel target_id \<Rightarrow>
            (case find_queued target_id of
               None \<Rightarrow> Err target_id
             | Some update \<Rightarrow> Ok (CancelAction target_id update))
        | EnvelopeUpdate update \<Rightarrow> Ok (UpdateAction update))
       (\<lambda>action. Ok \<lparr>sp_seqno = ep_seqno self, sp_action = action, sp_signatures = ep_signatures self\<rparr>)"

definition decode_wire ::
  "('a \<Rightarrow> envelope_action) \<Rightarrow> u8 \<Rightarrow> (string, u64 \<times> 'a \<times> signature_list) result
     \<Rightarrow> (administration_tx_parse_error, envelope_payload) result" where
  "decode_wire wrap tx_type wire =
     res_bind (map_err (MalformedPayload tx_type) wire) (\<lambda>(seqno, action, signatures).
       Ok \<lparr>ep_seqno = seqno, ep_action = wrap action, ep_signatures = signatures\<rparr>)"

definition decode_signed_payload ::
  "'e admin_env_scheme \<Rightarrow> admin_tx_type \<Rightarrow> bytes \<Rightarrow> u8
     \<Rightarrow> (administration_tx_parse_error, envelope_payload) result" where
  "decode_signed_payload env admin_type bytes tx_type =
     (case admin_type of
        CancelTx \<Rightarrow> decode_wire EnvelopeCancel tx_type (decode_cancel_wire env bytes)
      | UpdateTx update_type \<Rightarrow>
         (case update_type of
            StrataAdminMultisigUpdate \<Rightarrow>
              decode_wire (EnvelopeUpdate \<circ> StrataAdminMultisig) tx_type (decode_multisig_wire env bytes)
          | StrataSeqManagerMultisigUpdate \<Rightarrow>
              decode_wire (EnvelopeUpdate \<circ> StrataSeqManagerMultisig) tx_type (decode_multisig_wire env bytes)
          | AlpenAdminMultisigUpdate \<Rightarrow>
              decode_wire (EnvelopeUpdate \<circ> AlpenAdminMultisig) tx_type (decode_multisig_wire env bytes)
          | StrataSecurityCouncilMultisigUpdate \<Rightarrow>
              decode_wire (EnvelopeUpdate \<circ> StrataSecurityCouncilMultisig) tx_type (decode_multisig_wire env bytes)
          | OperatorUpdate \<Rightarrow>
              decode_wire (\<lambda>(a, r). EnvelopeUpdate (OperatorSet a r)) tx_type (decode_operator_wire env bytes)
          | SequencerUpdate \<Rightarrow> decode_wire (EnvelopeUpdate \<circ> Sequencer) tx_type (decode_sequencer_wire env bytes)
          | OlStfVkUpdate \<Rightarrow> decode_wire (EnvelopeUpdate \<circ> OlStfVk) tx_type (decode_predicate_wire env bytes)
          | AsmStfVkUpdate \<Rightarrow> decode_wire (EnvelopeUpdate \<circ> AsmStfVk) tx_type (decode_predicate_wire env bytes)
          | EeStfVkUpdate \<Rightarrow> decode_wire (EnvelopeUpdate \<circ> EeStfVk) tx_type (decode_predicate_wire env bytes)
          | Defcon1Update \<Rightarrow> decode_wire (\<lambda>_. EnvelopeUpdate Defcon1) tx_type (decode_unit_wire env bytes)
          | Defcon3Update \<Rightarrow> decode_wire (\<lambda>_. EnvelopeUpdate Defcon3) tx_type (decode_unit_wire env bytes)
          | SafeHarborAddressUpdate \<Rightarrow>
              decode_wire (EnvelopeUpdate \<circ> SafeHarborAddress) tx_type (decode_safe_harbor_wire env bytes)))"

definition extract_signed_payload ::
  "'e admin_env_scheme \<Rightarrow> tx_input_ref \<Rightarrow> admin_tx_type
     \<Rightarrow> (administration_tx_parse_error, envelope_payload) result" where
  "extract_signed_payload env tx admin_type =
     (let tx_type = tag_tx_type (tir_tag tx) in
      res_bind
        (case tx_input (tir_tx tx) of
           [] \<Rightarrow> Err (MissingPayloadScript tx_type)
         | input # _ \<Rightarrow>
             (case taproot_leaf_script env (ti_witness input) of
                None \<Rightarrow> Err (MissingPayloadScript tx_type)
              | Some scr \<Rightarrow> Ok scr))
        (\<lambda>payload_script.
      res_bind (map_err MalformedEnvelope (parse_envelope_payload env payload_script)) (\<lambda>envelope_bytes.
        decode_signed_payload env admin_type envelope_bytes tx_type)))"

definition parse_admin_tx :: "'e admin_env_scheme \<Rightarrow> tx_input_ref \<Rightarrow> envelope_payload option" where
  "parse_admin_tx env tx =
     (case admin_tx_type_try_from (tag_tx_type (tir_tag tx)) of
        Err _ \<Rightarrow> None
      | Ok admin_type \<Rightarrow>
         (case extract_signed_payload env tx admin_type of
            Ok payload \<Rightarrow> Some payload
          | Err _ \<Rightarrow> None))"

section \<open>What the signing message determines\<close>

definition undec :: "string \<Rightarrow> nat" where
  "undec ds = foldl (\<lambda>a d. 10 * a + (of_char d - 48)) 0 ds"

lemma of_char_digit: "k < 10 \<Longrightarrow> of_char (char_of (48 + k) :: char) = (48 + k :: nat)"
  by (simp add: of_char_of)

lemma undec_dec [simp]: "undec (dec n) = n"
proof (induction n rule: dec.induct)
  case (1 n)
  show ?case
  proof (cases "n < 10")
    case True
    then show ?thesis by (subst dec.simps) (simp add: undec_def of_char_digit)
  next
    case False
    then have "undec (dec n) = 10 * undec (dec (n div 10)) + n mod 10"
      by (subst dec.simps) (simp add: undec_def of_char_digit)
    then show ?thesis using 1 False by simp
  qed
qed

lemma dec_inject [simp]: "dec m = dec n \<longleftrightarrow> m = n"
  by (metis undec_dec)

lemma newline_digit: "k < 10 \<Longrightarrow> newline \<noteq> char_of (48 + k :: nat)"
proof
  assume "k < 10" and "newline = char_of (48 + k)"
  then have "of_char newline = (48 + k :: nat)" by (simp only: of_char_digit)
  then show False by simp
qed

lemma newline_dec [simp]: "newline \<notin> set (dec n)"
proof (induction n rule: dec.induct)
  case (1 n)
  then show ?case using newline_digit [of n] newline_digit [of "n mod 10"] by (subst dec.simps) simp
qed

lemma append_newline_inject:
  "newline \<notin> set a \<Longrightarrow> newline \<notin> set b \<Longrightarrow> a @ newline # x = b @ newline # y \<longleftrightarrow> a = b \<and> x = y"
  by (induction a arbitrary: b) (case_tac [!] b, auto)

lemma join_lines_Cons: "ls \<noteq> [] \<Longrightarrow> join_lines (l # ls) = l @ newline # join_lines ls"
  by (cases ls) simp_all

lemma join_lines_inject:
  "ls \<noteq> [] \<Longrightarrow> ls' \<noteq> [] \<Longrightarrow> \<forall>l \<in> set ls. newline \<notin> set l \<Longrightarrow> \<forall>l \<in> set ls'. newline \<notin> set l
   \<Longrightarrow> join_lines ls = join_lines ls' \<Longrightarrow> ls = ls'"
proof (induction ls arbitrary: ls')
  case (Cons l ls)
  then obtain l' ls2 where ls': "ls' = l' # ls2" by (cases ls') auto
  show ?case
  proof (cases "ls = []")
    case True
    then have "ls2 = []" using Cons.prems ls' by (cases "ls2 = []") (auto simp: join_lines_Cons)
    then show ?thesis using Cons.prems ls' True by simp
  next
    case False
    then have ne: "ls2 \<noteq> []" using Cons.prems ls' by (cases "ls2 = []") (auto simp: join_lines_Cons)
    have "l = l' \<and> join_lines ls = join_lines ls2"
      using Cons.prems ls' False ne by (simp add: join_lines_Cons append_newline_inject)
    moreover have "ls = ls2"
      by (rule Cons.IH) (use Cons.prems ls' False ne calculation in simp_all)
    ultimately show ?thesis using ls' by simp
  qed
qed simp

definition render_laws :: "'e admin_env_scheme \<Rightarrow> bool" where
  "render_laws env \<longleftrightarrow>
     inj (network_to_string env) \<and> (\<forall>net. newline \<notin> set (network_to_string env net))
   \<and> (\<forall>net. inj (p2wpkh_to_string env net) \<and> (\<forall>a. newline \<notin> set (p2wpkh_to_string env net a)))
   \<and> (\<forall>net. inj (safe_harbor_to_string env net) \<and> (\<forall>a. newline \<notin> set (safe_harbor_to_string env net a)))
   \<and> inj (lower_hex env) \<and> (\<forall>b. newline \<notin> set (lower_hex env b))
   \<and> (\<forall>i name. predicate_type_name env i = Some name \<longrightarrow>
        newline \<notin> set name \<and> take 9 name \<noteq> ''unknown (''
      \<and> (\<forall>j. predicate_type_name env j = Some name \<longrightarrow> j = i))
   \<and> (\<forall>k k'. predicate_id env k = predicate_id env k' \<longrightarrow>
        predicate_condition env k = predicate_condition env k' \<longrightarrow> k = k')"

fun action_update :: "multisig_action \<Rightarrow> update_action" where
  "action_update (CancelAction target_id update) = update"
| "action_update (UpdateAction update) = update"

fun update_keys :: "update_action \<Rightarrow> predicate_key set" where
  "update_keys (OlStfVk k) = {k}"
| "update_keys (AsmStfVk k) = {k}"
| "update_keys (EeStfVk k) = {k}"
| "update_keys _ = {}"

definition hash_separates :: "'e admin_env_scheme \<Rightarrow> predicate_key \<Rightarrow> predicate_key \<Rightarrow> bool" where
  "hash_separates env k k' \<longleftrightarrow>
     (condition_hash env (predicate_condition env k) = condition_hash env (predicate_condition env k')
      \<longrightarrow> predicate_condition env k = predicate_condition env k')"

lemma push_detail_inject [simp]: "push_detail a = push_detail b \<longleftrightarrow> a = b"
  by (simp add: push_detail_def)

lemma newline_push [simp]: "newline \<in> set (push_detail a) \<longleftrightarrow> newline \<in> set a"
  by (simp add: push_detail_def)

lemma append_indexed_fields_inject:
  assumes "append_indexed_fields c i vs @ xs = append_indexed_fields c i vs' @ xs'"
  shows "vs = vs' \<and> xs = xs'"
proof -
  have len: "length vs = length vs'"
    using assms by (simp add: append_indexed_fields_def)
  then have maps: "map (\<lambda>(idx, v). push_detail (dec (idx + 1) @ ''. '' @ i @ '': '' @ v)) (enumerate 0 vs)
      = map (\<lambda>(idx, v). push_detail (dec (idx + 1) @ ''. '' @ i @ '': '' @ v)) (enumerate 0 vs')" and "xs = xs'"
    using assms by (simp_all add: append_indexed_fields_def)
  have "vs ! j = vs' ! j" if "j < length vs" for j
    using arg_cong [OF maps, of "\<lambda>l. l ! j"] that len by (simp add: nth_enumerate_eq)
  then show ?thesis using len \<open>xs = xs'\<close> by (simp add: list_eq_iff_nth_eq)
qed

lemma newline_indexed:
  assumes "newline \<notin> set c" and "newline \<notin> set i" and "\<forall>v \<in> set vs. newline \<notin> set v"
    and "l \<in> set (append_indexed_fields c i vs)"
  shows "newline \<notin> set l"
  using assms by (auto simp: append_indexed_fields_def in_set_enumerate_eq)

lemma render_lawsD:
  assumes "render_laws env"
  shows "network_to_string env n = network_to_string env n' \<longleftrightarrow> n = n'"
    and "p2wpkh_to_string env net a = p2wpkh_to_string env net a' \<longleftrightarrow> a = a'"
    and "safe_harbor_to_string env net d = safe_harbor_to_string env net d' \<longleftrightarrow> d = d'"
    and "lower_hex env b = lower_hex env b' \<longleftrightarrow> b = b'"
    and "map (p2wpkh_to_string env net) ms = map (p2wpkh_to_string env net) ms' \<longleftrightarrow> ms = ms'"
    and "map (lower_hex env) ks = map (lower_hex env) ks' \<longleftrightarrow> ks = ks'"
  using assms by (simp_all add: render_laws_def inj_eq inj_map_eq_map)

lemma newline_render_laws:
  assumes "render_laws env"
  shows "newline \<notin> set (network_to_string env n)" and "newline \<notin> set (p2wpkh_to_string env net a)"
    and "newline \<notin> set (safe_harbor_to_string env net d)" and "newline \<notin> set (lower_hex env b)"
    and "predicate_type_name env i = Some name \<Longrightarrow> newline \<notin> set name"
  using assms by (simp_all add: render_laws_def)

lemma map_dec_inject: "map (\<lambda>i :: u32. dec (unat i)) rs = map (\<lambda>i. dec (unat i)) rs' \<longleftrightarrow> rs = rs'"
  by (rule inj_map_eq_map) (simp add: inj_def flip: word_unat_eq_iff)

lemma render_multisig_inject:
  assumes "render_laws env" and "render_multisig env net u = render_multisig env net u'"
  shows "u = u'"
proof -
  let ?f = "map (p2wpkh_to_string env net)"
  have "append_indexed_fields ''Members to Add'' ''Add Member'' (?f (tcu_add_members u))
      @ append_indexed_fields ''Members to Remove'' ''Remove Member'' (?f (tcu_remove_members u)) @ []
    = append_indexed_fields ''Members to Add'' ''Add Member'' (?f (tcu_add_members u'))
      @ append_indexed_fields ''Members to Remove'' ''Remove Member'' (?f (tcu_remove_members u')) @ []" (is "?l = ?r")
    and thr: "tcu_new_threshold u = tcu_new_threshold u'"
    using assms(2) by (simp_all add: render_multisig_def word_unat_eq_iff)
  note both = append_indexed_fields_inject [OF \<open>?l = ?r\<close>]
  then have "?f (tcu_add_members u) = ?f (tcu_add_members u')"
    and "?f (tcu_remove_members u) = ?f (tcu_remove_members u')"
    using append_indexed_fields_inject [OF conjunct2 [OF both]] by simp_all
  then show ?thesis using thr by (simp add: render_lawsD [OF assms(1)])
qed

lemma render_operator_set_inject:
  assumes "render_laws env" and "render_operator_set env as rs = render_operator_set env as' rs'"
  shows "as = as' \<and> rs = rs'"
proof -
  have "append_indexed_fields ''Operators to Add'' ''Add Operator'' (map (lower_hex env) as)
      @ append_indexed_fields ''Operators to Remove'' ''Remove Operator Index'' (map (\<lambda>i. dec (unat i)) rs) @ []
    = append_indexed_fields ''Operators to Add'' ''Add Operator'' (map (lower_hex env) as')
      @ append_indexed_fields ''Operators to Remove'' ''Remove Operator Index'' (map (\<lambda>i. dec (unat i)) rs') @ []" (is "?l = ?r")
    using assms(2) by (simp add: render_operator_set_def)
  note both = append_indexed_fields_inject [OF \<open>?l = ?r\<close>]
  then show ?thesis
    using append_indexed_fields_inject [OF conjunct2 [OF both]] by (simp add: render_lawsD [OF assms(1)] map_dec_inject)
qed

definition type_string :: "'e admin_env_scheme \<Rightarrow> u8 \<Rightarrow> string" where
  "type_string env i = (case predicate_type_name env i of
     Some name \<Rightarrow> name | None \<Rightarrow> ''unknown ('' @ dec (unat i) @ '')'')"

lemma type_string_inject:
  assumes "render_laws env" and "type_string env i = type_string env j"
  shows "i = j"
proof (cases "predicate_type_name env i")
  case None
  show ?thesis
  proof (cases "predicate_type_name env j")
    case None
    then show ?thesis using \<open>predicate_type_name env i = None\<close> assms(2) by (simp add: type_string_def flip: word_unat_eq_iff)
  next
    case (Some name)
    then have "take 9 name \<noteq> ''unknown (''" using assms(1) by (simp add: render_laws_def)
    moreover have "name = ''unknown ('' @ dec (unat i) @ '')''" using None Some assms(2) by (simp add: type_string_def)
    ultimately show ?thesis by simp
  qed
next
  case (Some name)
  have unknown: "take 9 name \<noteq> ''unknown (''" using Some assms(1) by (simp add: render_laws_def)
  show ?thesis
  proof (cases "predicate_type_name env j")
    case None
    then have "name = ''unknown ('' @ dec (unat j) @ '')''" using Some assms(2) by (simp add: type_string_def)
    then show ?thesis using unknown by simp
  next
    case (Some name')
    then have "predicate_type_name env j = Some name"
      using \<open>predicate_type_name env i = Some name\<close> assms(2) by (simp add: type_string_def)
    then show ?thesis using \<open>predicate_type_name env i = Some name\<close> assms(1) unfolding render_laws_def by blast
  qed
qed

lemma render_predicate_inject:
  assumes "render_laws env" and "hash_separates env k k'" and "render_predicate env k = render_predicate env k'"
  shows "k = k'"
proof -
  let ?c = "predicate_condition env"
  have "type_string env (predicate_id env k) = type_string env (predicate_id env k')"
    using assms(3) by (simp add: render_predicate_def type_string_def Let_def)
  then have "predicate_id env k = predicate_id env k'" by (rule type_string_inject [OF assms(1)])
  moreover have "?c k = ?c k'"
    using assms(2,3) by (auto simp: render_predicate_def Let_def render_lawsD [OF assms(1)] hash_separates_def split: if_splits)
  ultimately show ?thesis using assms(1) by (simp add: render_laws_def)
qed

lemma render_update_inject:
  assumes "render_laws env" and "update_type_of u = update_type_of u'"
    and "\<And>k k'. k \<in> update_keys u \<Longrightarrow> k' \<in> update_keys u' \<Longrightarrow> hash_separates env k k'"
    and "render_update env net u = render_update env net u'"
  shows "u = u'"
  using assms(2-4)
  by (cases u; cases u';
      auto dest: render_multisig_inject [OF assms(1)] render_operator_set_inject [OF assms(1)]
        render_predicate_inject [OF assms(1)] simp: render_lawsD [OF assms(1)])

lemma update_name_inject [simp]: "update_name t = update_name t' \<longleftrightarrow> t = t'"
  by (cases t; cases t') simp_all

lemma admin_tx_type_name_inject [simp]: "admin_tx_type_name t = admin_tx_type_name t' \<longleftrightarrow> t = t'"
proof (cases t; cases t')
  fix u u'
  assume "t = UpdateTx u" and "t' = UpdateTx u'"
  then show ?thesis by simp
next
  fix u
  assume "t = CancelTx" and "t' = UpdateTx u"
  then show ?thesis by (cases u) simp_all
next
  fix u
  assume "t = UpdateTx u" and "t' = CancelTx"
  then show ?thesis by (cases u) simp_all
qed simp

lemma newline_names [simp]:
  "newline \<notin> set (update_name t)" "newline \<notin> set (admin_tx_type_name a)" "newline \<notin> set (role_name r)"
proof -
  show *: "newline \<notin> set (update_name t)" for t by (cases t) simp_all
  show "newline \<notin> set (admin_tx_type_name a)" using * by (cases a) simp_all
  show "newline \<notin> set (role_name r)" by (cases r) simp_all
qed

lemma newline_render_update:
  assumes "render_laws env" and "l \<in> set (render_update env net u)"
  shows "newline \<notin> set l"
  using assms(2)
  by (cases u)
     (auto simp: render_multisig_def render_operator_set_def render_predicate_def Let_def newline_render_laws [OF assms(1)]
        dest!: newline_indexed [rotated 3] split: option.splits if_splits)

lemma newline_message_lines:
  assumes "render_laws env" and "l \<in> set (message_lines env a n net)"
  shows "newline \<notin> set l"
proof -
  have "newline \<notin> set l" if "l \<in> set (render_details env net a)"
    using that newline_render_update [OF assms(1)] by (cases a) auto
  then show ?thesis using assms(2)
    by (auto simp: message_lines_def newline_render_laws [OF assms(1)] split: if_splits)
qed

definition sample_hex :: "bytes \<Rightarrow> string" where
  "sample_hex bs = concat (map (\<lambda>b. [char_of (97 + unat b div 16), char_of (97 + unat b mod 16)]) bs)"

definition sample_admin_env :: admin_env where
  "sample_admin_env = ecdsa_env.extend sample_ecdsa_env
     (admin_env.fields (\<lambda>a. Some (map of_char a)) (\<lambda>net a. True)
       (\<lambda>net. case net of Bitcoin \<Rightarrow> ''bitcoin'' | Testnet \<Rightarrow> ''testnet'' | Signet \<Rightarrow> ''signet''
          | Regtest \<Rightarrow> ''regtest'' | OtherNetwork \<Rightarrow> ''testnet4'')
       (\<lambda>net. sample_hex) (\<lambda>net. sample_hex) (\<lambda>k. case k of [] \<Rightarrow> 0 | b # _ \<Rightarrow> b) (\<lambda>k. k)
       (\<lambda>i. if i = 0 then Some ''NeverAccept'' else None) sample_hex (\<lambda>b. b) (map of_char) (\<lambda>w. Some (concat w)) Ok 128
       (\<lambda>b. Err []) (\<lambda>b. Err []) (\<lambda>b. Err []) (\<lambda>b. Err [])
       (\<lambda>b. case b of n # i # k \<Rightarrow> Ok (ucast n, k, [\<lparr>is_index = i, is_signature = [0, 83, i]\<rparr>]) | _ \<Rightarrow> Err [])
       (\<lambda>b. Err []) (\<lambda>b. Err []))"

lemma sample_hex_digits:
  fixes b c :: u8
  shows "newline \<noteq> char_of (97 + unat b div 16)" and "newline \<noteq> char_of (97 + unat b mod 16)"
    and "char_of (97 + unat b div 16) = (char_of (97 + unat c div 16) :: char) \<Longrightarrow>
      char_of (97 + unat b mod 16) = (char_of (97 + unat c mod 16) :: char) \<Longrightarrow> b = c"
proof -
  have bounds: "unat x div 16 < 16" "unat x mod 16 < 16" for x :: u8
  proof -
    have "unat x < 256" using unsigned_less [of x] by simp
    then show "unat x div 16 < 16" and "unat x mod 16 < 16" by simp_all
  qed
  have digit: "of_char (char_of (97 + k) :: char) = (97 + k :: nat)" if "k < 16" for k
    using that by (simp add: of_char_of)
  have "newline \<noteq> char_of (97 + k)" if "k < 16" for k :: nat
  proof
    assume "newline = char_of (97 + k)"
    then have "of_char newline = (97 + k :: nat)" by (simp only: digit [OF that])
    then show False by simp
  qed
  then show "newline \<noteq> char_of (97 + unat b div 16)" and "newline \<noteq> char_of (97 + unat b mod 16)"
    using bounds by blast+
  assume "char_of (97 + unat b div 16) = (char_of (97 + unat c div 16) :: char)"
    and "char_of (97 + unat b mod 16) = (char_of (97 + unat c mod 16) :: char)"
  then have "unat b div 16 = unat c div 16" and "unat b mod 16 = unat c mod 16"
    using digit [OF bounds(1), of b] digit [OF bounds(1), of c] digit [OF bounds(2), of b] digit [OF bounds(2), of c]
    by simp_all
  then have "unat b = unat c" by (metis div_mult_mod_eq)
  then show "b = c" by (simp only: flip: word_unat_eq_iff)
qed

lemma sample_hex_laws: "inj sample_hex" "newline \<notin> set (sample_hex bs)"
proof -
  have "sample_hex as = sample_hex bs \<Longrightarrow> as = bs" for as bs
  proof (induction as arbitrary: bs)
    case Nil
    then show ?case by (cases bs) (simp_all add: sample_hex_def)
  next
    case (Cons a as)
    then obtain b bs' where bs: "bs = b # bs'" by (cases bs) (simp_all add: sample_hex_def)
    then have "a = b" and "sample_hex as = sample_hex bs'"
      using Cons.prems sample_hex_digits(3) [of a b] by (simp_all add: sample_hex_def)
    then show ?case using Cons.IH bs by simp
  qed
  then show "inj sample_hex" by (rule injI)
  show "newline \<notin> set (sample_hex bs)"
    by (induction bs) (use sample_hex_digits(1,2) in \<open>auto simp: sample_hex_def\<close>)
qed

lemmas sample_admin_env_simps = sample_admin_env_def ecdsa_env.defs admin_env.defs sample_ecdsa_env_def

lemma sample_render_laws: "render_laws sample_admin_env"
proof -
  have "inj (network_to_string sample_admin_env)"
    by (rule injI) (auto simp: sample_admin_env_simps split: network.splits)
  then show ?thesis
    by (auto simp: render_laws_def sample_admin_env_simps sample_hex_laws split: network.splits if_splits)
qed

text \<open>C6: what the signing message determines, exactly.  Two actions, at whatever sequence numbers and networks,
  are rendered to the same message if and only if the sequence numbers and the networks are equal and the
  actions are equal, except that two cancels of equal updates may name them by different identifiers,
  which the message does not show.  So a signature cannot be carried over to another chain, sequence
  number or update, nor from a proposal to a cancel; with two equal updates queued, it can from the cancel
  of one to the cancel of the other.  The renderings of networks, addresses and bytes are taken to be
  injective and free of newlines, and the hash of a long predicate to separate the two at hand.\<close>
theorem signing_message_binds_action:
  assumes "render_laws env"
    and "\<And>k k'. k \<in> update_keys (action_update a) \<Longrightarrow> k' \<in> update_keys (action_update a') \<Longrightarrow> hash_separates env k k'"
  shows "for_action env a n net = for_action env a' n' net' \<longleftrightarrow>
    n = n' \<and> net = net' \<and> (a = a' \<or> (\<exists>i i' u. a = CancelAction i u \<and> a' = CancelAction i' u))"
proof
  assume same: "for_action env a n net = for_action env a' n' net'"
  have "message_lines env a n net = message_lines env a' n' net'"
    by (rule join_lines_inject)
       (use same newline_message_lines [OF assms(1)] in \<open>simp_all add: for_action_def message_lines_def\<close>)
  then have *: "n = n'" "net = net'" "action_tx_type a = action_tx_type a'"
    and details: "render_details env net a = render_details env net a'"
    by (auto simp: message_lines_def render_lawsD [OF assms(1)] split: if_splits simp flip: word_unat_eq_iff)
  have "action_update a = action_update a'"
    by (rule render_update_inject [OF assms(1) _ assms(2)]) (use *(3) details in \<open>cases a; cases a'; simp\<close>)+
  then show "n = n' \<and> net = net' \<and> (a = a' \<or> (\<exists>i i' u. a = CancelAction i u \<and> a' = CancelAction i' u))"
    using * by (cases a; cases a') simp_all
qed (auto simp: for_action_def message_lines_def)

theorem signing_message_binds_action_witness:
  "for_action sample_admin_env (CancelAction 3 (OlStfVk [5, 6])) 7 Regtest
     = for_action sample_admin_env (CancelAction 4 (OlStfVk [5, 6])) 7 Regtest
   \<and> for_action sample_admin_env (CancelAction 3 (OlStfVk [5, 6])) 7 Regtest
     \<noteq> for_action sample_admin_env (CancelAction 3 (OlStfVk [5, 7])) 7 Regtest
   \<and> for_action sample_admin_env (UpdateAction (OlStfVk [5, 6])) 7 Regtest
     \<noteq> for_action sample_admin_env (CancelAction 3 (OlStfVk [5, 6])) 7 Regtest
   \<and> for_action sample_admin_env (UpdateAction (OlStfVk [5, 6])) 7 Regtest
     \<noteq> for_action sample_admin_env (UpdateAction (OlStfVk [5, 6])) 8 Regtest"
proof -
  have sep: "hash_separates sample_admin_env k k'" for k k' by (simp add: hash_separates_def sample_admin_env_simps)
  show ?thesis by (simp add: signing_message_binds_action [OF sample_render_laws sep])
qed

text \<open>The transaction type byte.  Decoding inverts encoding, every byte that decodes is the encoding of
  what it decodes to, so the map between known bytes and types is one to one, and a byte that is not
  known is returned as the error; the decade of an update's byte names the role that authorises it.\<close>
theorem admin_tx_type_byte_roundtrip:
  "admin_tx_type_try_from (admin_tx_type_code t) = Ok t
   \<and> (case admin_tx_type_try_from b of Ok t' \<Rightarrow> admin_tx_type_code t' = b
      | Err e \<Rightarrow> e = b \<and> (\<nexists>t'. admin_tx_type_code t' = b))
   \<and> unat (update_tx_type_code u) div 10 = Suc (role_index (authorized_role u))"
proof -
  have enc: "update_tx_type_try_from (update_tx_type_code u) = Ok u" "update_tx_type_code u \<noteq> cancel_tx_type" for u
    by (cases u; simp add: update_tx_type_try_from_def cancel_tx_type_def)+
  have round: "admin_tx_type_try_from (admin_tx_type_code t) = Ok t" for t
    using enc by (cases t) (simp_all add: admin_tx_type_try_from_def)
  have "case admin_tx_type_try_from b of Ok t' \<Rightarrow> admin_tx_type_code t' = b | Err e \<Rightarrow> e = b"
    by (simp add: admin_tx_type_try_from_def update_tx_type_try_from_def)
  moreover have "\<nexists>t'. admin_tx_type_code t' = b" if "admin_tx_type_try_from b = Err e" for e
    using that round by force
  moreover have "unat (update_tx_type_code u) div 10 = Suc (role_index (authorized_role u))"
    by (cases u) simp_all
  ultimately show ?thesis using round by (cases "admin_tx_type_try_from b") simp_all
qed

end
