(* ===== verification/Admin_Subprotocol.thy ===== *)
theory Admin_Subprotocol
  imports Admin_Txs
begin

text \<open>
  The administration subprotocol, \<open>crates/subprotocols/admin/subprotocol/src\<close>: multisig authorities
  and their sequence numbers (\<open>authority.rs\<close>), the queue of accepted updates (\<open>state.rs\<close>,
  \<open>queued_update.rs\<close>), the handler of one action and of the updates that became due (\<open>handler.rs\<close>),
  and the processing of a block (\<open>subprotocol.rs\<close>).  An action that is refused may still have changed
  the state, so the handler returns its result beside the state, the relayer and the block guard.
\<close>

section \<open>State\<close>

datatype administration_error =
    UnknownRole | UnknownAction update_id | UpdateAlreadyAcceptedInBlock update_tx_type
  | ActivationHeightOverflow u32 u16 | InvalidSeqno role u64 u64 | SeqnoGapTooLarge role u64 u64 u8
  | ThresholdSignature threshold_signature_error

record multisig_authority =
  ma_role :: role
  ma_config :: threshold_config
  ma_last_seqno :: u64

record queued_update =
  qu_id :: update_id
  qu_action :: update_action
  qu_activation_height :: u32

record admin_state =
  as_authorities :: "multisig_authority list"
  as_queued :: "queued_update list"
  as_next_update_id :: update_id
  as_confirmation_depths :: confirmation_depths
  as_max_seqno_gap :: u8

definition authority_new :: "role \<Rightarrow> threshold_config \<Rightarrow> multisig_authority" where
  "authority_new r config = \<lparr>ma_role = r, ma_config = config, ma_last_seqno = 0\<rparr>"

definition verify_action_signature ::
  "'e admin_env_scheme \<Rightarrow> signed_payload \<Rightarrow> u8 \<Rightarrow> network \<Rightarrow> multisig_authority \<Rightarrow> (administration_error, u64) result" where
  "verify_action_signature env payload max_seqno_gap net self =
     (if sp_seqno payload \<le> ma_last_seqno self
      then Err (InvalidSeqno (ma_role self) (sp_seqno payload) (ma_last_seqno self))
      else if ma_last_seqno self + ucast max_seqno_gap < sp_seqno payload
      then Err (SeqnoGapTooLarge (ma_role self) (sp_seqno payload) (ma_last_seqno self) max_seqno_gap)
      else
        let message_hash = compute_sighash env (for_action env (sp_action payload) (sp_seqno payload) net)
        in res_bind (map_err ThresholdSignature
               (verify_threshold_signatures env (ma_config self) (sp_signatures payload) message_hash))
             (\<lambda>_. Ok (sp_seqno payload)))"

definition update_last_seqno :: "u64 \<Rightarrow> multisig_authority \<Rightarrow> multisig_authority" where
  "update_last_seqno seqno self = self\<lparr>ma_last_seqno := seqno\<rparr>"

fun resolve_authorities ::
  "'e admin_env_scheme \<Rightarrow> (role \<times> unchecked_threshold_config) list \<Rightarrow> multisig_authority list option" where
  "resolve_authorities env [] = Some []"
| "resolve_authorities env ((r, signers) # rest) =
     (case threshold_config_try_from env signers of
        Err _ \<Rightarrow> None
      | Ok config \<Rightarrow> map_option ((#) (authority_new r config)) (resolve_authorities env rest))"

definition admin_new :: "'e admin_env_scheme \<Rightarrow> administration_init_config \<Rightarrow> admin_state option" where
  "admin_new env config =
     map_option
       (\<lambda>authorities. \<lparr>as_authorities = authorities, as_queued = [], as_next_update_id = 0,
          as_confirmation_depths = aic_confirmation_depths config, as_max_seqno_gap = aic_max_seqno_gap config\<rparr>)
       (resolve_authorities env (signer_configs config))"

definition confirmation_depth :: "update_tx_type \<Rightarrow> admin_state \<Rightarrow> u16 option" where
  "confirmation_depth tx_type self = cd_get tx_type (as_confirmation_depths self)"

fun resolve_action_role :: "multisig_action \<Rightarrow> role" where
  "resolve_action_role (UpdateAction update) = update_required_role update"
| "resolve_action_role (CancelAction target_id update) = update_required_role update"

definition authority :: "role \<Rightarrow> admin_state \<Rightarrow> multisig_authority option" where
  "authority r self = slice_get (as_authorities self) (role_index r)"

definition set_authority :: "role \<Rightarrow> multisig_authority \<Rightarrow> admin_state \<Rightarrow> admin_state" where
  "set_authority r a self = self\<lparr>as_authorities := (as_authorities self)[role_index r := a]\<rparr>"

definition apply_multisig_update ::
  "role \<Rightarrow> threshold_config_update \<Rightarrow> admin_state \<Rightarrow> (administration_error, unit) result \<times> admin_state" where
  "apply_multisig_update r update self =
     (case authority r self of
        None \<Rightarrow> (Err UnknownRole, self)
      | Some auth \<Rightarrow>
         (case apply_update update (ma_config auth) of
            Err e \<Rightarrow> (Err (ThresholdSignature e), self)
          | Ok config \<Rightarrow> (Ok (), set_authority r (auth\<lparr>ma_config := config\<rparr>) self)))"

definition find_queued :: "update_id \<Rightarrow> admin_state \<Rightarrow> queued_update option" where
  "find_queued i self = List.find (\<lambda>u. qu_id u = i) (as_queued self)"

definition enqueue :: "queued_update \<Rightarrow> admin_state \<Rightarrow> admin_state" where
  "enqueue update self = self\<lparr>as_queued := as_queued self @ [update]\<rparr>"

definition remove_queued :: "update_id \<Rightarrow> admin_state \<Rightarrow> admin_state" where
  "remove_queued i self =
     (case position (\<lambda>u. qu_id u = i) (as_queued self) of
        None \<Rightarrow> self
      | Some j \<Rightarrow> self\<lparr>as_queued := remove_at j (as_queued self)\<rparr>)"

definition increment_next_update_id :: "admin_state \<Rightarrow> admin_state" where
  "increment_next_update_id self = self\<lparr>as_next_update_id := as_next_update_id self + 1\<rparr>"

definition process_queued :: "u32 \<Rightarrow> admin_state \<Rightarrow> queued_update list \<times> admin_state" where
  "process_queued current_height self =
     (let (ready, rest) = partition (\<lambda>u. qu_activation_height u \<le> current_height) (as_queued self)
      in (ready, self\<lparr>as_queued := rest\<rparr>))"

section \<open>Handling\<close>

record block_update_guard =
  bug_accepted :: "update_tx_type list"

definition admit :: "update_tx_type \<Rightarrow> block_update_guard \<Rightarrow> (administration_error, block_update_guard) result" where
  "admit tx_type self =
     (if tx_type \<notin> {OlStfVkUpdate, EeStfVkUpdate} then Ok self
      else if tx_type \<in> set (bug_accepted self) then Err (UpdateAlreadyAcceptedInBlock tx_type)
      else Ok (self\<lparr>bug_accepted := bug_accepted self @ [tx_type]\<rparr>))"

definition relay_alpen_predicate_update :: "'e admin_env_scheme \<Rightarrow> predicate_key \<Rightarrow> relayer \<Rightarrow> relayer" where
  "relay_alpen_predicate_update env key = emit_log (EePredicateKeyUpdate (system_reserved_accts env) key)"

definition relay_checkpoint_sequencer_update :: "buf32 \<Rightarrow> relayer \<Rightarrow> relayer" where
  "relay_checkpoint_sequencer_update new_key = relay_msg (CheckpointMsg (UpdateSequencerKey new_key))"

definition relay_checkpoint_predicate_update :: "predicate_key \<Rightarrow> relayer \<Rightarrow> relayer" where
  "relay_checkpoint_predicate_update predicate r =
     emit_log (CheckpointPredicateEnacted predicate) (relay_msg (CheckpointMsg (UpdateCheckpointPredicate predicate)) r)"

definition relay_bridge_operator_set_update :: "pubkey list \<Rightarrow> u32 list \<Rightarrow> relayer \<Rightarrow> relayer" where
  "relay_bridge_operator_set_update add_members remove_members =
     relay_msg (BridgeMsg (UpdateOperatorSet add_members remove_members))"

definition relay_bridge_defcon :: "relayer \<Rightarrow> relayer" where
  "relay_bridge_defcon = relay_msg (BridgeMsg Defcon)"

definition relay_bridge_safe_harbor_address_update :: "safe_harbor_address \<Rightarrow> relayer \<Rightarrow> relayer" where
  "relay_bridge_safe_harbor_address_update address = relay_msg (BridgeMsg (UpdateSafeHarborAddress address))"

definition with_relayer ::
  "relayer \<Rightarrow> (administration_error, unit) result \<times> admin_state
     \<Rightarrow> (administration_error, unit) result \<times> admin_state \<times> relayer" where
  "with_relayer r x = (fst x, snd x, r)"

fun handle_update ::
  "'e admin_env_scheme \<Rightarrow> admin_state \<Rightarrow> relayer \<Rightarrow> update_action
     \<Rightarrow> (administration_error, unit) result \<times> admin_state \<times> relayer" where
  "handle_update env s r (StrataAdminMultisig u) = with_relayer r (apply_multisig_update StrataAdministrator u s)"
| "handle_update env s r (StrataSeqManagerMultisig u) = with_relayer r (apply_multisig_update StrataSequencerManager u s)"
| "handle_update env s r (AlpenAdminMultisig u) = with_relayer r (apply_multisig_update AlpenAdministrator u s)"
| "handle_update env s r (StrataSecurityCouncilMultisig u) = with_relayer r (apply_multisig_update StrataSecurityCouncil u s)"
| "handle_update env s r (OperatorSet add_members remove_members) =
     (Ok (), s, relay_bridge_operator_set_update add_members remove_members r)"
| "handle_update env s r (Sequencer new_key) = (Ok (), s, relay_checkpoint_sequencer_update new_key r)"
| "handle_update env s r (OlStfVk key) = (Ok (), s, relay_checkpoint_predicate_update key r)"
| "handle_update env s r (AsmStfVk key) = (Ok (), s, emit_log (AsmStfUpdate key) r)"
| "handle_update env s r (EeStfVk key) = (Ok (), s, relay_alpen_predicate_update env key r)"
| "handle_update env s r Defcon1 = (Ok (), s, relay_bridge_defcon r)"
| "handle_update env s r Defcon3 = (Ok (), s, relay_bridge_defcon r)"
| "handle_update env s r (SafeHarborAddress address) = (Ok (), s, relay_bridge_safe_harbor_address_update address r)"

fun enact_updates :: "'e admin_env_scheme \<Rightarrow> queued_update list \<Rightarrow> admin_state \<Rightarrow> relayer \<Rightarrow> admin_state \<times> relayer" where
  "enact_updates env [] s r = (s, r)"
| "enact_updates env (queued # rest) s r =
     (let (_, s, r) = handle_update env s r (qu_action queued) in enact_updates env rest s r)"

definition handle_pending_updates ::
  "'e admin_env_scheme \<Rightarrow> u32 \<Rightarrow> admin_state \<Rightarrow> relayer \<Rightarrow> admin_state \<times> relayer" where
  "handle_pending_updates env current_height s r =
     (let (queued_updates, s) = process_queued current_height s in enact_updates env queued_updates s r)"

type_synonym action_outcome =
  "(administration_error, unit) result \<times> admin_state \<times> relayer \<times> block_update_guard"

definition accept_update ::
  "'e admin_env_scheme \<Rightarrow> update_action \<Rightarrow> u32 \<Rightarrow> admin_state \<Rightarrow> relayer \<Rightarrow> block_update_guard \<Rightarrow> action_outcome" where
  "accept_update env update current_height s r guard =
     (let tx_type = update_type_of update in
      case admit tx_type guard of
        Err e \<Rightarrow> (Err e, s, r, guard)
      | Ok guard \<Rightarrow>
         (case confirmation_depth tx_type s of
            Some delay \<Rightarrow>
              (case checked_add current_height (ucast delay) of
                 None \<Rightarrow> (Err (ActivationHeightOverflow current_height delay), s, r, guard)
               | Some activation_height \<Rightarrow>
                   (Ok (), increment_next_update_id
                      (enqueue \<lparr>qu_id = as_next_update_id s, qu_action = update,
                                qu_activation_height = activation_height\<rparr> s), r, guard))
          | None \<Rightarrow>
              (let (_, s, r) = handle_update env s r update
               in (Ok (), increment_next_update_id s, r, guard))))"

definition handle_action ::
  "'e admin_env_scheme \<Rightarrow> envelope_payload \<Rightarrow> u32 \<Rightarrow> network \<Rightarrow> admin_state \<Rightarrow> relayer \<Rightarrow> block_update_guard \<Rightarrow> action_outcome" where
  "handle_action env payload current_height net s r guard =
     (case resolve payload (\<lambda>i. map_option qu_action (find_queued i s)) of
        Err target_id \<Rightarrow> (Err (UnknownAction target_id), s, r, guard)
      | Ok payload \<Rightarrow>
         (let rl = resolve_action_role (sp_action payload) in
          case authority rl s of
            None \<Rightarrow> (Err UnknownRole, s, r, guard)
          | Some auth \<Rightarrow>
             (case verify_action_signature env payload (as_max_seqno_gap s) net auth of
                Err e \<Rightarrow> (Err e, s, r, guard)
              | Ok seqno \<Rightarrow>
                 (let s = set_authority rl (update_last_seqno seqno auth) s in
                  case sp_action payload of
                    UpdateAction update \<Rightarrow> accept_update env update current_height s r guard
                  | CancelAction target_id update \<Rightarrow> (Ok (), remove_queued target_id s, r, guard)))))"

fun admin_handle_txs ::
  "'e admin_env_scheme \<Rightarrow> u32 \<Rightarrow> network \<Rightarrow> tx_input_ref list \<Rightarrow> admin_state \<Rightarrow> relayer \<Rightarrow> block_update_guard
     \<Rightarrow> admin_state \<times> relayer \<times> block_update_guard" where
  "admin_handle_txs env current_height net [] s r guard = (s, r, guard)"
| "admin_handle_txs env current_height net (tx # txs) s r guard =
     (case parse_admin_tx env tx of
        None \<Rightarrow> admin_handle_txs env current_height net txs s r guard
      | Some payload \<Rightarrow>
         (let (_, s, r, guard) = handle_action env payload current_height net s r guard
          in admin_handle_txs env current_height net txs s r guard))"

definition admin_process_txs ::
  "'e admin_env_scheme \<Rightarrow> header_verification_state \<Rightarrow> tx_input_ref list \<Rightarrow> admin_state \<Rightarrow> relayer \<Rightarrow> admin_state \<times> relayer" where
  "admin_process_txs env header_vs txs s r =
     (let current_height = l1_block_height (hvs_last_verified_block header_vs);
          net = hvs_network header_vs;
          (s, r) = handle_pending_updates env current_height s r;
          (s, r, _) = admin_handle_txs env current_height net txs s r \<lparr>bug_accepted = []\<rparr>
      in (s, r))"

section \<open>Invariant\<close>

text \<open>What an enacted update relays and logs.\<close>

fun update_msgs :: "update_action \<Rightarrow> interproto_msg list" where
  "update_msgs (OperatorSet a m) = [BridgeMsg (UpdateOperatorSet a m)]"
| "update_msgs (Sequencer k) = [CheckpointMsg (UpdateSequencerKey k)]"
| "update_msgs (OlStfVk k) = [CheckpointMsg (UpdateCheckpointPredicate k)]"
| "update_msgs Defcon1 = [BridgeMsg Defcon]"
| "update_msgs Defcon3 = [BridgeMsg Defcon]"
| "update_msgs (SafeHarborAddress a) = [BridgeMsg (UpdateSafeHarborAddress a)]"
| "update_msgs _ = []"

fun update_logs :: "'e admin_env_scheme \<Rightarrow> update_action \<Rightarrow> asm_log list" where
  "update_logs env (OlStfVk k) = [CheckpointPredicateEnacted k]"
| "update_logs env (AsmStfVk k) = [AsmStfUpdate k]"
| "update_logs env (EeStfVk k) = [EePredicateKeyUpdate (system_reserved_accts env) k]"
| "update_logs env _ = []"

definition relayed :: "'e admin_env_scheme \<Rightarrow> update_action list \<Rightarrow> relayer \<Rightarrow> relayer" where
  "relayed env us r = r\<lparr>rl_msgs := rl_msgs r @ concat (map update_msgs us),
                        rl_logs := rl_logs r @ concat (map (update_logs env) us)\<rparr>"

lemma relayed_Nil [simp]: "relayed env [] r = r"
  by (simp add: relayed_def)

lemma relayed_append: "relayed env (us @ vs) r = relayed env vs (relayed env us r)"
  by (simp add: relayed_def)

fun update_ok :: "update_action \<Rightarrow> bool" where
  "update_ok (StrataAdminMultisig u) = (0 < tcu_new_threshold u)"
| "update_ok (StrataSeqManagerMultisig u) = (0 < tcu_new_threshold u)"
| "update_ok (AlpenAdminMultisig u) = (0 < tcu_new_threshold u)"
| "update_ok (StrataSecurityCouncilMultisig u) = (0 < tcu_new_threshold u)"
| "update_ok _ = True"

definition nonzero_thresholds :: "'e admin_env_scheme \<Rightarrow> bool" where
  "nonzero_thresholds env \<longleftrightarrow>
     (\<forall>b n u sigs. decode_multisig_wire env b = Ok (n, u, sigs) \<longrightarrow> 0 < tcu_new_threshold u)"

definition authorities_ok :: "admin_state \<Rightarrow> bool" where
  "authorities_ok s \<longleftrightarrow>
     map ma_role (as_authorities s) = [StrataAdministrator, StrataSequencerManager, AlpenAdministrator, StrataSecurityCouncil]
   \<and> (\<forall>a \<in> set (as_authorities s). config_inv (ma_config a))"

definition exclusive :: "update_tx_type set" where
  "exclusive = {OlStfVkUpdate, EeStfVkUpdate}"

definition queued_of :: "update_tx_type \<Rightarrow> admin_state \<Rightarrow> queued_update list" where
  "queued_of t s = filter (\<lambda>u. update_type_of (qu_action u) = t) (as_queued s)"

text \<open>The queue in a block of height \<open>h\<close> in which the exclusive types \<open>g\<close> have been accepted so far.\<close>

definition lane_ok :: "nat \<Rightarrow> update_tx_type set \<Rightarrow> update_tx_type \<Rightarrow> admin_state \<Rightarrow> bool" where
  "lane_ok h g t s \<longleftrightarrow>
     distinct (map qu_activation_height (queued_of t s))
   \<and> (\<forall>u \<in> set (queued_of t s). \<exists>d. confirmation_depth t s = Some d
        \<and> unat (qu_activation_height u) < h + unat d + of_bool (t \<in> g))"

definition queue_ok :: "nat \<Rightarrow> update_tx_type set \<Rightarrow> admin_state \<Rightarrow> bool" where
  "queue_ok h g s \<longleftrightarrow>
     distinct (map qu_id (as_queued s))
   \<and> (\<forall>u \<in> set (as_queued s). qu_id u < as_next_update_id s \<and> h < unat (qu_activation_height u) \<and> update_ok (qu_action u))
   \<and> (\<forall>t \<in> exclusive. lane_ok h g t s)"

definition admin_inv :: "nat \<Rightarrow> admin_state \<Rightarrow> bool" where
  "admin_inv h s \<longleftrightarrow> authorities_ok s \<and> queue_ok h exclusive s"

definition seqno_of :: "role \<Rightarrow> admin_state \<Rightarrow> nat" where
  "seqno_of rl s = (case authority rl s of Some a \<Rightarrow> unat (ma_last_seqno a) | None \<Rightarrow> 0)"

lemma authority_some:
  assumes "authorities_ok s"
  obtains a where "authority rl s = Some a" "ma_role a = rl" "config_inv (ma_config a)" "a = as_authorities s ! role_index rl"
    "role_index rl < length (as_authorities s)"
proof -
  have len: "length (as_authorities s) = 4" using assms by (auto simp: authorities_ok_def dest: arg_cong [of _ _ length])
  have i: "role_index rl < 4" by (cases rl) simp_all
  have "map ma_role (as_authorities s) ! role_index rl = rl"
    using assms by (cases rl) (simp_all add: authorities_ok_def)
  then have "ma_role (as_authorities s ! role_index rl) = rl" using i len by simp
  moreover have "config_inv (ma_config (as_authorities s ! role_index rl))"
    using assms i len by (simp add: authorities_ok_def)
  ultimately show ?thesis using that i len by (simp add: authority_def slice_get_def)
qed

lemma role_index_inject [simp]: "role_index a = role_index b \<longleftrightarrow> a = b"
  by (cases a; cases b) simp_all

lemma authority_set_authority:
  assumes "authority rl s = Some a"
  shows "authority rl' (set_authority rl b s) = (if rl' = rl then Some b else authority rl' s)"
  using assms by (auto simp: authority_def set_authority_def slice_get_def split: if_splits)

lemma set_authority_frame [simp]:
  "as_queued (set_authority rl a s) = as_queued s" "as_next_update_id (set_authority rl a s) = as_next_update_id s"
  "as_confirmation_depths (set_authority rl a s) = as_confirmation_depths s"
  "as_max_seqno_gap (set_authority rl a s) = as_max_seqno_gap s"
  by (simp_all add: set_authority_def)

lemma authorities_ok_set:
  assumes "authorities_ok s" and "ma_role a = rl" and "config_inv (ma_config a)"
  shows "authorities_ok (set_authority rl a s)"
proof -
  obtain b where b: "ma_role b = rl" "b = as_authorities s ! role_index rl" "role_index rl < length (as_authorities s)"
    using authority_some [OF assms(1)] by blast
  then have "(map ma_role (as_authorities s))[role_index rl := rl] = map ma_role (as_authorities s)"
    by (metis list_update_id nth_map)
  then show ?thesis using assms
    by (auto simp: authorities_ok_def set_authority_def map_update dest!: set_update_subset_insert [THEN subsetD])
qed

lemma queue_ok_cong:
  assumes "as_queued s' = as_queued s" and "as_next_update_id s' = as_next_update_id s"
    and "as_confirmation_depths s' = as_confirmation_depths s"
  shows "queue_ok h g s' \<longleftrightarrow> queue_ok h g s"
  using assms by (simp add: queue_ok_def lane_ok_def queued_of_def confirmation_depth_def)

lemma handle_update_relayer: "snd (snd (handle_update env s r u)) = relayed env [u] r"
  by (cases u) (simp_all add: relayed_def with_relayer_def relay_bridge_operator_set_update_def
      relay_checkpoint_sequencer_update_def relay_checkpoint_predicate_update_def relay_alpen_predicate_update_def
      relay_bridge_defcon_def relay_bridge_safe_harbor_address_update_def relay_msg_def emit_log_def)

lemma apply_multisig_update_frame:
  assumes "authorities_ok s" and "0 < tcu_new_threshold u" and "apply_multisig_update rl u s = (res, s')"
  shows "authorities_ok s' \<and> as_queued s' = as_queued s \<and> as_next_update_id s' = as_next_update_id s
    \<and> as_confirmation_depths s' = as_confirmation_depths s \<and> seqno_of rl' s' = seqno_of rl' s"
proof -
  obtain a where a: "authority rl s = Some a" "ma_role a = rl" "config_inv (ma_config a)"
    using authority_some [OF assms(1)] by blast
  show ?thesis
  proof (cases "apply_update u (ma_config a)")
    case (Inl e)
    then show ?thesis using assms a by (simp add: apply_multisig_update_def)
  next
    case (Inr c)
    have "config_inv c" using apply_update_spec(1) [OF _ assms(2) Inr] a(3) by (simp add: config_inv_def)
    moreover have s': "s' = set_authority rl (a\<lparr>ma_config := c\<rparr>) s" using assms(3) a Inr by (simp add: apply_multisig_update_def)
    ultimately show ?thesis using authorities_ok_set [OF assms(1), of "a\<lparr>ma_config := c\<rparr>" rl] a
      by (simp add: seqno_of_def authority_set_authority [OF a(1)])
  qed
qed

lemma handle_update_frame:
  assumes "authorities_ok s" and "update_ok u" and "handle_update env s r u = (res, s', r')"
  shows "authorities_ok s' \<and> as_queued s' = as_queued s \<and> as_next_update_id s' = as_next_update_id s
    \<and> as_confirmation_depths s' = as_confirmation_depths s \<and> seqno_of rl s' = seqno_of rl s \<and> r' = relayed env [u] r"
proof -
  have r': "r' = relayed env [u] r" using handle_update_relayer [of env s r u] assms(3) by simp
  show ?thesis
    using assms r' apply_multisig_update_frame [OF assms(1)]
    by (cases u) (auto simp: with_relayer_def prod_eq_iff)
qed

lemma enact_updates_frame:
  assumes "authorities_ok s" and "\<forall>q \<in> set qs. update_ok (qu_action q)" and "enact_updates env qs s r = (s', r')"
  shows "authorities_ok s' \<and> as_queued s' = as_queued s \<and> as_next_update_id s' = as_next_update_id s
    \<and> as_confirmation_depths s' = as_confirmation_depths s \<and> seqno_of rl s' = seqno_of rl s
    \<and> r' = relayed env (map qu_action qs) r"
  using assms
proof (induction qs arbitrary: s r)
  case (Cons q qs)
  obtain res s1 r1 where step: "handle_update env s r (qu_action q) = (res, s1, r1)" by (metis surj_pair)
  have f: "authorities_ok s1 \<and> as_queued s1 = as_queued s \<and> as_next_update_id s1 = as_next_update_id s
    \<and> as_confirmation_depths s1 = as_confirmation_depths s \<and> seqno_of rl s1 = seqno_of rl s
    \<and> r1 = relayed env [qu_action q] r"
    by (rule handle_update_frame [OF _ _ step]) (use Cons.prems in simp_all)
  show ?case using Cons.IH [of s1 r1] Cons.prems step f relayed_append [of env "[qu_action q]" "map qu_action qs" r] by simp
qed simp

lemma queue_ok_filter:
  assumes "queue_ok h g s" and "as_queued s' = filter p (as_queued s)" and "as_next_update_id s' = as_next_update_id s"
    and "as_confirmation_depths s' = as_confirmation_depths s"
  shows "queue_ok h g s'"
proof -
  have of: "queued_of t s' = filter p (queued_of t s)" for t
    using assms(2) by (simp add: queued_of_def conj_commute)
  have depth: "confirmation_depth t s' = confirmation_depth t s" for t
    using assms(4) by (simp add: confirmation_depth_def)
  show ?thesis using assms(1) unfolding queue_ok_def lane_ok_def of depth assms(2,3)
    by (simp add: distinct_map_filter)
qed

lemma queue_ok_next_height:
  assumes "queue_ok h exclusive s" and "\<forall>u \<in> set (as_queued s). Suc h < unat (qu_activation_height u)"
  shows "queue_ok (Suc h) {} s"
proof -
  have "lane_ok (Suc h) {} t s" if "t \<in> exclusive" for t
    using assms(1) that by (simp add: queue_ok_def lane_ok_def)
  then show ?thesis using assms by (simp add: queue_ok_def)
qed

lemma exclusive_ready_once:
  assumes "queue_ok h exclusive s" and "t \<in> exclusive"
  shows "length (filter (\<lambda>u. update_type_of (qu_action u) = t \<and> unat (qu_activation_height u) \<le> Suc h) (as_queued s)) \<le> 1"
proof -
  let ?q = "filter (\<lambda>u. unat (qu_activation_height u) \<le> Suc h) (queued_of t s)"
  have d: "distinct (map qu_activation_height ?q)"
    using assms by (auto simp: queue_ok_def lane_ok_def intro!: distinct_map_filter)
  have "unat (qu_activation_height u) = Suc h" if "u \<in> set ?q" for u
    using that assms(1) by (force simp: queue_ok_def queued_of_def)
  then have "card (set (map qu_activation_height ?q)) \<le> Suc 0"
    by (subst card_le_Suc0_iff_eq) (auto simp: word_unat_eq_iff, metis)
  then have "length (map qu_activation_height ?q) \<le> 1" using distinct_card [OF d] by (simp only: One_nat_def)
  then show ?thesis by (simp add: queued_of_def conj_commute)
qed

lemma handle_pending_updates_spec:
  assumes inv: "admin_inv h s" and height: "unat height = Suc h"
    and run: "handle_pending_updates env height s r = (s1, r1)"
    and ready: "ready = filter (\<lambda>u. qu_activation_height u \<le> height) (as_queued s)"
  shows "authorities_ok s1" and "queue_ok (Suc h) {} s1" and "as_next_update_id s1 = as_next_update_id s"
    and "as_confirmation_depths s1 = as_confirmation_depths s" and "seqno_of rl s1 = seqno_of rl s"
    and "r1 = relayed env (map qu_action ready) r"
    and "as_queued s1 = filter (\<lambda>u. \<not> qu_activation_height u \<le> height) (as_queued s)"
proof -
  let ?s = "s\<lparr>as_queued := filter (\<lambda>u. \<not> qu_activation_height u \<le> height) (as_queued s)\<rparr>"
  have ok: "authorities_ok s" "queue_ok h exclusive s" using inv by (simp_all add: admin_inv_def)
  have enact: "enact_updates env ready ?s r = (s1, r1)"
    using run ready by (simp add: handle_pending_updates_def process_queued_def Let_def comp_def)
  have "authorities_ok ?s" using ok(1) by (simp add: authorities_ok_def)
  moreover have "\<forall>q \<in> set ready. update_ok (qu_action q)" using ok(2) ready by (simp add: queue_ok_def)
  ultimately have f: "authorities_ok s1 \<and> as_queued s1 = as_queued ?s \<and> as_next_update_id s1 = as_next_update_id ?s
    \<and> as_confirmation_depths s1 = as_confirmation_depths ?s \<and> seqno_of rl s1 = seqno_of rl ?s
    \<and> r1 = relayed env (map qu_action ready) r" for rl
    using enact_updates_frame [OF _ _ enact] by simp
  have "queue_ok h exclusive s1" by (rule queue_ok_filter [OF ok(2)]) (use f in simp_all)
  then show "queue_ok (Suc h) {} s1"
    by (rule queue_ok_next_height) (use f height in \<open>simp add: word_le_nat_alt\<close>)
  show "authorities_ok s1" and "as_next_update_id s1 = as_next_update_id s"
    and "as_confirmation_depths s1 = as_confirmation_depths s" and "seqno_of rl s1 = seqno_of rl s"
    and "r1 = relayed env (map qu_action ready) r"
    and "as_queued s1 = filter (\<lambda>u. \<not> qu_activation_height u \<le> height) (as_queued s)"
    using f by (simp_all add: seqno_of_def authority_def)
qed

lemma remove_at_position_filter:
  assumes "distinct (map f xs)"
  shows "(case position (\<lambda>x. f x = i) xs of None \<Rightarrow> xs | Some j \<Rightarrow> remove_at j xs) = filter (\<lambda>x. f x \<noteq> i) xs"
  using assms
proof (induction xs)
  case (Cons x xs)
  show ?case
  proof (cases "f x = i")
    case True
    then have "filter (\<lambda>y. f y \<noteq> i) xs = xs" using Cons.prems by (auto simp: filter_id_conv) (metis image_eqI)
    then show ?thesis using True by (simp add: remove_at_def)
  next
    case False
    then show ?thesis using Cons by (cases "position (\<lambda>x. f x = i) xs") (simp_all add: remove_at_def)
  qed
qed simp

lemma remove_queued_filter:
  assumes "queue_ok h g s"
  shows "remove_queued i s = s\<lparr>as_queued := filter (\<lambda>u. qu_id u \<noteq> i) (as_queued s)\<rparr>"
proof -
  have "distinct (map qu_id (as_queued s))" using assms by (simp add: queue_ok_def)
  from remove_at_position_filter [OF this, of i] show ?thesis
    by (cases "position (\<lambda>u. qu_id u = i) (as_queued s)") (simp_all add: remove_queued_def)
qed

lemma unat_ucast_u16_u32 [simp]: "unat (ucast (d :: u16) :: u32) = unat d"
proof -
  have "unat d < 2 ^ 16" using unsigned_less [of d] by simp
  then have "unat d < 2 ^ 32" by simp
  then show ?thesis by (simp add: unsigned_ucast_eq take_bit_nat_eq_self)
qed

lemma lane_ok_mono:
  assumes "lane_ok h g t s" and "g \<subseteq> g'"
  shows "lane_ok h g' t s"
  unfolding lane_ok_def
proof (intro conjI ballI)
  show "distinct (map qu_activation_height (queued_of t s))" using assms(1) by (simp add: lane_ok_def)
  fix u
  assume "u \<in> set (queued_of t s)"
  then obtain d where d: "confirmation_depth t s = Some d" "unat (qu_activation_height u) < h + unat d + of_bool (t \<in> g)"
    using assms(1) unfolding lane_ok_def by blast
  moreover have "of_bool (t \<in> g) \<le> (of_bool (t \<in> g') :: nat)" using assms(2) by auto
  ultimately show "\<exists>d. confirmation_depth t s = Some d \<and> unat (qu_activation_height u) < h + unat d + of_bool (t \<in> g')"
    by (intro exI [of _ d]) linarith
qed

lemma queue_ok_mono: "queue_ok h g s \<Longrightarrow> g \<subseteq> g' \<Longrightarrow> queue_ok h g' s"
  by (auto simp: queue_ok_def intro: lane_ok_mono)

lemma admit_OkD:
  assumes "admit t g = Ok g'"
  shows "set (bug_accepted g) \<subseteq> set (bug_accepted g')"
    and "t \<in> exclusive \<Longrightarrow> t \<notin> set (bug_accepted g) \<and> set (bug_accepted g') = insert t (set (bug_accepted g))"
    and "t \<notin> exclusive \<Longrightarrow> g' = g"
  using assms by (auto simp: admit_def exclusive_def split: if_splits)

lemma queue_ok_enqueue:
  assumes ok: "queue_ok (unat height) (set (bug_accepted g)) s" and "update_ok u"
    and depth: "confirmation_depth (update_type_of u) s = Some d" and "checked_add height (ucast d) = Some act"
    and g': "admit (update_type_of u) g = Ok g'" and wrap: "Suc (unat (as_next_update_id s)) < 2 ^ 32"
    and s': "s' = increment_next_update_id (enqueue \<lparr>qu_id = as_next_update_id s, qu_action = u, qu_activation_height = act\<rparr> s)"
  shows "queue_ok (unat height) (set (bug_accepted g')) s'" and "unat (as_next_update_id s') = Suc (unat (as_next_update_id s))"
proof -
  let ?q = "\<lparr>qu_id = as_next_update_id s, qu_action = u, qu_activation_height = act\<rparr>"
  let ?h = "unat height" and ?t = "update_type_of u"
  have d0: "0 < unat d" using depth by (auto simp: confirmation_depth_def cd_get_def Let_def unat_gt_0 split: if_splits)
  have act: "unat act = ?h + unat d" using checked_add_SomeD(2) [OF assms(4)] by (simp add: unat_ucast_u16_u32)
  show id: "unat (as_next_update_id s') = Suc (unat (as_next_update_id s))"
    using wrap by (simp add: s' increment_next_update_id_def enqueue_def unat_word_ariths)
  have q': "as_queued s' = as_queued s @ [?q]" and dep: "confirmation_depth t s' = confirmation_depth t s" for t
    by (simp_all add: s' increment_next_update_id_def enqueue_def confirmation_depth_def)
  have of: "queued_of t s' = queued_of t s @ (if t = ?t then [?q] else [])" for t
    by (simp add: queued_of_def q')
  have ids: "\<forall>v \<in> set (as_queued s). qu_id v < as_next_update_id s" using ok by (simp add: queue_ok_def)
  have mono: "queue_ok ?h (set (bug_accepted g')) s" by (rule queue_ok_mono [OF ok admit_OkD(1) [OF g']])
  have lanes: "lane_ok ?h (set (bug_accepted g')) t s'" if t: "t \<in> exclusive" for t
  proof (cases "t = ?t")
    case False
    then show ?thesis using mono t by (simp add: queue_ok_def lane_ok_def of dep)
  next
    case True
    note A = admit_OkD(2) [OF g', folded True, OF t]
    have lane: "lane_ok ?h (set (bug_accepted g)) t s" using ok t by (simp add: queue_ok_def)
    have less: "unat (qu_activation_height v) < ?h + unat d" if "v \<in> set (queued_of t s)" for v
      using lane that A depth True by (auto simp: lane_ok_def)
    then have "act \<notin> qu_activation_height ` set (queued_of t s)" using act by force
    then show ?thesis using lane less A depth act True by (auto simp: lane_ok_def of dep less_SucI)
  qed
  show "queue_ok ?h (set (bug_accepted g')) s'"
    unfolding queue_ok_def
  proof (intro conjI ballI)
    show "distinct (map qu_id (as_queued s'))" using ok ids by (auto simp: queue_ok_def q')
    fix v
    assume "v \<in> set (as_queued s')"
    then consider "v = ?q" | "v \<in> set (as_queued s)" by (auto simp: q')
    note v = this
    show "qu_id v < as_next_update_id s'"
      using v ids by cases (auto simp: word_less_nat_alt id less_SucI)
    show "?h < unat (qu_activation_height v)" using v ok act d0 by cases (auto simp: queue_ok_def)
    show "update_ok (qu_action v)" using v ok assms(2) by cases (auto simp: queue_ok_def)
  qed (rule lanes)
qed

text \<open>One accepted update or one whole block of transactions: what happens to the state, with the updates
  \<open>imm\<close> that take effect at once.\<close>

definition block_step ::
  "'e admin_env_scheme \<Rightarrow> nat \<Rightarrow> update_id set \<Rightarrow> update_action list
     \<Rightarrow> admin_state \<times> relayer \<times> block_update_guard \<Rightarrow> admin_state \<times> relayer \<times> block_update_guard \<Rightarrow> bool" where
  "block_step env h cancelled imm x y \<longleftrightarrow>
     (case (x, y) of ((s, r, g), (s', r', g')) \<Rightarrow>
        authorities_ok s' \<and> queue_ok h (set (bug_accepted g')) s'
      \<and> as_confirmation_depths s' = as_confirmation_depths s
      \<and> (\<forall>rl. seqno_of rl s \<le> seqno_of rl s')
      \<and> r' = relayed env imm r
      \<and> set (bug_accepted g) \<subseteq> set (bug_accepted g')
      \<and> {q \<in> set (as_queued s). qu_id q \<notin> cancelled} \<subseteq> set (as_queued s')
      \<and> (\<forall>v \<in> set imm. confirmation_depth (update_type_of v) s = None)
      \<and> (\<forall>t \<in> exclusive. length (filter (\<lambda>v. update_type_of v = t) imm) + of_bool (t \<in> set (bug_accepted g))
           \<le> of_bool (t \<in> set (bug_accepted g'))))"

lemma block_step_refl:
  "authorities_ok s \<Longrightarrow> queue_ok h (set (bug_accepted g)) s \<Longrightarrow> block_step env h {} [] (s, r, g) (s, r, g)"
  by (simp add: block_step_def)

lemma block_step_trans:
  assumes "block_step env h c1 i1 x y" and "block_step env h c2 i2 y z"
  shows "block_step env h (c1 \<union> c2) (i1 @ i2) x z"
proof -
  obtain s r g where x: "x = (s, r, g)" by (cases x)
  obtain s1 r1 g1 where y: "y = (s1, r1, g1)" by (cases y)
  obtain s2 r2 g2 where z: "z = (s2, r2, g2)" by (cases z)
  have depth: "confirmation_depth t s1 = confirmation_depth t s" for t
    using assms(1) by (simp add: block_step_def x y confirmation_depth_def)
  have seq: "seqno_of rl s \<le> seqno_of rl s2" for rl
    using assms le_trans [of "seqno_of rl s" "seqno_of rl s1"] by (simp add: block_step_def x y z)
  have cnt: "length (filter (\<lambda>v. update_type_of v = t) (i1 @ i2)) + of_bool (t \<in> set (bug_accepted g))
      \<le> of_bool (t \<in> set (bug_accepted g2))" if "t \<in> exclusive" for t
  proof -
    have "length (filter (\<lambda>v. update_type_of v = t) i1) + of_bool (t \<in> set (bug_accepted g)) \<le> of_bool (t \<in> set (bug_accepted g1))"
      and "length (filter (\<lambda>v. update_type_of v = t) i2) + of_bool (t \<in> set (bug_accepted g1)) \<le> of_bool (t \<in> set (bug_accepted g2))"
      using assms that by (auto simp: block_step_def x y z)
    then show ?thesis by simp
  qed
  have kept: "{q \<in> set (as_queued s). qu_id q \<notin> c1 \<union> c2} \<subseteq> set (as_queued s2)"
    using assms by (auto simp: block_step_def x y z)
  have imm: "\<forall>v \<in> set (i1 @ i2). confirmation_depth (update_type_of v) s = None"
    using assms depth by (auto simp: block_step_def x y z)
  show ?thesis unfolding block_step_def x y z prod.case
    by (intro conjI ballI allI seq cnt kept) (use assms imm in \<open>auto simp: block_step_def x y z relayed_append\<close>)
qed

lemma accept_update_step:
  assumes auth: "authorities_ok s" and ok: "queue_ok (unat height) (set (bug_accepted g)) s" and u: "update_ok u"
    and wrap: "Suc (unat (as_next_update_id s)) < 2 ^ 32"
    and run: "accept_update env u height s r g = (res, s', r', g')"
  shows "\<exists>imm. block_step env (unat height) {} imm (s, r, g) (s', r', g')"
    and "unat (as_next_update_id s') \<le> Suc (unat (as_next_update_id s))"
    and "seqno_of rl s' = seqno_of rl s"
proof -
  let ?t = "update_type_of u" and ?goal = "(\<exists>imm. block_step env (unat height) {} imm (s, r, g) (s', r', g'))
    \<and> unat (as_next_update_id s') \<le> Suc (unat (as_next_update_id s)) \<and> seqno_of rl s' = seqno_of rl s"
  have ?goal
  proof (cases "admit ?t g")
    case (Inl e)
    then show ?thesis using run block_step_refl [OF auth ok] by (auto simp: accept_update_def)
  next
    case (Inr g1)
    note G = admit_OkD [OF Inr]
    have cnt: "(of_bool (t \<in> set (bug_accepted g)) :: nat) \<le> of_bool (t \<in> set (bug_accepted g1))" for t
      using G(1) by auto
    show ?thesis
    proof (cases "confirmation_depth ?t s")
      case None
      obtain res1 s1 r1 where up: "handle_update env s r u = (res1, s1, r1)" by (metis surj_pair)
      then have eq: "s' = increment_next_update_id s1" "r' = r1" "g' = g1"
        using run Inr None by (auto simp: accept_update_def)
      have f: "authorities_ok s1 \<and> as_queued s1 = as_queued s \<and> as_next_update_id s1 = as_next_update_id s
        \<and> as_confirmation_depths s1 = as_confirmation_depths s \<and> seqno_of rl s1 = seqno_of rl s \<and> r1 = relayed env [u] r" for rl
        by (rule handle_update_frame [OF auth u up])
      have id: "unat (as_next_update_id s') = Suc (unat (as_next_update_id s))"
        using f wrap by (simp add: eq increment_next_update_id_def unat_word_ariths)
      have "queue_ok (unat height) (set (bug_accepted g1)) s" by (rule queue_ok_mono [OF ok G(1)])
      then have "queue_ok (unat height) (set (bug_accepted g1)) s'"
        using f id by (auto simp: queue_ok_def lane_ok_def queued_of_def confirmation_depth_def eq(1)
            increment_next_update_id_def word_less_nat_alt less_SucI)
      moreover have "authorities_ok s'" "seqno_of rl s' = seqno_of rl s" for rl
        using f by (simp_all add: eq increment_next_update_id_def authorities_ok_def seqno_of_def authority_def)
      moreover have "length (filter (\<lambda>v. update_type_of v = t) [u]) + of_bool (t \<in> set (bug_accepted g))
          \<le> of_bool (t \<in> set (bug_accepted g1))" if "t \<in> exclusive" for t
        using G(2) cnt [of t] that by (cases "?t = t") auto
      ultimately have "block_step env (unat height) {} [u] (s, r, g) (s', r', g')"
        using f None G(1) by (auto simp: block_step_def eq increment_next_update_id_def)
      then show ?thesis using id \<open>\<And>rl. seqno_of rl s' = seqno_of rl s\<close> by auto
    next
      case (Some d)
      show ?thesis
      proof (cases "checked_add height (ucast d :: u32)")
        case None
        then have eq: "s' = s" "r' = r" "g' = g1" using run Inr Some by (auto simp: accept_update_def)
        have "block_step env (unat height) {} [] (s, r, g) (s', r', g')"
          using auth queue_ok_mono [OF ok G(1)] G(1) cnt by (auto simp: block_step_def eq)
        then show ?thesis using eq by auto
      next
        case add: (Some act)
        then have eq: "s' = increment_next_update_id (enqueue \<lparr>qu_id = as_next_update_id s, qu_action = u, qu_activation_height = act\<rparr> s)"
          "r' = r" "g' = g1" using run Inr Some by (auto simp: accept_update_def)
        note Q = queue_ok_enqueue [OF ok u Some add Inr wrap eq(1)]
        have "authorities_ok s'" and "seqno_of rl s' = seqno_of rl s" for rl
          using auth by (simp_all add: eq increment_next_update_id_def enqueue_def authorities_ok_def seqno_of_def authority_def)
        then have "block_step env (unat height) {} [] (s, r, g) (s', r', g')"
          using Q G(1) cnt by (auto simp: block_step_def eq(2,3)) (auto simp: eq(1) increment_next_update_id_def enqueue_def)
        then show ?thesis using Q(2) \<open>\<And>rl. seqno_of rl s' = seqno_of rl s\<close> by auto
      qed
    qed
  qed
  then show "\<exists>imm. block_step env (unat height) {} imm (s, r, g) (s', r', g')"
    and "unat (as_next_update_id s') \<le> Suc (unat (as_next_update_id s))"
    and "seqno_of rl s' = seqno_of rl s" by simp_all
qed

text \<open>An action is refused without a trace, or it was authorised.\<close>

definition authorised ::
  "'e admin_env_scheme \<Rightarrow> network \<Rightarrow> admin_state \<Rightarrow> envelope_payload \<Rightarrow> signed_payload \<Rightarrow> multisig_authority \<Rightarrow> bool" where
  "authorised env net s p payload auth \<longleftrightarrow>
     resolve p (\<lambda>i. map_option qu_action (find_queued i s)) = Ok payload
   \<and> authority (action_required_role (sp_action payload)) s = Some auth
   \<and> ma_last_seqno auth < sp_seqno payload
   \<and> quorum env (ma_config auth) (sp_signatures payload)
       (signed_msg_hash env (for_action env (sp_action payload) (sp_seqno payload) net))"

lemma resolve_action_role_eq: "resolve_action_role a = action_required_role a"
  by (cases a) simp_all

lemma verify_action_signature_OkD:
  assumes "verify_action_signature env payload gap net auth = Ok n" and "config_inv (ma_config auth)"
  shows "n = sp_seqno payload" and "ma_last_seqno auth < sp_seqno payload"
    and "quorum env (ma_config auth) (sp_signatures payload)
       (signed_msg_hash env (for_action env (sp_action payload) (sp_seqno payload) net))"
proof -
  have v: "verify_threshold_signatures env (ma_config auth) (sp_signatures payload)
      (signed_msg_hash env (for_action env (sp_action payload) (sp_seqno payload) net)) = Ok ()"
    and "n = sp_seqno payload" and "ma_last_seqno auth < sp_seqno payload"
    using assms(1) by (auto simp: verify_action_signature_def compute_sighash_def Let_def res_simps split: if_splits)
  then show "n = sp_seqno payload" and "ma_last_seqno auth < sp_seqno payload" by simp_all
  show "quorum env (ma_config auth) (sp_signatures payload)
       (signed_msg_hash env (for_action env (sp_action payload) (sp_seqno payload) net))"
    by (rule verify_threshold_quorum [OF assms(2) v])
qed

lemma handle_action_cases:
  assumes "authorities_ok s" and "handle_action env p height net s r g = (res, s', r', g')"
  obtains (refused) e where "res = Err e" "s' = s" "r' = r" "g' = g"
  | (accepted) payload auth s1 where "authorised env net s p payload auth"
      "ma_role auth = action_required_role (sp_action payload)" "config_inv (ma_config auth)"
      "s1 = set_authority (ma_role auth) (auth\<lparr>ma_last_seqno := sp_seqno payload\<rparr>) s"
      "(case sp_action payload of UpdateAction u \<Rightarrow> accept_update env u height s1 r g
        | CancelAction i u \<Rightarrow> (Ok (), remove_queued i s1, r, g)) = (res, s', r', g')"
proof (cases "resolve p (\<lambda>i. map_option qu_action (find_queued i s))")
  case (Inl e)
  then show ?thesis using assms(2) refused by (auto simp: handle_action_def)
next
  case (Inr payload)
  let ?rl = "action_required_role (sp_action payload)"
  obtain auth where auth: "authority ?rl s = Some auth" "ma_role auth = ?rl" "config_inv (ma_config auth)"
    using authority_some [OF assms(1)] by blast
  show ?thesis
  proof (cases "verify_action_signature env payload (as_max_seqno_gap s) net auth")
    case (Inl e)
    then show ?thesis using assms(2) \<open>resolve p _ = Inr payload\<close> auth refused
      by (auto simp: handle_action_def Let_def resolve_action_role_eq)
  next
    case (Inr n)
    note V = verify_action_signature_OkD [OF Inr auth(3)]
    have run: "(case sp_action payload of
          UpdateAction u \<Rightarrow> accept_update env u height (set_authority ?rl (auth\<lparr>ma_last_seqno := sp_seqno payload\<rparr>) s) r g
        | CancelAction i u \<Rightarrow> (Ok (), remove_queued i (set_authority ?rl (auth\<lparr>ma_last_seqno := sp_seqno payload\<rparr>) s), r, g))
      = (res, s', r', g')"
      using assms(2) \<open>resolve p _ = Inr payload\<close> auth Inr V(1)
      by (simp add: handle_action_def Let_def resolve_action_role_eq update_last_seqno_def)
    have az: "authorised env net s p payload auth"
      using auth V(2,3) \<open>resolve p _ = Inr payload\<close> by (simp add: authorised_def)
    show ?thesis by (rule accepted [OF az auth(2,3) refl]) (simp only: auth(2) run)
  qed
qed

lemma resolve_OkD:
  assumes "resolve p lookup = Ok payload"
  shows "sp_seqno payload = ep_seqno p" and "sp_signatures payload = ep_signatures p"
    and "case sp_action payload of UpdateAction u \<Rightarrow> ep_action p = EnvelopeUpdate u
      | CancelAction i u \<Rightarrow> ep_action p = EnvelopeCancel i \<and> lookup i = Some u"
  using assms by (auto simp: resolve_def res_simps split: envelope_action.splits option.splits)

definition envelope_ok :: "envelope_payload \<Rightarrow> bool" where
  "envelope_ok p \<longleftrightarrow> (case ep_action p of EnvelopeUpdate u \<Rightarrow> update_ok u | EnvelopeCancel i \<Rightarrow> True)"

lemma nonzero_thresholdsD:
  "nonzero_thresholds env \<Longrightarrow> decode_multisig_wire env b = Ok (n, u, sigs) \<Longrightarrow> 0 < tcu_new_threshold u"
  unfolding nonzero_thresholds_def by blast

lemma parse_admin_tx_ok:
  assumes "nonzero_thresholds env" and "parse_admin_tx env tx = Some p"
  shows "envelope_ok p"
proof -
  obtain t b where "decode_signed_payload env t b (tag_tx_type (tir_tag tx)) = Ok p"
    using assms(2) by (auto simp: parse_admin_tx_def extract_signed_payload_def Let_def res_simps split: sum.splits)
  then show ?thesis
    using nonzero_thresholdsD [OF assms(1)]
    by (auto simp: decode_signed_payload_def decode_wire_def envelope_ok_def res_simps
        split: admin_tx_type.splits update_tx_type.splits)
qed

definition cancel_target :: "envelope_payload \<Rightarrow> update_id set" where
  "cancel_target p = (case ep_action p of EnvelopeCancel i \<Rightarrow> {i} | EnvelopeUpdate u \<Rightarrow> {})"

lemma cancel_target_iff: "i \<in> cancel_target p \<longleftrightarrow> ep_action p = EnvelopeCancel i"
  by (cases "ep_action p") (auto simp: cancel_target_def)

lemma block_step_seqno:
  assumes "authority rl s = Some auth" and "ma_last_seqno auth \<le> n" and "s1 = set_authority rl (auth\<lparr>ma_last_seqno := n\<rparr>) s"
    and "block_step env h c imm (s1, r, g) y"
  shows "block_step env h c imm (s, r, g) y"
proof -
  obtain s2 r2 g2 where y: "y = (s2, r2, g2)" by (cases y)
  have "seqno_of rl' s \<le> seqno_of rl' s1" for rl'
    using assms(1,2) by (simp add: assms(3) seqno_of_def authority_set_authority [OF assms(1)] word_le_nat_alt)
  then have "seqno_of rl' s \<le> seqno_of rl' s2" for rl'
    using assms(4) le_trans [of "seqno_of rl' s" "seqno_of rl' s1" "seqno_of rl' s2"] by (simp add: block_step_def y)
  then show ?thesis using assms(4) by (simp add: block_step_def y assms(3) confirmation_depth_def)
qed

lemma block_step_weaken: "block_step env h c imm x y \<Longrightarrow> c \<subseteq> c' \<Longrightarrow> block_step env h c' imm x y"
  by (auto simp: block_step_def split: prod.splits)

lemma handle_action_step:
  assumes auth: "authorities_ok s" and ok: "queue_ok (unat height) (set (bug_accepted g)) s" and p: "envelope_ok p"
    and wrap: "Suc (unat (as_next_update_id s)) < 2 ^ 32"
    and run: "handle_action env p height net s r g = (res, s', r', g')"
  shows "(\<exists>imm. block_step env (unat height) (cancel_target p) imm (s, r, g) (s', r', g'))
    \<and> unat (as_next_update_id s') \<le> Suc (unat (as_next_update_id s))"
proof (cases rule: handle_action_cases [OF auth run, case_names 1 2])
  case (1 e)
  note refused = 1
  have "block_step env (unat height) {} [] (s, r, g) (s', r', g')"
    using block_step_refl [OF auth ok] refused by simp
  then show ?thesis using refused by (auto dest: block_step_weaken [where c' = "cancel_target p"])
next
  case (2 payload a s1)
  note accepted = 2
  let ?rl = "action_required_role (sp_action payload)"
  have res: "resolve p (\<lambda>i. map_option qu_action (find_queued i s)) = Ok payload" and a: "authority ?rl s = Some a"
    and less: "ma_last_seqno a \<le> sp_seqno payload" using accepted(1) by (auto simp: authorised_def)
  note s1 = accepted(4) [unfolded accepted(2)]
  have auth1: "authorities_ok s1" unfolding s1 by (rule authorities_ok_set) (use auth accepted in simp_all)
  have ok1: "queue_ok (unat height) (set (bug_accepted g)) s1" using ok by (subst queue_ok_cong [where s = s]) (simp_all add: s1)
  show ?thesis
  proof (cases "sp_action payload")
    case (UpdateAction u)
    then have "update_ok u" and "cancel_target p = {}"
      using resolve_OkD(3) [OF res] p by (simp_all add: envelope_ok_def cancel_target_def)
    moreover have "accept_update env u height s1 r g = (res, s', r', g')" using accepted(5) UpdateAction by simp
    moreover have "Suc (unat (as_next_update_id s1)) < 2 ^ 32" using wrap by (simp add: s1)
    ultimately obtain imm where imm: "block_step env (unat height) {} imm (s1, r, g) (s', r', g')"
      and "unat (as_next_update_id s') \<le> Suc (unat (as_next_update_id s1))"
      using accept_update_step(1,2) [OF auth1 ok1] by blast
    then show ?thesis
      using block_step_seqno [OF a less s1 imm] \<open>cancel_target p = {}\<close> by (intro conjI exI [of _ imm]) (simp_all add: s1)
  next
    case (CancelAction i u)
    have c: "cancel_target p = {i}" using resolve_OkD(3) [OF res] CancelAction by (simp add: cancel_target_def)
    have eq: "s' = s1\<lparr>as_queued := filter (\<lambda>u. qu_id u \<noteq> i) (as_queued s1)\<rparr>" "r' = r" "g' = g"
      using accepted(5) CancelAction remove_queued_filter [OF ok1] by simp_all
    have "queue_ok (unat height) (set (bug_accepted g)) s'" by (rule queue_ok_filter [OF ok1]) (simp_all add: eq)
    then have "block_step env (unat height) {i} [] (s1, r, g) (s', r', g')"
      using auth1 by (auto simp: block_step_def eq authorities_ok_def seqno_of_def authority_def)
    note step = block_step_seqno [OF a less s1 this]
    then show ?thesis using c by (intro conjI exI [of _ "[]"]) (simp_all add: eq s1)
  qed
qed

lemma admin_handle_txs_step:
  assumes "nonzero_thresholds env" and "authorities_ok s" and "queue_ok (unat height) (set (bug_accepted g)) s"
    and "unat (as_next_update_id s) + length txs < 2 ^ 32"
    and "admin_handle_txs env height net txs s r g = (s', r', g')"
  shows "\<exists>imm. block_step env (unat height) (\<Union>p \<in> {p. \<exists>tx \<in> set txs. parse_admin_tx env tx = Some p}. cancel_target p)
    imm (s, r, g) (s', r', g')"
  using assms(2-5)
proof (induction txs arbitrary: s r g)
  case Nil
  then show ?case using block_step_refl by (intro exI [of _ "[]"]) simp
next
  case (Cons tx txs)
  let ?C = "\<lambda>txs. \<Union>p \<in> {p. \<exists>tx \<in> set txs. parse_admin_tx env tx = Some p}. cancel_target p"
  show ?case
  proof (cases "parse_admin_tx env tx")
    case None
    then have "\<exists>imm. block_step env (unat height) (?C txs) imm (s, r, g) (s', r', g')"
      using Cons.IH [of s g r] Cons.prems by simp
    then show ?thesis using None by simp
  next
    case (Some p)
    obtain res s1 r1 g1 where step: "handle_action env p height net s r g = (res, s1, r1, g1)" by (metis surj_pair)
    have "Suc (unat (as_next_update_id s)) < 2 ^ 32" using Cons.prems(3) by simp
    from handle_action_step [OF Cons.prems(1,2) parse_admin_tx_ok [OF assms(1) Some] this step]
    obtain imm where imm: "block_step env (unat height) (cancel_target p) imm (s, r, g) (s1, r1, g1)"
      and id: "unat (as_next_update_id s1) \<le> Suc (unat (as_next_update_id s))" by blast
    have "authorities_ok s1" "queue_ok (unat height) (set (bug_accepted g1)) s1" using imm by (simp_all add: block_step_def)
    moreover have "unat (as_next_update_id s1) + length txs < 2 ^ 32" using id Cons.prems(3) by simp
    moreover have "admin_handle_txs env height net txs s1 r1 g1 = (s', r', g')" using Cons.prems(4) Some step by simp
    ultimately obtain imm2 where "block_step env (unat height) (?C txs) imm2 (s1, r1, g1) (s', r', g')"
      using Cons.IH by blast
    from block_step_trans [OF imm this]
    have "block_step env (unat height) (?C (tx # txs)) (imm @ imm2) (s, r, g) (s', r', g')"
      by (rule block_step_weaken) (use Some in auto)
    then show ?thesis by blast
  qed
qed

lemma admin_block_spec:
  assumes inv: "admin_inv h s" and height: "unat (l1_block_height (hvs_last_verified_block header_vs)) = Suc h"
    and env: "nonzero_thresholds env" and wrap: "unat (as_next_update_id s) + length txs < 2 ^ 32"
    and run: "admin_process_txs env header_vs txs s r = (s', r')"
  obtains ready imm where
    "ready = filter (\<lambda>u. unat (qu_activation_height u) \<le> Suc h) (as_queued s)"
    "admin_inv (Suc h) s'" "r' = relayed env (map qu_action ready @ imm) r" "\<And>rl. seqno_of rl s \<le> seqno_of rl s'"
    "\<And>t. t \<in> exclusive \<Longrightarrow> length (filter (\<lambda>u. update_type_of u = t) (map qu_action ready @ imm)) \<le> 1"
    "\<And>q. q \<in> set (as_queued s) \<Longrightarrow> q \<notin> set ready \<Longrightarrow>
       q \<in> set (as_queued s') \<or> (\<exists>tx \<in> set txs. \<exists>p. parse_admin_tx env tx = Some p \<and> ep_action p = EnvelopeCancel (qu_id q))"
proof -
  let ?height = "l1_block_height (hvs_last_verified_block header_vs)"
  obtain s1 r1 where one: "handle_pending_updates env ?height s r = (s1, r1)" by (metis surj_pair)
  obtain g' where two: "admin_handle_txs env ?height (hvs_network header_vs) txs s1 r1 \<lparr>bug_accepted = []\<rparr> = (s', r', g')"
    using run one by (auto simp: admin_process_txs_def Let_def split: prod.splits)
  let ?ready = "filter (\<lambda>u. qu_activation_height u \<le> ?height) (as_queued s)"
  have ready: "?ready = filter (\<lambda>u. unat (qu_activation_height u) \<le> Suc h) (as_queued s)"
    by (simp add: word_le_nat_alt height)
  note P = handle_pending_updates_spec [OF inv height one refl]
  have "queue_ok (unat ?height) (set (bug_accepted \<lparr>bug_accepted = []\<rparr>)) s1" using P(2) height by simp
  moreover have "unat (as_next_update_id s1) + length txs < 2 ^ 32" using P(3) wrap by simp
  ultimately obtain imm where imm: "block_step env (Suc h) (\<Union>p \<in> {p. \<exists>tx \<in> set txs. parse_admin_tx env tx = Some p}. cancel_target p)
      imm (s1, r1, \<lparr>bug_accepted = []\<rparr>) (s', r', g')"
    using admin_handle_txs_step [OF env P(1) _ _ two] height by auto
  have q': "queue_ok (Suc h) (set (bug_accepted g')) s'" using imm by (simp add: block_step_def)
  have lanes: "queue_ok (Suc h) exclusive s'"
  proof -
    have "queue_ok (Suc h) (set (bug_accepted g') \<union> exclusive) s'" by (rule queue_ok_mono [OF q']) simp
    then show ?thesis by (simp add: queue_ok_def lane_ok_def)
  qed
  have ok: "queue_ok h exclusive s" using inv by (simp add: admin_inv_def)
  have once: "length (filter (\<lambda>u. update_type_of u = t) (map qu_action ?ready @ imm)) \<le> 1" if t: "t \<in> exclusive" for t
  proof -
    have r1: "length (filter (\<lambda>u. update_type_of u = t) (map qu_action ?ready)) \<le> 1"
      using exclusive_ready_once [OF ok t] by (simp add: filter_map comp_def ready conj_commute)
    have i1: "length (filter (\<lambda>u. update_type_of u = t) imm) \<le> 1"
      using imm t by (auto simp: block_step_def of_bool_def split: if_splits)
    show ?thesis
    proof (cases "confirmation_depth t s")
      case None
      have "lane_ok h exclusive t s" using ok t by (simp add: queue_ok_def)
      then have "queued_of t s = []" using None by (cases "queued_of t s") (auto simp: lane_ok_def)
      then have "filter (\<lambda>u. update_type_of u = t) (map qu_action ?ready) = []"
        by (auto simp: queued_of_def filter_empty_conv)
      then show ?thesis using i1 by simp
    next
      case (Some d)
      then have "confirmation_depth t s1 = Some d" using P(4) by (simp add: confirmation_depth_def)
      then have "filter (\<lambda>u. update_type_of u = t) imm = []"
        using imm by (auto simp: block_step_def filter_empty_conv)
      then show ?thesis using r1 by simp
    qed
  qed
  have kept: "q \<in> set (as_queued s') \<or> (\<exists>tx \<in> set txs. \<exists>p. parse_admin_tx env tx = Some p \<and> ep_action p = EnvelopeCancel (qu_id q))"
    if "q \<in> set (as_queued s)" "q \<notin> set ?ready" for q
  proof -
    have "q \<in> set (as_queued s1)" using that P(7) by auto
    then have "q \<in> set (as_queued s') \<or> (\<exists>tx \<in> set txs. \<exists>p. parse_admin_tx env tx = Some p \<and> qu_id q \<in> cancel_target p)"
      using imm by (auto simp: block_step_def)
    then show ?thesis by (simp add: cancel_target_iff)
  qed
  show ?thesis
  proof (rule that [of ?ready imm])
    show "admin_inv (Suc h) s'" using lanes imm by (simp add: admin_inv_def block_step_def)
    show "r' = relayed env (map qu_action ?ready @ imm) r" using imm P(6) by (simp add: block_step_def relayed_append)
    show "seqno_of rl s \<le> seqno_of rl s'" for rl using imm P(5) by (simp add: block_step_def)
  qed (use ready once kept in auto)
qed

lemma admin_new_inv:
  assumes "admin_new env config = Some s" and "\<And>rl c. (rl, c) \<in> set (signer_configs config) \<Longrightarrow> 0 < utc_threshold c"
  shows "admin_inv h s"
proof -
  have try_from: "config_inv t" if tf: "threshold_config_try_from env c = Ok t" and pos: "0 < utc_threshold c" for c t
  proof -
    obtain as where "map_err InvalidConfig (tc_try_new as (utc_threshold c)) = Ok t"
      using tf by (auto simp: threshold_config_try_from_def res_bind_def split: sum.splits)
    then have "tc_try_new as (utc_threshold c) = Ok t" by (cases "tc_try_new as (utc_threshold c)") simp_all
    then show ?thesis using tc_try_new_spec pos by blast
  qed
  have res: "map ma_role as = map fst cs \<and> (\<forall>a \<in> set as. config_inv (ma_config a))"
    if "resolve_authorities env cs = Some as" "\<And>rl c. (rl, c) \<in> set cs \<Longrightarrow> 0 < utc_threshold c" for cs as
    using that
  proof (induction cs arbitrary: as)
    case (Cons c cs)
    obtain rl x where c: "c = (rl, x)" by (cases c)
    then obtain t as' where t: "threshold_config_try_from env x = Ok t" "resolve_authorities env cs = Some as'"
      "as = authority_new rl t # as'" using Cons.prems(1) by (auto split: sum.splits)
    have "0 < utc_threshold x" using Cons.prems(2) [of rl x] c by simp
    then have "config_inv t" by (rule try_from [OF t(1)])
    moreover have "map ma_role as' = map fst cs \<and> (\<forall>a \<in> set as'. config_inv (ma_config a))"
      by (rule Cons.IH [OF t(2)]) (use Cons.prems(2) in auto)
    ultimately show ?case using t(3) c by (simp add: authority_new_def)
  qed simp
  obtain as where as: "resolve_authorities env (signer_configs config) = Some as" "as_authorities s = as" "as_queued s = []"
    using assms(1) by (auto simp: admin_new_def)
  show ?thesis using res [OF as(1) assms(2)] as(2,3)
    by (simp add: admin_inv_def authorities_ok_def queue_ok_def lane_ok_def queued_of_def signer_configs_def)
qed

text \<open>The sequence numbers under every operation.\<close>

definition last_seqno :: "role \<Rightarrow> admin_state \<Rightarrow> u64 option" where
  "last_seqno rl s = map_option ma_last_seqno (authority rl s)"

lemma last_seqno_same_authorities: "as_authorities s' = as_authorities s \<Longrightarrow> last_seqno rl s' = last_seqno rl s"
  by (simp add: last_seqno_def authority_def)

lemma handle_update_last_seqno:
  assumes "handle_update env s r u = (res, s', r')"
  shows "last_seqno rl s' = last_seqno rl s"
proof -
  have multisig: "last_seqno rl s' = last_seqno rl s" if "apply_multisig_update rl2 x s = (res, s')" for rl2 x res s'
    using that
    by (auto simp: apply_multisig_update_def last_seqno_def authority_set_authority split: option.splits sum.splits)
  show ?thesis using assms by (cases u) (auto simp: with_relayer_def intro: multisig [OF prod.collapse [symmetric]])
qed

lemma accept_update_last_seqno:
  assumes "accept_update env u height s r g = (res, s', r', g')"
  shows "last_seqno rl s' = last_seqno rl s"
proof -
  obtain res1 s1 r1 where up: "handle_update env s r u = (res1, s1, r1)" by (metis surj_pair)
  have same: "last_seqno rl (increment_next_update_id x) = last_seqno rl x" "last_seqno rl (enqueue q x) = last_seqno rl x" for x q
    by (rule last_seqno_same_authorities, simp add: increment_next_update_id_def enqueue_def)+
  show ?thesis using assms up handle_update_last_seqno [OF up]
    by (auto simp: accept_update_def Let_def same split: sum.splits option.splits)
qed

lemma remove_queued_last_seqno: "last_seqno rl (remove_queued i s) = last_seqno rl s"
  by (rule last_seqno_same_authorities) (simp add: remove_queued_def split: option.splits)

lemma stale_payload_refused:
  assumes "last_seqno (action_required_role (sp_action payload)) s = Some n"
    and "resolve p (\<lambda>i. map_option qu_action (find_queued i s)) = Ok payload" and "ep_seqno p \<le> n"
  shows "\<exists>e. handle_action env p height net s r g = (Err e, s, r, g)"
proof -
  obtain auth where "authority (action_required_role (sp_action payload)) s = Some auth" "ma_last_seqno auth = n"
    using assms(1) by (auto simp: last_seqno_def)
  then show ?thesis using assms(2,3) resolve_OkD(1) [OF assms(2)]
    by (simp add: handle_action_def resolve_action_role_eq verify_action_signature_def)
qed

definition is_rotation_msg :: "interproto_msg \<Rightarrow> bool" where
  "is_rotation_msg m \<longleftrightarrow> (case m of CheckpointMsg (UpdateCheckpointPredicate k) \<Rightarrow> True | _ \<Rightarrow> False)"

definition is_ee_log :: "asm_log \<Rightarrow> bool" where
  "is_ee_log l \<longleftrightarrow> (case l of EePredicateKeyUpdate a k \<Rightarrow> True | _ \<Rightarrow> False)"

lemma rotation_msgs_count:
  "length (filter is_rotation_msg (concat (map update_msgs us))) = length (filter (\<lambda>u. update_type_of u = OlStfVkUpdate) us)"
proof (induction us)
  case (Cons u us)
  then show ?case by (cases u) (simp_all add: is_rotation_msg_def)
qed simp

lemma ee_logs_count:
  "length (filter is_ee_log (concat (map (update_logs env) us))) = length (filter (\<lambda>u. update_type_of u = EeStfVkUpdate) us)"
proof (induction us)
  case (Cons u us)
  then show ?case by (cases u) (simp_all add: is_ee_log_def)
qed simp

lemma concat_map_member:
  assumes "x \<in> set xs"
  obtains pre post where "concat (map f xs) = pre @ f x @ post"
  using split_list [OF assms] that by auto

text \<open>The signer sets of the roles, and what an enacted update makes of them: the four multisig updates change
  their own role's set, when the change is valid for it, and the other updates change none.\<close>

definition config_of :: "admin_state \<Rightarrow> role \<Rightarrow> threshold_config option" where
  "config_of s rl = map_option ma_config (authority rl s)"

fun config_change :: "update_action \<Rightarrow> (role \<times> threshold_config_update) option" where
  "config_change (StrataAdminMultisig u) = Some (StrataAdministrator, u)"
| "config_change (StrataSeqManagerMultisig u) = Some (StrataSequencerManager, u)"
| "config_change (AlpenAdminMultisig u) = Some (AlpenAdministrator, u)"
| "config_change (StrataSecurityCouncilMultisig u) = Some (StrataSecurityCouncil, u)"
| "config_change _ = None"

definition enact_config :: "update_action \<Rightarrow> (role \<Rightarrow> threshold_config option) \<Rightarrow> role \<Rightarrow> threshold_config option" where
  "enact_config action f =
     (case config_change action of
        None \<Rightarrow> f
      | Some (rl, u) \<Rightarrow>
         (case f rl of
            None \<Rightarrow> f
          | Some c \<Rightarrow> (case apply_update u c of Err _ \<Rightarrow> f | Ok c' \<Rightarrow> f(rl \<mapsto> c'))))"

lemma apply_multisig_update_config:
  "config_change action = Some (rl, u) \<Longrightarrow> config_of (snd (apply_multisig_update rl u s)) = enact_config action (config_of s)"
  by (auto simp: apply_multisig_update_def enact_config_def config_of_def fun_eq_iff authority_set_authority
      split: option.splits sum.splits)

lemma handle_update_config: "handle_update env s r u = (res, s', r') \<Longrightarrow> config_of s' = enact_config u (config_of s)"
  by (cases u) (auto simp: with_relayer_def apply_multisig_update_config [symmetric], auto simp: enact_config_def)

lemma enact_updates_config:
  "enact_updates env qs s r = (s', r') \<Longrightarrow> config_of s' = fold enact_config (map qu_action qs) (config_of s)"
proof (induction qs arbitrary: s r)
  case (Cons q qs)
  obtain res s1 r1 where step: "handle_update env s r (qu_action q) = (res, s1, r1)" by (metis surj_pair)
  then show ?case using Cons handle_update_config [OF step] by simp
qed simp

lemma handle_pending_updates_config:
  assumes "handle_pending_updates env height s r = (s1, r1)"
  shows "config_of s1 = fold enact_config (map qu_action (filter (\<lambda>u. qu_activation_height u \<le> height) (as_queued s))) (config_of s)"
proof -
  let ?s = "s\<lparr>as_queued := filter (\<lambda>u. \<not> qu_activation_height u \<le> height) (as_queued s)\<rparr>"
  have "enact_updates env (filter (\<lambda>u. qu_activation_height u \<le> height) (as_queued s)) ?s r = (s1, r1)"
    using assms by (simp add: handle_pending_updates_def process_queued_def Let_def comp_def)
  moreover have "config_of ?s = config_of s" by (simp add: config_of_def authority_def fun_eq_iff)
  ultimately show ?thesis using enact_updates_config by metis
qed

text \<open>The transactions cancel an update: one of them names it, and in the state it is handled in, the role in
  charge of the update has signed the cancel of that update.\<close>

definition cancelled_in ::
  "'e admin_env_scheme \<Rightarrow> u32 \<Rightarrow> network \<Rightarrow> tx_input_ref list \<Rightarrow> admin_state \<Rightarrow> relayer \<Rightarrow> block_update_guard
     \<Rightarrow> queued_update \<Rightarrow> bool" where
  "cancelled_in env height net txs s r g q \<longleftrightarrow>
     (\<exists>before tx after p auth s1 r1 g1. txs = before @ tx # after
        \<and> admin_handle_txs env height net before s r g = (s1, r1, g1)
        \<and> parse_admin_tx env tx = Some p \<and> ep_action p = EnvelopeCancel (qu_id q)
        \<and> authorised env net s1 p \<lparr>sp_seqno = ep_seqno p, sp_action = CancelAction (qu_id q) (qu_action q),
            sp_signatures = ep_signatures p\<rparr> auth)"

lemma find_queued_member:
  assumes "queue_ok h g s" and "q \<in> set (as_queued s)"
  shows "find_queued (qu_id q) s = Some q"
proof -
  have "List.find (\<lambda>u. qu_id u = qu_id q) qs = Some q" if "distinct (map qu_id qs)" "q \<in> set qs" for qs
    using that by (induction qs) (auto simp: image_iff)
  then show ?thesis using assms by (simp add: find_queued_def queue_ok_def)
qed

lemma cancelled_in_Cons:
  assumes "case parse_admin_tx env tx of None \<Rightarrow> (s1, r1, g1) = (s, r, g)
    | Some p \<Rightarrow> snd (handle_action env p height net s r g) = (s1, r1, g1)"
    and "cancelled_in env height net txs s1 r1 g1 q"
  shows "cancelled_in env height net (tx # txs) s r g q"
proof -
  obtain before t after p auth s2 r2 g2 where C: "txs = before @ t # after"
    "admin_handle_txs env height net before s1 r1 g1 = (s2, r2, g2)" "parse_admin_tx env t = Some p"
    "ep_action p = EnvelopeCancel (qu_id q)"
    "authorised env net s2 p \<lparr>sp_seqno = ep_seqno p, sp_action = CancelAction (qu_id q) (qu_action q),
        sp_signatures = ep_signatures p\<rparr> auth"
    using assms(2) unfolding cancelled_in_def by blast
  have "tx # txs = (tx # before) @ t # after" using C(1) by simp
  moreover have "admin_handle_txs env height net (tx # before) s r g = (s2, r2, g2)"
    using assms(1) C(2) by (auto split: option.splits prod.splits)
  ultimately show ?thesis unfolding cancelled_in_def using C(3-5) by blast
qed

lemma removed_is_cancelled:
  assumes "authorities_ok s" and "queue_ok h (set (bug_accepted g)) s" and "q \<in> set (as_queued s)"
    and "parse_admin_tx env tx = Some p" and "handle_action env p height net s r g = (res, s', r', g')"
    and "q \<notin> set (as_queued s')" and "qu_id q \<in> cancel_target p"
  shows "cancelled_in env height net (tx # txs) s r g q"
proof (cases rule: handle_action_cases [OF assms(1,5), case_names 1 2])
  case (1 e)
  then show ?thesis using assms(3,6) by simp
next
  case (2 payload a s1)
  have res: "resolve p (\<lambda>i. map_option qu_action (find_queued i s)) = Ok payload" using 2(1) by (simp add: authorised_def)
  have c: "ep_action p = EnvelopeCancel (qu_id q)" using assms(7) by (simp add: cancel_target_iff)
  have "sp_action payload = CancelAction (qu_id q) (qu_action q)"
    using resolve_OkD(3) [OF res] c find_queued_member [OF assms(2,3)] by (auto split: multisig_action.splits)
  then have pl: "payload = \<lparr>sp_seqno = ep_seqno p, sp_action = CancelAction (qu_id q) (qu_action q), sp_signatures = ep_signatures p\<rparr>"
    using resolve_OkD(1,2) [OF res] by simp
  have "admin_handle_txs env height net [] s r g = (s, r, g)" by simp
  then show ?thesis unfolding cancelled_in_def using assms(4) c 2(1) [unfolded pl] append_Nil [of "tx # txs"] by metis
qed

lemma admin_handle_txs_kept:
  assumes "nonzero_thresholds env"
  shows "authorities_ok s \<Longrightarrow> queue_ok (unat height) (set (bug_accepted g)) s \<Longrightarrow>
    unat (as_next_update_id s) + length txs < 2 ^ 32 \<Longrightarrow>
    admin_handle_txs env height net txs s r g = (s', r', g') \<Longrightarrow> q \<in> set (as_queued s) \<Longrightarrow>
    q \<in> set (as_queued s') \<or> cancelled_in env height net txs s r g q"
proof (induction txs arbitrary: s r g)
  case (Cons tx txs)
  show ?case
  proof (cases "parse_admin_tx env tx")
    case None
    then have "q \<in> set (as_queued s') \<or> cancelled_in env height net txs s r g q" using Cons by simp
    then show ?thesis using cancelled_in_Cons [where env = env and tx = tx and s = s and r = r and g = g] None by auto
  next
    case (Some p)
    obtain res s1 r1 g1 where step: "handle_action env p height net s r g = (res, s1, r1, g1)" by (metis surj_pair)
    have "Suc (unat (as_next_update_id s)) < 2 ^ 32" using Cons.prems(3) by simp
    from handle_action_step [OF Cons.prems(1,2) parse_admin_tx_ok [OF assms Some] this step]
    obtain imm where imm: "block_step env (unat height) (cancel_target p) imm (s, r, g) (s1, r1, g1)"
      and id: "unat (as_next_update_id s1) \<le> Suc (unat (as_next_update_id s))" by blast
    have ok: "authorities_ok s1" "queue_ok (unat height) (set (bug_accepted g1)) s1" using imm by (simp_all add: block_step_def)
    have rest: "admin_handle_txs env height net txs s1 r1 g1 = (s', r', g')" using Cons.prems(4) Some step by simp
    show ?thesis
    proof (cases "q \<in> set (as_queued s1)")
      case True
      have "unat (as_next_update_id s1) + length txs < 2 ^ 32" using id Cons.prems(3) by simp
      from Cons.IH [OF ok this rest True] show ?thesis
        using cancelled_in_Cons [where env = env and tx = tx and s = s and r = r and g = g] Some step by auto
    next
      case False
      then have "qu_id q \<in> cancel_target p" using imm Cons.prems(5) by (auto simp: block_step_def)
      then show ?thesis
        using removed_is_cancelled [OF Cons.prems(1,2,5) Some step False] by blast
    qed
  qed
qed simp

section \<open>Properties\<close>

text \<open>C5: every administrative effect is authorised, once.  Handling an action leaves the state, the relayer
  and the block guard untouched, or else a quorum of the signers configured for the role in charge of the
  action signed the message that shows exactly this action, sequence number and network, the number being
  larger than the last one of that role.  The number is then burnt, also when the action is turned away
  afterwards, and nobody else's number moves.  Any later payload of a role with a number not above its last
  one is refused with no effect, so no signature is ever used twice.\<close>
theorem admin_action_is_authorised:
  assumes "authorities_ok s" and "handle_action env p height net s r g = (res, s', r', g')"
  shows "(((\<exists>e. res = Err e) \<and> s' = s \<and> r' = r \<and> g' = g)
    \<or> (\<exists>payload auth. authorised env net s p payload auth \<and> ma_role auth = action_required_role (sp_action payload)
         \<and> (\<forall>rl. last_seqno rl s' = (if rl = ma_role auth then Some (ep_seqno p) else last_seqno rl s))))
    \<and> (last_seqno (action_required_role (sp_action payload2)) s' = Some n \<and> ep_seqno p2 \<le> n
      \<and> resolve p2 (\<lambda>i. map_option qu_action (find_queued i s')) = Ok payload2
      \<longrightarrow> (\<exists>e. handle_action env p2 height2 net s' r2 g2 = (Err e, s', r2, g2)))"
proof
  show "((\<exists>e. res = Err e) \<and> s' = s \<and> r' = r \<and> g' = g)
    \<or> (\<exists>payload auth. authorised env net s p payload auth \<and> ma_role auth = action_required_role (sp_action payload)
         \<and> (\<forall>rl. last_seqno rl s' = (if rl = ma_role auth then Some (ep_seqno p) else last_seqno rl s)))"
  proof (cases rule: handle_action_cases [OF assms, case_names 1 2])
    case (1 e)
    then show ?thesis by simp
  next
    case (2 payload a s1)
    have a: "authority (ma_role a) s = Some a"
      and res: "resolve p (\<lambda>i. map_option qu_action (find_queued i s)) = Ok payload"
      using 2(1,2) by (simp_all add: authorised_def)
    have "last_seqno rl s1 = (if rl = ma_role a then Some (sp_seqno payload) else last_seqno rl s)" for rl
      by (simp add: 2(4) last_seqno_def authority_set_authority [OF a])
    moreover have "last_seqno rl s' = last_seqno rl s1" for rl
      using 2(5) accept_update_last_seqno remove_queued_last_seqno by (cases "sp_action payload") auto
    ultimately show ?thesis using 2(1,2) resolve_OkD(1) [OF res] by auto
  qed
qed (use stale_payload_refused in blast)

definition sample_authority :: "role \<Rightarrow> multisig_authority" where
  "sample_authority rl = authority_new rl \<lparr>tc_signers = [[0], [1]], tc_threshold = 1\<rparr>"

definition sample_depths :: confirmation_depths where
  "sample_depths = \<lparr>cd_strata_admin_multisig_update = 2, cd_strata_seq_manager_multisig_update = 2,
     cd_alpen_admin_multisig_update = 2, cd_strata_security_council_multisig_update = 2, cd_operator_update = 2,
     cd_sequencer_update = 2, cd_ol_stf_vk_update = 2, cd_asm_stf_vk_update = 2, cd_ee_stf_vk_update = 0,
     cd_defcon3 = 2, cd_safe_harbor_address_update = 2\<rparr>"

definition sample_admin_state :: admin_state where
  "sample_admin_state =
     \<lparr>as_authorities = map sample_authority [StrataAdministrator, StrataSequencerManager, AlpenAdministrator, StrataSecurityCouncil],
      as_queued = [\<lparr>qu_id = 0, qu_action = OlStfVk [7], qu_activation_height = 15\<rparr>,
                   \<lparr>qu_id = 1, qu_action = Sequencer [8], qu_activation_height = 16\<rparr>],
      as_next_update_id = 2, as_confirmation_depths = sample_depths, as_max_seqno_gap = 10\<rparr>"

definition sample_envelope :: envelope_payload where
  "sample_envelope = \<lparr>ep_seqno = 1, ep_action = EnvelopeUpdate (OlStfVk [5]),
     ep_signatures = [\<lparr>is_index = 1, is_signature = [0, 83, 1]\<rparr>]\<rparr>"

lemma sample_admin_inv: "admin_inv 14 sample_admin_state"
  by (simp add: admin_inv_def authorities_ok_def queue_ok_def lane_ok_def queued_of_def exclusive_def sample_admin_state_def
      sample_authority_def authority_new_def config_inv_def max_signers_def confirmation_depth_def cd_get_def sample_depths_def)

theorem admin_action_is_authorised_witness:
  "\<exists>payload auth. authorised sample_admin_env Regtest sample_admin_state sample_envelope payload auth
     \<and> last_seqno StrataAdministrator
         (fst (snd (handle_action sample_admin_env sample_envelope 15 Regtest sample_admin_state \<lparr>rl_msgs = [], rl_logs = []\<rparr> \<lparr>bug_accepted = []\<rparr>)))
       = Some 1"
proof -
  let ?r = "\<lparr>rl_msgs = [], rl_logs = []\<rparr>" and ?g = "\<lparr>bug_accepted = []\<rparr>"
  obtain res s' r' g' where run:
    "handle_action sample_admin_env sample_envelope 15 Regtest sample_admin_state ?r ?g = (res, s', r', g')" by (metis surj_pair)
  have "is_ok (fst (handle_action sample_admin_env sample_envelope 15 Regtest sample_admin_state ?r ?g))"
    by code_simp
  then have ok: "is_ok res" by (simp add: run)
  have "authorities_ok sample_admin_state" using sample_admin_inv by (simp add: admin_inv_def)
  from conjunct1 [OF admin_action_is_authorised [OF this run]]
  obtain payload auth where az: "authorised sample_admin_env Regtest sample_admin_state sample_envelope payload auth"
      "ma_role auth = action_required_role (sp_action payload)"
      "\<And>rl. last_seqno rl s' = (if rl = ma_role auth then Some (ep_seqno sample_envelope) else last_seqno rl sample_admin_state)"
    using ok by auto
  have "sp_action payload = UpdateAction (OlStfVk [5])"
    using az(1) by (auto simp: authorised_def sample_envelope_def resolve_def)
  then have "last_seqno StrataAdministrator s' = Some 1"
    using az(2,3) by (simp add: update_required_role_def sample_envelope_def)
  then show ?thesis using az(1) run by auto
qed

text \<open>C14: a block of administration.  The invariant holds for the initial state and passes from one block
  height to the next: four authorities in the order of their roles, each with a satisfiable signer set,
  and a queue of distinct identifiers below the next one, all due strictly later, whose rotations of a
  verifying key are due at pairwise different heights.  No sequence number decreases.  At most one OL
  rotation is relayed to the checkpoint subprotocol and at most one EE key is logged, counting those that
  leave the queue together with those applied at once, whatever transactions the block carries.\<close>
theorem admin_blocks_keep_invariant:
  assumes "admin_inv h s" and "unat (l1_block_height (hvs_last_verified_block header_vs)) = Suc h"
    and "nonzero_thresholds env" and "unat (as_next_update_id s) + length txs < 2 ^ 32"
    and "admin_process_txs env header_vs txs s r = (s', r')"
  shows "admin_inv (Suc h) s' \<and> (\<forall>rl. seqno_of rl s \<le> seqno_of rl s')
    \<and> (\<exists>ms ls. rl_msgs r' = rl_msgs r @ ms \<and> rl_logs r' = rl_logs r @ ls
         \<and> length (filter is_rotation_msg ms) \<le> 1 \<and> length (filter is_ee_log ls) \<le> 1)
    \<and> (admin_new env config = Some s0 \<and> (\<forall>(rl, c) \<in> set (signer_configs config). 0 < utc_threshold c) \<longrightarrow> admin_inv h s0)"
proof -
  from admin_block_spec [OF assms] obtain ready :: "queued_update list" and imm where B: "admin_inv (Suc h) s'"
    "r' = relayed env (map qu_action ready @ imm) r" "\<And>rl. seqno_of rl s \<le> seqno_of rl s'"
    "\<And>t. t \<in> exclusive \<Longrightarrow> length (filter (\<lambda>u. update_type_of u = t) (map qu_action ready @ imm)) \<le> 1" by metis
  let ?us = "map qu_action ready @ imm"
  have "length (filter is_rotation_msg (concat (map update_msgs ?us))) \<le> 1"
    and "length (filter is_ee_log (concat (map (update_logs env) ?us))) \<le> 1"
    using B(4) [of OlStfVkUpdate] B(4) [of EeStfVkUpdate] unfolding rotation_msgs_count ee_logs_count
    by (simp_all add: exclusive_def)
  moreover have "rl_msgs r' = rl_msgs r @ concat (map update_msgs ?us)"
    and "rl_logs r' = rl_logs r @ concat (map (update_logs env) ?us)" by (simp_all add: B(2) relayed_def)
  ultimately have out: "\<exists>ms ls. rl_msgs r' = rl_msgs r @ ms \<and> rl_logs r' = rl_logs r @ ls
      \<and> length (filter is_rotation_msg ms) \<le> 1 \<and> length (filter is_ee_log ls) \<le> 1" by blast
  have new: "admin_inv h s0"
    if "admin_new env config = Some s0 \<and> (\<forall>(rl, c) \<in> set (signer_configs config). 0 < utc_threshold c)"
    by (rule admin_new_inv [of env config]) (use that in auto)
  show ?thesis using B(1,3) out new by blast
qed

text \<open>C15: queued updates are enacted in time, or cancelled with authority.  Before any transaction of a block is
  looked at, the updates whose activation height is the block's leave the queue and take effect, in queue
  order: each multisig update is applied to its own role's signer set, and the others have their messages
  and logs sent; no other update leaves the queue and no sequence number moves.  The transactions are
  handled from there.  An update that is not due is still queued after the block, unless one of them names
  it in a cancel that a quorum of the role in charge of that very update signed, with a fresh number.\<close>
theorem queued_update_enacted_or_cancelled:
  assumes "admin_inv h s" and "unat (l1_block_height (hvs_last_verified_block header_vs)) = Suc h"
    and "nonzero_thresholds env" and "unat (as_next_update_id s) + length txs < 2 ^ 32"
    and "admin_process_txs env header_vs txs s r = (s', r')"
    and "due = filter (\<lambda>u. unat (qu_activation_height u) = Suc h) (as_queued s)"
  shows "\<exists>s0 r0 g'. r0 = relayed env (map qu_action due) r
    \<and> config_of s0 = fold enact_config (map qu_action due) (config_of s) \<and> (\<forall>rl. seqno_of rl s0 = seqno_of rl s)
    \<and> as_queued s0 = filter (\<lambda>u. u \<notin> set due) (as_queued s)
    \<and> admin_handle_txs env (l1_block_height (hvs_last_verified_block header_vs)) (hvs_network header_vs) txs s0 r0
        \<lparr>bug_accepted = []\<rparr> = (s', r', g')
    \<and> (\<forall>q \<in> set (as_queued s). if q \<in> set due then q \<notin> set (as_queued s')
         else q \<in> set (as_queued s') \<or> cancelled_in env (l1_block_height (hvs_last_verified_block header_vs))
           (hvs_network header_vs) txs s0 r0 \<lparr>bug_accepted = []\<rparr> q)"
proof -
  let ?height = "l1_block_height (hvs_last_verified_block header_vs)"
  obtain s0 r0 where one: "handle_pending_updates env ?height s r = (s0, r0)" by (metis surj_pair)
  obtain g' where two: "admin_handle_txs env ?height (hvs_network header_vs) txs s0 r0 \<lparr>bug_accepted = []\<rparr> = (s', r', g')"
    using assms(5) one by (auto simp: admin_process_txs_def Let_def split: prod.splits)
  have le: "qu_activation_height u \<le> ?height \<longleftrightarrow> unat (qu_activation_height u) = Suc h" if "u \<in> set (as_queued s)" for u
    using that assms(1,2) by (fastforce simp: admin_inv_def queue_ok_def word_le_nat_alt)
  then have due: "filter (\<lambda>u. qu_activation_height u \<le> ?height) (as_queued s) = due"
    unfolding assms(6) by (intro filter_cong) simp_all
  note P = handle_pending_updates_spec [OF assms(1,2) one refl, unfolded due]
  have queue: "as_queued s0 = filter (\<lambda>u. u \<notin> set due) (as_queued s)"
    unfolding P(7) using le by (intro filter_cong) (auto simp: assms(6))
  have ok: "queue_ok (unat ?height) (set (bug_accepted \<lparr>bug_accepted = []\<rparr>)) s0" using P(2) assms(2) by simp
  have "unat (as_next_update_id s0) + length txs < 2 ^ 32" using P(3) assms(4) by simp
  note kept = admin_handle_txs_kept [OF assms(3) P(1) ok this two]
  obtain ready :: "queued_update list" where "admin_inv (Suc h) s'" using admin_block_spec [OF assms(1-5)] by metis
  then have "q \<notin> set (as_queued s')" if "q \<in> set due" for q
    using that unfolding assms(6) by (auto simp: admin_inv_def queue_ok_def)
  then show ?thesis using P(5,6) handle_pending_updates_config [OF one] queue two kept unfolding due
    by (intro exI [of _ s0] exI [of _ r0] exI [of _ g']) auto
qed

definition sample_header_15 :: header_verification_state where
  "sample_header_15 = sample_hvs\<lparr>hvs_network := Regtest, hvs_last_verified_block := \<lparr>l1_block_height = 15, l1_block_blkid = []\<rparr>\<rparr>"

definition sample_admin_tx :: tx_input_ref where
  "sample_admin_tx = \<lparr>tir_tx = \<lparr>tx_input = [\<lparr>ti_previous_output = \<lparr>op_txid = [], op_vout = 0\<rparr>, ti_witness = [[1, 1, 5]]\<rparr>], tx_output = []\<rparr>,
     tir_tag = \<lparr>tag_subproto_id = 0, tag_tx_type = 11, tag_aux_data = []\<rparr>\<rparr>"

abbreviation sample_admin_block :: "admin_state \<times> relayer" where
  "sample_admin_block \<equiv> admin_process_txs sample_admin_env sample_header_15 [sample_admin_tx] sample_admin_state \<lparr>rl_msgs = [], rl_logs = []\<rparr>"

lemma sample_admin_env_nonzero: "nonzero_thresholds sample_admin_env"
  by (simp add: nonzero_thresholds_def sample_admin_env_simps)

lemma sample_admin_block_facts:
  "unat (l1_block_height (hvs_last_verified_block sample_header_15)) = Suc 14"
  "unat (as_next_update_id sample_admin_state) + length [sample_admin_tx] < 2 ^ 32"
  by (simp_all add: sample_header_15_def sample_admin_state_def)

theorem admin_blocks_keep_invariant_witness:
  "admin_inv 15 (fst sample_admin_block) \<and> parse_admin_tx sample_admin_env sample_admin_tx = Some sample_envelope
   \<and> (\<exists>ms ls. rl_msgs (snd sample_admin_block) = ms \<and> rl_logs (snd sample_admin_block) = ls
        \<and> length (filter is_rotation_msg ms) \<le> 1 \<and> length (filter is_ee_log ls) \<le> 1)"
proof -
  have "parse_admin_tx sample_admin_env sample_admin_tx = Some sample_envelope" by code_simp
  then show ?thesis
    using admin_blocks_keep_invariant [OF sample_admin_inv sample_admin_block_facts(1) sample_admin_env_nonzero
        sample_admin_block_facts(2) prod.collapse [symmetric], of "\<lparr>rl_msgs = [], rl_logs = []\<rparr>"] by auto
qed

definition sample_multisig_state :: admin_state where
  "sample_multisig_state = sample_admin_state\<lparr>as_queued :=
     [\<lparr>qu_id = 0, qu_action = StrataAdminMultisig \<lparr>tcu_add_members = [[2]], tcu_remove_members = [[0]], tcu_new_threshold = 2\<rparr>,
       qu_activation_height = 15\<rparr>, \<lparr>qu_id = 1, qu_action = Sequencer [8], qu_activation_height = 16\<rparr>]\<rparr>"

theorem queued_update_enacted_or_cancelled_witness:
  "\<exists>s0 g'. config_of s0 StrataAdministrator = Some \<lparr>tc_signers = [[1], [2]], tc_threshold = 2\<rparr>
     \<and> map qu_id (as_queued s0) = [1]
     \<and> admin_handle_txs sample_admin_env 15 Regtest [sample_admin_tx] s0 \<lparr>rl_msgs = [], rl_logs = []\<rparr> \<lparr>bug_accepted = []\<rparr>
         = (fst (admin_process_txs sample_admin_env sample_header_15 [sample_admin_tx] sample_multisig_state \<lparr>rl_msgs = [], rl_logs = []\<rparr>),
            snd (admin_process_txs sample_admin_env sample_header_15 [sample_admin_tx] sample_multisig_state \<lparr>rl_msgs = [], rl_logs = []\<rparr>), g')"
proof -
  have inv: "admin_inv 14 sample_multisig_state"
    using sample_admin_inv
    by (simp add: admin_inv_def authorities_ok_def queue_ok_def lane_ok_def queued_of_def exclusive_def sample_admin_state_def
        sample_multisig_state_def confirmation_depth_def cd_get_def sample_depths_def)
  have id: "unat (as_next_update_id sample_multisig_state) + length [sample_admin_tx] < 2 ^ 32"
    by (simp add: sample_multisig_state_def sample_admin_state_def)
  let ?due = "filter (\<lambda>u. unat (qu_activation_height u) = Suc 14) (as_queued sample_multisig_state)"
  let ?run = "admin_process_txs sample_admin_env sample_header_15 [sample_admin_tx] sample_multisig_state \<lparr>rl_msgs = [], rl_logs = []\<rparr>"
  have "fold enact_config (map qu_action ?due) (config_of sample_multisig_state) StrataAdministrator
      = Some \<lparr>tc_signers = [[1], [2]], tc_threshold = 2\<rparr>" by code_simp
  moreover have "map qu_id (filter (\<lambda>u. u \<notin> set ?due) (as_queued sample_multisig_state)) = [1]"
    "relayed sample_admin_env (map qu_action ?due) \<lparr>rl_msgs = [], rl_logs = []\<rparr> = \<lparr>rl_msgs = [], rl_logs = []\<rparr>"
    "hvs_network sample_header_15 = Regtest" "l1_block_height (hvs_last_verified_block sample_header_15) = 15"
    by (simp_all add: sample_multisig_state_def relayed_def sample_header_15_def)
  moreover obtain s0 r0 g' where
    "r0 = relayed sample_admin_env (map qu_action ?due) \<lparr>rl_msgs = [], rl_logs = []\<rparr>"
    "config_of s0 = fold enact_config (map qu_action ?due) (config_of sample_multisig_state)"
    "as_queued s0 = filter (\<lambda>u. u \<notin> set ?due) (as_queued sample_multisig_state)"
    "admin_handle_txs sample_admin_env (l1_block_height (hvs_last_verified_block sample_header_15)) (hvs_network sample_header_15)
       [sample_admin_tx] s0 r0 \<lparr>bug_accepted = []\<rparr> = (fst ?run, snd ?run, g')"
    using queued_update_enacted_or_cancelled [OF inv sample_admin_block_facts(1) sample_admin_env_nonzero id
        prod.collapse [symmetric] refl, of "\<lparr>rl_msgs = [], rl_logs = []\<rparr>"] by blast
  ultimately show ?thesis by (intro exI [of _ s0] exI [of _ g']) simp
qed

end
