(* ===== verification/Deposit_Pool.thy ===== *)
theory Deposit_Pool
  imports Checkpoint_Types Bridge_Txs
begin

text \<open>
  The checkpoint subprotocol's view of the bridge's deposits,
  \<open>crates/subprotocols/checkpoint/verification/src/deposit_pool.rs\<close>: a count of unspent bridge
  outputs of one denomination.  Withdrawals are first verified, which yields the remaining count (the
  opaque token of the source), and deducted by applying it.
\<close>

record deposit_pool =
  dp_denomination :: u64
  dp_count :: u32

section \<open>Operations\<close>

definition bitcoin_amount :: "'e checkpoint_env_scheme \<Rightarrow> u64 \<Rightarrow> u64 option" where
  "bitcoin_amount env sats = bitcoin_amount_try_from env sats"

fun sum_amounts :: "withdrawal_intent list \<Rightarrow> u64 \<Rightarrow> u64 option" where
  "sum_amounts [] acc = Some acc"
| "sum_amounts (intent # intents) acc = checked_add acc (wi_amt intent) \<bind> sum_amounts intents"

definition total_withdrawal_amount ::
  "'e checkpoint_env_scheme \<Rightarrow> withdrawal_intent list \<Rightarrow> (invalid_checkpoint_payload, u64) result" where
  "total_withdrawal_amount env intents =
     res_bind (ok_or WithdrawalTotalTooLarge (sum_amounts intents 0)) (\<lambda>sats.
       ok_or WithdrawalTotalTooLarge (bitcoin_amount_try_from env sats))"

definition dp_new_empty :: deposit_pool where
  "dp_new_empty = \<lparr>dp_denomination = 0, dp_count = 0\<rparr>"

definition dp_total :: "'e checkpoint_env_scheme \<Rightarrow> deposit_pool \<Rightarrow> u64 option" where
  "dp_total env p = checked_mul (dp_denomination p) (ucast (dp_count p)) \<bind> bitcoin_amount env"

definition dp_is_empty :: "deposit_pool \<Rightarrow> bool" where
  "dp_is_empty p = (dp_count p = 0 \<and> dp_denomination p = 0)"

definition dp_record :: "u64 \<Rightarrow> deposit_pool \<Rightarrow> deposit_pool" where
  "dp_record amount p =
     (if dp_is_empty p then p\<lparr>dp_denomination := amount, dp_count := dp_count p + 1\<rparr>
      else if amount \<noteq> dp_denomination p then p
      else p\<lparr>dp_count := dp_count p + 1\<rparr>)"

fun required_units ::
  "u64 \<Rightarrow> withdrawal_intent list \<Rightarrow> u64 option \<Rightarrow> (invalid_checkpoint_payload, u64 option) result" where
  "required_units denomination [] required = Ok required"
| "required_units denomination (intent # intents) required =
     (case denomination_units intent denomination of
        Some units \<Rightarrow>
          if 0 < units then required_units denomination intents (required \<bind> (\<lambda>sum. checked_add sum units))
          else Err (DenominationMismatch denomination (wi_amt intent))
      | None \<Rightarrow> Err (DenominationMismatch denomination (wi_amt intent)))"

definition verify_withdrawals ::
  "'e checkpoint_env_scheme \<Rightarrow> withdrawal_intent list \<Rightarrow> deposit_pool
     \<Rightarrow> (invalid_checkpoint_payload, u32) result option" where
  "verify_withdrawals env intents p =
     (if intents = [] then Some (Ok (dp_count p))
      else if dp_count p = 0
      then Some (res_bind (total_withdrawal_amount env intents) (\<lambda>required. Err (InsufficientFunds 0 required)))
      else
        (let insufficient =
               do {
                 available \<leftarrow> dp_total env p;
                 Some (res_bind (total_withdrawal_amount env intents) (\<lambda>required.
                   Err (InsufficientFunds available required)))
               }
         in case required_units (dp_denomination p) intents (Some 0) of
              Err e \<Rightarrow> Some (Err e)
            | Ok (Some required) \<Rightarrow>
                if required \<le> ucast (dp_count p) then Some (Ok (dp_count p - ucast required)) else insufficient
            | Ok None \<Rightarrow> insufficient))"

definition apply_withdrawals :: "u32 \<Rightarrow> deposit_pool \<Rightarrow> deposit_pool" where
  "apply_withdrawals token p = p\<lparr>dp_count := token\<rparr>"

section \<open>Laws\<close>

text \<open>The value of a pool and of a list of intents, in satoshis.\<close>

abbreviation pool_value :: "deposit_pool \<Rightarrow> nat" where
  "pool_value p \<equiv> unat (dp_denomination p) * unat (dp_count p)"

abbreviation intents_value :: "withdrawal_intent list \<Rightarrow> nat" where
  "intents_value ws \<equiv> sum_list (map (\<lambda>w. unat (wi_amt w)) ws)"

definition whole_multiple :: "u64 \<Rightarrow> withdrawal_intent \<Rightarrow> bool" where
  "whole_multiple d w = (0 < unat (wi_amt w) \<and> unat d dvd unat (wi_amt w) \<and> 0 < unat d)"

lemma unat_ucast_u64: "unat (ucast (c :: u32) :: u64) = unat c"
  using unat_u32_lt [of c] by (simp add: unsigned_ucast_eq take_bit_nat_eq_self)

lemma unat_ucast_u32: "unat n < 2 ^ 32 \<Longrightarrow> unat (ucast (n :: u64) :: u32) = unat n"
  by (simp add: unsigned_ucast_eq take_bit_nat_eq_self)

lemma units_iff:
  "(\<exists>n. denomination_units w d = Some n \<and> 0 < n) \<longleftrightarrow> whole_multiple d w"
proof
  assume "\<exists>n. denomination_units w d = Some n \<and> 0 < n"
  then obtain n where n: "denomination_units w d = Some n" "0 < n" by blast
  then have "0 < unat n" by (simp add: unat_gt_0)
  with denomination_units_SomeD [OF n(1)] show "whole_multiple d w" by (simp add: whole_multiple_def)
next
  assume m: "whole_multiple d w"
  then obtain k where k: "unat (wi_amt w) = k * unat d" "0 < unat d" "0 < k"
    by (auto simp: whole_multiple_def elim!: dvdE)
  obtain n where n: "denomination_units w d = Some n" "unat n = k" using denomination_units_exact [OF k(2,1)] by blast
  then have "0 < n" using k(3) by (simp add: word_less_nat_alt)
  then show "\<exists>n. denomination_units w d = Some n \<and> 0 < n" using n by blast
qed

lemma required_units_spec:
  shows "required_units d ws acc = Err e \<Longrightarrow> \<exists>w \<in> set ws. \<not> whole_multiple d w \<and> e = DenominationMismatch d (wi_amt w)"
    and "required_units d ws acc = Ok r \<Longrightarrow> (\<forall>w \<in> set ws. whole_multiple d w)
      \<and> (case acc of
           None \<Rightarrow> r = None
         | Some a \<Rightarrow> (case r of
             None \<Rightarrow> 2 ^ 64 * unat d \<le> unat a * unat d + intents_value ws
           | Some n \<Rightarrow> unat n * unat d = unat a * unat d + intents_value ws))"
proof (induction ws arbitrary: acc)
  case (Cons w ws)
  {
    case 1
    show ?case
    proof (cases "whole_multiple d w")
      case True
      then obtain n where "denomination_units w d = Some n" "0 < n" using units_iff by blast
      then show ?thesis using 1 Cons.IH(1) by auto
    next
      case False
      then have "e = DenominationMismatch d (wi_amt w)"
        using 1 units_iff [of w d] by (auto split: option.splits if_splits)
      then show ?thesis using False by auto
    qed
  next
    case 2
    then obtain n where n: "denomination_units w d = Some n" "0 < n"
      and r: "required_units d ws (acc \<bind> (\<lambda>sum. checked_add sum n)) = Ok r"
      by (auto split: option.splits if_splits)
    have w: "whole_multiple d w" using n units_iff by blast
    note amt = denomination_units_SomeD(2) [OF n(1)]
    note IH = Cons.IH(2) [OF r]
    show ?case
    proof (cases acc)
      case None
      then show ?thesis using IH w by simp
    next
      case (Some a)
      show ?thesis
      proof (cases "checked_add a n")
        case None
        then have "2 ^ 64 \<le> unat a + unat n"
          using uint_add_less_iff [of a n] by (auto simp: checked_add_def split: if_splits)
        then have "2 ^ 64 * unat d \<le> (unat a + unat n) * unat d" by (rule mult_right_mono) simp
        then show ?thesis using IH w amt Some None by (simp add: algebra_simps)
      next
        case (Some b)
        then show ?thesis using IH w amt \<open>acc = Some a\<close> checked_add_SomeD(2) [OF Some]
          by (auto simp: algebra_simps split: option.splits)
      qed
    qed
  }
qed (auto split: option.splits)

lemma intents_value_pos:
  "ws \<noteq> [] \<Longrightarrow> \<forall>w \<in> set ws. whole_multiple d w \<Longrightarrow> 0 < intents_value ws"
  by (cases ws) (auto simp: whole_multiple_def)

lemma dvd_intents_value: "\<forall>w \<in> set ws. whole_multiple d w \<Longrightarrow> unat d dvd intents_value ws"
  by (induction ws) (auto simp: whole_multiple_def)

lemma verify_withdrawals_OkD:
  assumes "verify_withdrawals env ws p = Some (Ok token)"
  shows "\<forall>w \<in> set ws. whole_multiple (dp_denomination p) w"
    and "unat token \<le> unat (dp_count p)"
    and "unat (dp_denomination p) * unat token + intents_value ws = pool_value p"
    and "unat token = unat (dp_count p) - intents_value ws div unat (dp_denomination p)"
proof -
  let ?d = "dp_denomination p" and ?c = "dp_count p"
  have "(\<forall>w \<in> set ws. whole_multiple ?d w) \<and> unat token \<le> unat ?c \<and> unat ?d * unat token + intents_value ws = pool_value p
      \<and> unat token = unat ?c - intents_value ws div unat ?d"
  proof (cases "ws = []")
    case True
    then show ?thesis using assms by (simp add: verify_withdrawals_def)
  next
    case False
    then obtain n where n: "required_units ?d ws (Some 0) = Ok (Some n)" "n \<le> ucast ?c" "token = ?c - ucast n"
      using assms by (auto simp: verify_withdrawals_def Let_def res_simps split: if_splits sum.splits option.splits bind_splits)
    note R = required_units_spec(2) [OF n(1)]
    have le: "unat n \<le> unat ?c" using n(2) by (simp add: word_le_nat_alt unat_ucast_u64)
    then have n32: "unat (ucast n :: u32) = unat n"
      using unat_u32_lt [of ?c] by (intro unat_ucast_u32) linarith
    then have t: "unat token = unat ?c - unat n" using n(3) le by (simp add: unat_sub word_le_nat_alt)
    have v: "unat n * unat ?d = intents_value ws" using R by simp
    moreover have "0 < unat ?d" using R False by (cases ws) (auto simp: whole_multiple_def)
    ultimately have "intents_value ws div unat ?d = unat n" by (metis nonzero_mult_div_cancel_right less_numeral_extra(3))
    moreover have "unat ?d * (unat ?c - unat n) + unat n * unat ?d = unat ?d * unat ?c"
      using le by (simp add: diff_mult_distrib2 mult.commute)
    ultimately show ?thesis using R t v by simp
  qed
  then show "\<forall>w \<in> set ws. whole_multiple ?d w" "unat token \<le> unat ?c"
    "unat ?d * unat token + intents_value ws = pool_value p"
    "unat token = unat ?c - intents_value ws div unat ?d" by blast+
qed

lemma verify_withdrawals_total:
  assumes "verify_withdrawals env ws p = None"
  shows "dp_total env p = None"
  using assms by (auto simp: verify_withdrawals_def Let_def split: if_splits sum.splits option.splits bind_splits)

lemma verify_withdrawals_accepts:
  assumes m: "\<forall>w \<in> set ws. whole_multiple (dp_denomination p) w" and le: "intents_value ws \<le> pool_value p"
  shows "\<exists>token. verify_withdrawals env ws p = Some (Ok token)"
proof (cases "ws = []")
  case False
  let ?d = "dp_denomination p" and ?c = "dp_count p"
  have d: "0 < unat ?d" using False m by (cases ws) (auto simp: whole_multiple_def)
  have c: "?c \<noteq> 0" using intents_value_pos [OF False m] le by (metis mult_0_right not_le unat_0)
  obtain r where r: "required_units ?d ws (Some 0) = Ok r"
    using required_units_spec(1) [of ?d ws "Some 0"] m by (cases "required_units ?d ws (Some 0)") auto
  note R = required_units_spec(2) [OF r]
  obtain n where n: "r = Some n"
  proof (cases r)
    case None
    then have "2 ^ 64 * unat ?d \<le> intents_value ws" using R by simp
    then have "2 ^ 64 * unat ?d \<le> unat ?c * unat ?d" using le by (simp only: mult.commute [of "unat ?d"] le_trans)
    then have "2 ^ 64 \<le> unat ?c" using d mult_le_cancel2 by blast
    then show ?thesis using unat_u32_lt [of ?c] by simp
  qed (rule that)
  then have "unat n * unat ?d \<le> unat ?c * unat ?d" using R le by (simp add: mult.commute)
  then have "unat n \<le> unat ?c" using d by simp
  then have "n \<le> ucast ?c" by (simp add: word_le_nat_alt unat_ucast_u64)
  then show ?thesis using False c r n by (simp add: verify_withdrawals_def Let_def)
qed (simp add: verify_withdrawals_def)

section \<open>Properties\<close>

text \<open>C20: withdrawals are admitted exactly when the pool covers them.  Verification succeeds if and
  only if every intent is a positive multiple of the denomination and together they are worth no
  more than the pool; applying the result leaves the pool worth precisely the difference, with no
  wrap-around of the 64-bit unit count or of the 32-bit output count.  Verification panics only if
  the total of the pool is not a Bitcoin amount.\<close>
theorem withdrawals_within_pool:
  "((\<exists>token. verify_withdrawals env ws p = Some (Ok token)) \<longleftrightarrow>
      (\<forall>w \<in> set ws. whole_multiple (dp_denomination p) w) \<and> intents_value ws \<le> pool_value p)
   \<and> (verify_withdrawals env ws p = Some (Ok token) \<longrightarrow>
        pool_value (apply_withdrawals token p) + intents_value ws = pool_value p
        \<and> dp_denomination (apply_withdrawals token p) = dp_denomination p
        \<and> unat token = unat (dp_count p) - intents_value ws div unat (dp_denomination p))
   \<and> (verify_withdrawals env ws p = None \<longrightarrow> dp_total env p = None)"
proof (intro conjI impI iffI)
  assume "\<exists>token. verify_withdrawals env ws p = Some (Ok token)"
  then obtain t where t: "verify_withdrawals env ws p = Some (Ok t)" by blast
  note D = verify_withdrawals_OkD [OF t]
  show "\<forall>w \<in> set ws. whole_multiple (dp_denomination p) w" by (rule D(1))
  show "intents_value ws \<le> pool_value p" using D(3) by linarith
next
  assume "(\<forall>w \<in> set ws. whole_multiple (dp_denomination p) w) \<and> intents_value ws \<le> pool_value p"
  then show "\<exists>token. verify_withdrawals env ws p = Some (Ok token)" using verify_withdrawals_accepts by blast
next
  assume "verify_withdrawals env ws p = Some (Ok token)"
  note D = verify_withdrawals_OkD [OF this]
  show "pool_value (apply_withdrawals token p) + intents_value ws = pool_value p"
    using D(3) by (simp add: apply_withdrawals_def)
  show "unat token = unat (dp_count p) - intents_value ws div unat (dp_denomination p)" by (rule D(4))
next
  show "verify_withdrawals env ws p = None \<Longrightarrow> dp_total env p = None" by (rule verify_withdrawals_total)
qed (simp add: apply_withdrawals_def)

definition sample_payload :: "bytes \<Rightarrow> (string, checkpoint_payload) result" where
  "sample_payload b =
     (case b of
        [e, h, slot, amt] \<Rightarrow>
          Ok \<lparr>cp_new_tip = \<lparr>ct_epoch = ucast e, ct_l1_height = ucast h,
                ct_l2_commitment = \<lparr>olbc_slot = ucast slot, olbc_blkid = []\<rparr>\<rparr>,
              cp_sidecar = \<lparr>sc_ol_state_diff = [], sc_ol_logs = [\<lparr>ol_account_serial = 1, ol_payload = [amt]\<rparr>],
                sc_terminal_header_complement =
                  \<lparr>thc_timestamp = 0, thc_parent_blkid = [], thc_body_root = [], thc_logs_root = []\<rparr>\<rparr>,
              cp_proof = [42]\<rparr>
      | _ \<Rightarrow> Err ''codec'')"

definition sample_checkpoint_env :: checkpoint_env where
  "sample_checkpoint_env = bridge_env.extend sample_tx_env (checkpoint_env.fields
     (\<lambda>i. Ok \<lparr>es_spent_outpoint = ti_previous_output i,
             es_unverified_leaf = \<lparr>el_pubkey = [7], el_payload = concat (ti_witness i)\<rparr>\<rparr>)
     (\<lambda>spend script. if take 1 script = [81] then Ok (es_unverified_leaf spend) else Err ''not taproot'')
     sample_payload
     (\<lambda>key claim proof. if proof = [42] then Ok () else Err ''invalid'')
     (\<lambda>c. [ucast (cc_epoch c)]) (\<lambda>_. []) (\<lambda>b. b) (\<lambda>_. []) 1
     (\<lambda>l. case ol_payload l of
        [a] \<Rightarrow> Ok \<lparr>wld_dest = [1], wld_amt = ucast a, wld_selected_operator = 4294967295\<rparr>
      | _ \<Rightarrow> Err ''log'')
     Ok
     (\<lambda>x. if x \<le> 2100000000000000 then Some x else None)
     concat)"

definition sample_pool_intent :: "u64 \<Rightarrow> withdrawal_intent" where
  "sample_pool_intent a = \<lparr>wi_destination = [1], wi_amt = a, wi_selected_operator = sel_any\<rparr>"

theorem withdrawals_within_pool_witness:
  "\<exists>token. verify_withdrawals sample_checkpoint_env [sample_pool_intent 20, sample_pool_intent 10]
       \<lparr>dp_denomination = 10, dp_count = 5\<rparr> = Some (Ok token)
     \<and> unat token = 2"
proof -
  let ?ws = "[sample_pool_intent 20, sample_pool_intent 10]" and ?p = "\<lparr>dp_denomination = 10, dp_count = 5\<rparr>"
  have "(\<forall>w \<in> set ?ws. whole_multiple (dp_denomination ?p) w) \<and> intents_value ?ws \<le> pool_value ?p"
    by (simp add: whole_multiple_def sample_pool_intent_def)
  then obtain t where t: "verify_withdrawals sample_checkpoint_env ?ws ?p = Some (Ok t)"
    using withdrawals_within_pool [of sample_checkpoint_env ?ws ?p] by blast
  then have "unat t = 2"
    using withdrawals_within_pool [of sample_checkpoint_env ?ws ?p t] by (simp add: sample_pool_intent_def)
  then show ?thesis using t by blast
qed

end
