(* ===== verification/Checkpoint_State.thy ===== *)
theory Checkpoint_State
  imports Deposit_Pool
begin

text \<open>
  Checkpoint verification, \<open>crates/subprotocols/checkpoint/verification/src\<close>: the progression rules
  and the proof check of \<open>verification.rs\<close> and the state of \<open>state.rs\<close> with its queue of predicate
  rotations.  \<open>advance\<close> returns the new state together with the extracted intents; on an error the
  state is the caller's old one, since the source mutates it only after the last check.
\<close>

datatype checkpoint_l1_range = EmptyCoverage | CoverageRange u32 u32

section \<open>Verification\<close>

definition verify_progression ::
  "checkpoint_tip \<Rightarrow> checkpoint_tip \<Rightarrow> l1_height \<Rightarrow> pending_predicate_transition option
     \<Rightarrow> (checkpoint_validation_error, checkpoint_l1_range) result" where
  "verify_progression last_verified_tip new_tip current_l1_height next_transition =
     map_err InvalidPayload
     (res_bind (ok_or EpochOverflow (checked_add (ct_epoch last_verified_tip) 1)) (\<lambda>expected_epoch.
      if ct_epoch new_tip \<noteq> expected_epoch then Err (InvalidEpoch expected_epoch (ct_epoch new_tip))
      else
        let prev_height = ct_l1_height last_verified_tip;
            new_height = ct_l1_height new_tip;
            prev_slot = olbc_slot (ct_l2_commitment last_verified_tip);
            new_slot = olbc_slot (ct_l2_commitment new_tip)
        in if current_l1_height \<le> new_height then Err (CheckpointBeyondL1Tip new_height current_l1_height)
           else if new_height < prev_height then Err (L1HeightRegresses prev_height new_height)
           else if new_slot \<le> prev_slot then Err (L2SlotDoesNotAdvance prev_slot new_slot)
           else if prev_height = new_height then Ok EmptyCoverage
           else
             let start_height = prev_height + 1; end_height = new_height
             in case next_transition of
                  Some next \<Rightarrow>
                    if ppt_boundary next < end_height
                    then Err (RangeStraddlesPredicateBoundary start_height end_height (ppt_boundary next))
                    else Ok (CoverageRange start_height end_height)
                | None \<Rightarrow> Ok (CoverageRange start_height end_height)))"

definition construct_full_claim ::
  "'e checkpoint_env_scheme \<Rightarrow> checkpoint_tip \<Rightarrow> checkpoint_tip \<Rightarrow> checkpoint_sidecar \<Rightarrow> buf32 \<Rightarrow> checkpoint_claim" where
  "construct_full_claim env last_verified_tip new_tip sidecar asm_manifests_hash =
     \<lparr>cc_epoch = ct_epoch new_tip,
      cc_l2_range = \<lparr>l2r_start = ct_l2_commitment last_verified_tip, l2r_end = ct_l2_commitment new_tip\<rparr>,
      cc_asm_manifests_hash = asm_manifests_hash,
      cc_state_diff_hash = hash_raw env (sc_ol_state_diff sidecar),
      cc_ol_logs_hash = hash_raw env (ol_logs_ssz_bytes env (sc_ol_logs sidecar)),
      cc_terminal_header_complement_hash = complement_tree_hash_root env (sc_terminal_header_complement sidecar)\<rparr>"

definition verify_proof ::
  "'e checkpoint_env_scheme \<Rightarrow> predicate_key \<Rightarrow> checkpoint_tip \<Rightarrow> checkpoint_payload \<Rightarrow> buf32
     \<Rightarrow> (checkpoint_validation_error, unit) result" where
  "verify_proof env predicate last_verified_tip payload asm_manifests_hash =
     (let claim = construct_full_claim env last_verified_tip (cp_new_tip payload) (cp_sidecar payload) asm_manifests_hash
      in map_err (\<lambda>e. InvalidPayload (CheckpointPredicateVerification e))
           (verify_claim_witness env predicate (claim_ssz_bytes env claim) (cp_proof payload)))"

definition verify_sequencer_key :: "buf32 \<Rightarrow> bytes \<Rightarrow> (checkpoint_validation_error, unit) result" where
  "verify_sequencer_key sequencer_key envelope_pubkey =
     (if envelope_pubkey \<noteq> sequencer_key
      then Err (InvalidSequencerKey (PubkeyMismatch sequencer_key envelope_pubkey))
      else Ok ())"

fun extract_withdrawal_intents ::
  "'e checkpoint_env_scheme \<Rightarrow> ol_log list \<Rightarrow> (checkpoint_validation_error, withdrawal_intent list) result" where
  "extract_withdrawal_intents env [] = Ok []"
| "extract_withdrawal_intents env (log # logs) =
     (if ol_account_serial log \<noteq> bridge_gateway_acct_serial env then extract_withdrawal_intents env logs
      else
        (case try_into_withdrawal_log env log of
           Err _ \<Rightarrow> extract_withdrawal_intents env logs
         | Ok withdrawal_data \<Rightarrow>
        (case descriptor_from_bytes env (wld_dest withdrawal_data) of
           Err _ \<Rightarrow> Err (InvalidPayload MalformedWithdrawalDestDesc)
         | Ok destination \<Rightarrow>
        (case bitcoin_amount_try_from env (wld_amt withdrawal_data) of
           None \<Rightarrow> Err (InvalidPayload (InvalidWithdrawalAmount (wld_amt withdrawal_data)))
         | Some amount \<Rightarrow>
             res_bind (extract_withdrawal_intents env logs) (\<lambda>rest.
               Ok (\<lparr>wi_destination = destination, wi_amt = amount,
                    wi_selected_operator = wld_selected_operator withdrawal_data\<rparr> # rest))))))"

section \<open>State\<close>

record checkpoint_state =
  cs_sequencer_key :: buf32
  cs_checkpoint_predicate :: predicate_key
  cs_pending_transition :: "pending_predicate_transition list"
  cs_verified_tip :: checkpoint_tip
  cs_deposits :: deposit_pool

definition max_pending_predicate_transitions :: nat where
  "max_pending_predicate_transitions = 8"

definition cs_new :: "buf32 \<Rightarrow> predicate_key \<Rightarrow> checkpoint_tip \<Rightarrow> checkpoint_state" where
  "cs_new sequencer_key checkpoint_predicate verified_tip =
     \<lparr>cs_sequencer_key = sequencer_key, cs_checkpoint_predicate = checkpoint_predicate,
      cs_pending_transition = [], cs_verified_tip = verified_tip, cs_deposits = dp_new_empty\<rparr>"

definition cs_init :: "checkpoint_init_config \<Rightarrow> checkpoint_state" where
  "cs_init config =
     cs_new (cic_sequencer_key config) (cic_checkpoint_predicate config)
       \<lparr>ct_epoch = 0, ct_l1_height = cic_genesis_l1_height config,
        ct_l2_commitment = \<lparr>olbc_slot = 0, olbc_blkid = cic_genesis_ol_blkid config\<rparr>\<rparr>"

definition next_transition :: "checkpoint_state \<Rightarrow> pending_predicate_transition option" where
  "next_transition s = (case cs_pending_transition s of [] \<Rightarrow> None | t # _ \<Rightarrow> Some t)"

definition update_sequencer_key :: "buf32 \<Rightarrow> checkpoint_state \<Rightarrow> checkpoint_state" where
  "update_sequencer_key new_key s = s\<lparr>cs_sequencer_key := new_key\<rparr>"

definition queue_predicate_transition ::
  "pending_predicate_transition \<Rightarrow> checkpoint_state \<Rightarrow> checkpoint_state option" where
  "queue_predicate_transition transition s =
     (let queue = cs_pending_transition s in
      if queue \<noteq> [] \<and> \<not> ppt_boundary (last queue) < ppt_boundary transition then None
      else
        let queue' = (if length queue = max_pending_predicate_transitions then tl queue else queue)
        in if length queue' < max_pending_predicate_transitions
           then Some (s\<lparr>cs_pending_transition := queue' @ [transition]\<rparr>)
           else None)"

definition promote_elapsed_transition :: "checkpoint_state \<Rightarrow> checkpoint_state" where
  "promote_elapsed_transition s =
     (case cs_pending_transition s of
        [] \<Rightarrow> s
      | activated # queue \<Rightarrow>
          if ppt_boundary activated \<le> ct_l1_height (cs_verified_tip s)
          then s\<lparr>cs_checkpoint_predicate := ppt_predicate activated, cs_pending_transition := queue\<rparr>
          else s)"

definition update_verified_tip :: "checkpoint_tip \<Rightarrow> checkpoint_state \<Rightarrow> checkpoint_state" where
  "update_verified_tip new_tip s = s\<lparr>cs_verified_tip := new_tip\<rparr>"

definition record_deposit :: "u64 \<Rightarrow> checkpoint_state \<Rightarrow> checkpoint_state" where
  "record_deposit amount s = s\<lparr>cs_deposits := dp_record amount (cs_deposits s)\<rparr>"

definition advance ::
  "'e checkpoint_env_scheme \<Rightarrow> checkpoint_payload \<Rightarrow> buf32 \<Rightarrow> checkpoint_state
     \<Rightarrow> (checkpoint_validation_error, checkpoint_state \<times> withdrawal_intent list) result option" where
  "advance env payload asm_manifests_hash s =
     (case extract_withdrawal_intents env (sc_ol_logs (cp_sidecar payload)) of
        Err e \<Rightarrow> Some (Err e)
      | Ok withdrawal_intents \<Rightarrow>
     (case verify_withdrawals env withdrawal_intents (cs_deposits s) of
        None \<Rightarrow> None
      | Some (Err e) \<Rightarrow> Some (Err (InvalidPayload e))
      | Some (Ok token) \<Rightarrow>
     (case verify_proof env (cs_checkpoint_predicate s) (cs_verified_tip s) payload asm_manifests_hash of
        Err e \<Rightarrow> Some (Err e)
      | Ok _ \<Rightarrow>
          Some (Ok (promote_elapsed_transition
                      (update_verified_tip (cp_new_tip payload)
                        (s\<lparr>cs_deposits := apply_withdrawals token (cs_deposits s)\<rparr>)),
                    withdrawal_intents)))))"

section \<open>The rotation schedule\<close>

text \<open>The pending transitions are a schedule: a rotation governs the heights strictly after its
  boundary, until the next one.  \<open>governing\<close> reads off the key for a height.\<close>

fun scheduled :: "pending_predicate_transition list \<Rightarrow> predicate_key \<Rightarrow> nat \<Rightarrow> predicate_key" where
  "scheduled [] key h = key"
| "scheduled (t # ts) key h = (if unat (ppt_boundary t) < h then scheduled ts (ppt_predicate t) h else key)"

definition governing :: "checkpoint_state \<Rightarrow> nat \<Rightarrow> predicate_key" where
  "governing s h = scheduled (cs_pending_transition s) (cs_checkpoint_predicate s) h"

text \<open>The invariant, relative to the height of the last processed block: the verified tip is not
  ahead of the chain, the queue is bounded, and its boundaries strictly increase from above the tip to
  at most that height.\<close>

definition checkpoint_inv :: "nat \<Rightarrow> checkpoint_state \<Rightarrow> bool" where
  "checkpoint_inv h s \<longleftrightarrow>
     unat (ct_l1_height (cs_verified_tip s)) \<le> h
     \<and> length (cs_pending_transition s) \<le> max_pending_predicate_transitions
     \<and> sorted_wrt (<) (map ppt_boundary (cs_pending_transition s))
     \<and> (\<forall>t \<in> set (cs_pending_transition s).
          ct_l1_height (cs_verified_tip s) < ppt_boundary t \<and> unat (ppt_boundary t) \<le> h)"

lemma checkpoint_inv_init: "unat (cic_genesis_l1_height c) \<le> h \<Longrightarrow> checkpoint_inv h (cs_init c)"
  by (simp add: checkpoint_inv_def cs_init_def cs_new_def)

lemma checkpoint_inv_mono: "checkpoint_inv h s \<Longrightarrow> h \<le> h' \<Longrightarrow> checkpoint_inv h' s"
  by (force simp: checkpoint_inv_def)

lemma scheduled_app:
  "sorted_wrt (<) (map ppt_boundary (ts @ [t])) \<Longrightarrow>
     scheduled (ts @ [t]) key h = (if unat (ppt_boundary t) < h then ppt_predicate t else scheduled ts key h)"
  by (induction ts arbitrary: key) (force simp: word_less_nat_alt)+

lemma scheduled_below:
  "\<forall>t \<in> set ts. h \<le> unat (ppt_boundary t) \<Longrightarrow> scheduled ts key h = key"
  by (cases ts) auto

lemma verify_progression_OkD:
  assumes "verify_progression prev new h next = Ok coverage"
  shows "unat (ct_epoch new) = unat (ct_epoch prev) + 1"
    and "ct_l1_height new < h" and "ct_l1_height prev \<le> ct_l1_height new"
    and "olbc_slot (ct_l2_commitment prev) < olbc_slot (ct_l2_commitment new)"
    and "coverage = (if ct_l1_height prev = ct_l1_height new then EmptyCoverage
                     else CoverageRange (ct_l1_height prev + 1) (ct_l1_height new))"
    and "next = Some t \<Longrightarrow> ct_l1_height prev < ppt_boundary t \<Longrightarrow> ct_l1_height new \<le> ppt_boundary t"
proof -
  obtain e where e: "checked_add (ct_epoch prev) 1 = Some e"
    using assms by (cases "checked_add (ct_epoch prev) 1") (auto simp: verify_progression_def)
  note V = assms [unfolded verify_progression_def e Let_def, simplified]
  have "ct_epoch new = e" using V by (auto split: if_splits)
  then show "unat (ct_epoch new) = unat (ct_epoch prev) + 1" using checked_add_SomeD(2) [OF e] by simp
  show "ct_l1_height new < h" "ct_l1_height prev \<le> ct_l1_height new"
    "olbc_slot (ct_l2_commitment prev) < olbc_slot (ct_l2_commitment new)"
    using V by (auto split: if_splits)
  show "coverage = (if ct_l1_height prev = ct_l1_height new then EmptyCoverage
                     else CoverageRange (ct_l1_height prev + 1) (ct_l1_height new))"
    using V by (auto split: if_splits option.splits)
  show "ct_l1_height new \<le> ppt_boundary t" if "next = Some t" "ct_l1_height prev < ppt_boundary t"
    using V that by (auto split: if_splits)
qed

lemma promote_spec:
  assumes sorted: "sorted_wrt (<) (map ppt_boundary (cs_pending_transition s))"
    and above: "\<forall>t \<in> set (cs_pending_transition s). ct_l1_height (cs_verified_tip s) \<le> ppt_boundary t"
  shows "\<forall>t \<in> set (cs_pending_transition (promote_elapsed_transition s)).
      ct_l1_height (cs_verified_tip s) < ppt_boundary t \<and> t \<in> set (cs_pending_transition s)"
    and "sorted_wrt (<) (map ppt_boundary (cs_pending_transition (promote_elapsed_transition s)))"
    and "length (cs_pending_transition (promote_elapsed_transition s)) \<le> length (cs_pending_transition s)"
    and "unat (ct_l1_height (cs_verified_tip s)) < h \<Longrightarrow>
      governing (promote_elapsed_transition s) h = governing s h"
    and "cs_verified_tip (promote_elapsed_transition s) = cs_verified_tip s"
    and "cs_deposits (promote_elapsed_transition s) = cs_deposits s"
    and "cs_sequencer_key (promote_elapsed_transition s) = cs_sequencer_key s"
proof -
  show "\<forall>t \<in> set (cs_pending_transition (promote_elapsed_transition s)).
      ct_l1_height (cs_verified_tip s) < ppt_boundary t \<and> t \<in> set (cs_pending_transition s)"
  proof (cases "cs_pending_transition s")
    case (Cons t ts)
    then have "ct_l1_height (cs_verified_tip s) < ppt_boundary u" if "u \<in> set ts" for u
      using assms that by (auto intro: le_less_trans [of _ "ppt_boundary t"])
    then show ?thesis using Cons by (auto simp: promote_elapsed_transition_def)
  qed (simp add: promote_elapsed_transition_def)
qed (use assms in \<open>auto simp: promote_elapsed_transition_def governing_def word_le_nat_alt split: list.splits\<close>)

lemma advance_OkD:
  assumes "advance env payload hash s = Some (Ok (s', ws))"
  shows "\<exists>token. extract_withdrawal_intents env (sc_ol_logs (cp_sidecar payload)) = Ok ws
    \<and> verify_withdrawals env ws (cs_deposits s) = Some (Ok token)
    \<and> verify_proof env (cs_checkpoint_predicate s) (cs_verified_tip s) payload hash = Ok ()
    \<and> s' = promote_elapsed_transition (update_verified_tip (cp_new_tip payload)
              (s\<lparr>cs_deposits := apply_withdrawals token (cs_deposits s)\<rparr>))"
  using assms
  by (cases "extract_withdrawal_intents env (sc_ol_logs (cp_sidecar payload))";
      cases "verify_proof env (cs_checkpoint_predicate s) (cs_verified_tip s) payload hash")
    (auto simp: advance_def split: option.splits sum.splits)

lemma advance_step:
  assumes inv: "checkpoint_inv h s"
    and prog: "verify_progression (cs_verified_tip s) (cp_new_tip payload) cur (next_transition s) = Ok coverage"
    and adv: "advance env payload hash s = Some (Ok (s', ws))"
    and cur: "unat cur \<le> Suc h"
  shows "checkpoint_inv h s'"
    and "cs_verified_tip s' = cp_new_tip payload" and "cs_sequencer_key s' = cs_sequencer_key s"
    and "\<exists>token. verify_withdrawals env ws (cs_deposits s) = Some (Ok token) \<and> cs_deposits s' = apply_withdrawals token (cs_deposits s)"
    and "unat (ct_l1_height (cp_new_tip payload)) < x \<Longrightarrow> governing s' x = governing s x"
    and "x \<le> unat (ct_l1_height (cp_new_tip payload)) \<Longrightarrow> governing s x = cs_checkpoint_predicate s"
proof -
  obtain token where a: "verify_withdrawals env ws (cs_deposits s) = Some (Ok token)"
    "s' = promote_elapsed_transition (update_verified_tip (cp_new_tip payload)
              (s\<lparr>cs_deposits := apply_withdrawals token (cs_deposits s)\<rparr>))"
    using advance_OkD [OF adv] by blast
  define m where "m = update_verified_tip (cp_new_tip payload) (s\<lparr>cs_deposits := apply_withdrawals token (cs_deposits s)\<rparr>)"
  have m [simp]: "cs_pending_transition m = cs_pending_transition s" "cs_verified_tip m = cp_new_tip payload"
    "cs_checkpoint_predicate m = cs_checkpoint_predicate s" "cs_sequencer_key m = cs_sequencer_key s"
    "cs_deposits m = apply_withdrawals token (cs_deposits s)"
    by (simp_all add: m_def update_verified_tip_def)
  note P = verify_progression_OkD [OF prog]
  have sorted: "sorted_wrt (<) (map ppt_boundary (cs_pending_transition s))"
    using inv by (simp add: checkpoint_inv_def)
  have above: "ct_l1_height (cp_new_tip payload) \<le> ppt_boundary t" if t: "t \<in> set (cs_pending_transition s)" for t
  proof (cases "cs_pending_transition s")
    case (Cons u us)
    then have "ct_l1_height (cp_new_tip payload) \<le> ppt_boundary u"
      using P(6) [of u] inv by (simp add: next_transition_def checkpoint_inv_def)
    moreover have "ppt_boundary u \<le> ppt_boundary t" using Cons sorted t by auto
    ultimately show ?thesis by simp
  qed (use t in simp)
  then have q: "\<forall>t \<in> set (cs_pending_transition m). ct_l1_height (cs_verified_tip m) \<le> ppt_boundary t" by simp
  have sm: "sorted_wrt (<) (map ppt_boundary (cs_pending_transition m))" using sorted by simp
  note S = promote_spec [OF sm q]
  have s': "s' = promote_elapsed_transition m" using a(2) by (simp add: m_def)
  have "unat (ct_l1_height (cp_new_tip payload)) \<le> h" using P(2) cur by (simp add: word_less_nat_alt)
  then show "checkpoint_inv h s'" using S(1-3,5) inv unfolding s' by (auto simp: checkpoint_inv_def)
  show "cs_verified_tip s' = cp_new_tip payload" "cs_sequencer_key s' = cs_sequencer_key s"
    using S(5,7) by (simp_all add: s')
  show "\<exists>token. verify_withdrawals env ws (cs_deposits s) = Some (Ok token) \<and> cs_deposits s' = apply_withdrawals token (cs_deposits s)"
    using a(1) S(6) by (auto simp: s')
  show "governing s' x = governing s x" if "unat (ct_l1_height (cp_new_tip payload)) < x"
    using S(4) [of x] that by (simp add: s' governing_def)
  show "governing s x = cs_checkpoint_predicate s" if "x \<le> unat (ct_l1_height (cp_new_tip payload))"
    using above that unfolding governing_def
    by (intro scheduled_below) (force simp: word_le_nat_alt)
qed

lemma queue_predicate_transition_spec:
  assumes inv: "checkpoint_inv h s" and b: "unat (ppt_boundary t) = Suc h"
  shows "\<exists>s'. queue_predicate_transition t s = Some s' \<and> checkpoint_inv (Suc h) s'
    \<and> cs_verified_tip s' = cs_verified_tip s \<and> cs_deposits s' = cs_deposits s
    \<and> cs_checkpoint_predicate s' = cs_checkpoint_predicate s \<and> cs_sequencer_key s' = cs_sequencer_key s
    \<and> (length (cs_pending_transition s) < max_pending_predicate_transitions \<longrightarrow>
        (\<forall>x. governing s' x = (if Suc h < x then ppt_predicate t else governing s x)))
    \<and> (length (cs_pending_transition s) = max_pending_predicate_transitions \<longrightarrow>
        cs_pending_transition s' = tl (cs_pending_transition s) @ [t])"
proof -
  let ?q = "cs_pending_transition s"
  let ?q' = "if length ?q = max_pending_predicate_transitions then tl ?q else ?q"
  have tip: "unat (ct_l1_height (cs_verified_tip s)) \<le> h" and sorted: "sorted_wrt (<) (map ppt_boundary ?q)"
    and len: "length ?q \<le> max_pending_predicate_transitions"
    and mem: "\<And>u. u \<in> set ?q \<Longrightarrow> ct_l1_height (cs_verified_tip s) < ppt_boundary u \<and> unat (ppt_boundary u) \<le> h"
    using inv by (auto simp: checkpoint_inv_def)
  have lt: "ppt_boundary u < ppt_boundary t" if "u \<in> set ?q" for u
    using mem [OF that] b by (simp add: word_less_nat_alt)
  have sub: "set ?q' \<subseteq> set ?q" by (cases ?q) auto
  have room: "length ?q' < max_pending_predicate_transitions" "length ?q' \<le> length ?q"
    using len by (auto simp: max_pending_predicate_transitions_def)
  have s': "queue_predicate_transition t s = Some (s\<lparr>cs_pending_transition := ?q' @ [t]\<rparr>)"
    using lt [OF last_in_set] room by (auto simp: queue_predicate_transition_def Let_def)
  have "sorted_wrt (<) (map ppt_boundary ?q')" using sorted by (cases ?q) auto
  then have sorted': "sorted_wrt (<) (map ppt_boundary (?q' @ [t]))"
    using sub lt by (auto simp: sorted_wrt_append)
  have "ct_l1_height (cs_verified_tip s) < ppt_boundary t" using tip b by (simp add: word_less_nat_alt)
  then have "checkpoint_inv (Suc h) (s\<lparr>cs_pending_transition := ?q' @ [t]\<rparr>)"
    using tip room sorted' b mem sub by (force simp: checkpoint_inv_def)
  moreover have "governing (s\<lparr>cs_pending_transition := ?q @ [t]\<rparr>) x = (if Suc h < x then ppt_predicate t else governing s x)" for x
    using scheduled_app [of ?q t "cs_checkpoint_predicate s" x] sorted lt b
    by (simp add: governing_def sorted_wrt_append)
  ultimately show ?thesis using s' by (intro exI [of _ "s\<lparr>cs_pending_transition := ?q' @ [t]\<rparr>"]) auto
qed

section \<open>Properties\<close>

text \<open>C4: an accepted checkpoint extends the verified chain, and its proof is checked under the right
  key.  The epoch advances by one, the L2 slot strictly, the L1 height does not regress and stays below
  the block that carries the checkpoint; the proof verifies, under the active predicate, a claim that
  starts at the previous tip; and that predicate is the one the rotation schedule assigns to every
  height the checkpoint covers.  The tip becomes the new tip, the pool loses exactly the withdrawn
  value, the schedule of all later heights is unchanged by the promotion, and the invariant is kept.\<close>
theorem accepted_checkpoint_extends_chain:
  assumes "checkpoint_inv h s" and "unat cur = Suc h"
    and "verify_progression (cs_verified_tip s) (cp_new_tip payload) cur (next_transition s) = Ok coverage"
    and "advance env payload hash s = Some (Ok (s', ws))"
  shows "unat (ct_epoch (cs_verified_tip s')) = unat (ct_epoch (cs_verified_tip s)) + 1
    \<and> ct_l1_height (cs_verified_tip s) \<le> ct_l1_height (cs_verified_tip s') \<and> ct_l1_height (cs_verified_tip s') < cur
    \<and> olbc_slot (ct_l2_commitment (cs_verified_tip s)) < olbc_slot (ct_l2_commitment (cs_verified_tip s'))
    \<and> verify_claim_witness env (cs_checkpoint_predicate s)
        (claim_ssz_bytes env (construct_full_claim env (cs_verified_tip s) (cp_new_tip payload) (cp_sidecar payload) hash))
        (cp_proof payload) = Ok ()
    \<and> (\<forall>x \<le> unat (ct_l1_height (cp_new_tip payload)). governing s x = cs_checkpoint_predicate s)
    \<and> cs_verified_tip s' = cp_new_tip payload
    \<and> pool_value (cs_deposits s') + intents_value ws = pool_value (cs_deposits s)
    \<and> (\<forall>x > unat (ct_l1_height (cp_new_tip payload)). governing s' x = governing s x)
    \<and> governing s' (unat (ct_l1_height (cp_new_tip payload)) + 1) = cs_checkpoint_predicate s'
    \<and> checkpoint_inv h s'"
proof -
  note P = verify_progression_OkD [OF assms(3)]
  have cur: "unat cur \<le> Suc h" using assms(2) by simp
  note A = advance_step [OF assms(1,3,4) cur]
  obtain token where t: "verify_withdrawals env ws (cs_deposits s) = Some (Ok token)"
    "cs_deposits s' = apply_withdrawals token (cs_deposits s)" using A(4) by blast
  have pool: "pool_value (cs_deposits s') + intents_value ws = pool_value (cs_deposits s)"
    using verify_withdrawals_OkD(3) [OF t(1)] t(2) by (simp add: apply_withdrawals_def)
  have pf: "verify_proof env (cs_checkpoint_predicate s) (cs_verified_tip s) payload hash = Ok ()"
    using advance_OkD [OF assms(4)] by blast
  have front: "governing s' (unat (ct_l1_height (cp_new_tip payload)) + 1) = cs_checkpoint_predicate s'"
    using A(1,2) unfolding governing_def
    by (intro scheduled_below) (auto simp: checkpoint_inv_def word_less_nat_alt)
  show ?thesis
    using P(1-4) A(1,2,5,6) pool pf front by (simp add: verify_proof_def Let_def)
qed

definition sample_checkpoint_state :: checkpoint_state where
  "sample_checkpoint_state = \<lparr>cs_sequencer_key = [7], cs_checkpoint_predicate = [1],
     cs_pending_transition = [\<lparr>ppt_predicate = [2], ppt_boundary = 12\<rparr>],
     cs_verified_tip = \<lparr>ct_epoch = 3, ct_l1_height = 10, ct_l2_commitment = \<lparr>olbc_slot = 5, olbc_blkid = []\<rparr>\<rparr>,
     cs_deposits = \<lparr>dp_denomination = 100, dp_count = 2\<rparr>\<rparr>"

lemma sample_checkpoint_inv: "checkpoint_inv 13 sample_checkpoint_state"
  by (simp add: checkpoint_inv_def sample_checkpoint_state_def max_pending_predicate_transitions_def)

definition sample_checkpoint_payload :: checkpoint_payload where
  "sample_checkpoint_payload = (case sample_payload [4, 12, 9, 100] of Ok p \<Rightarrow> p)"

theorem accepted_checkpoint_extends_chain_witness:
  "\<exists>s' ws. advance sample_checkpoint_env sample_checkpoint_payload [] sample_checkpoint_state = Some (Ok (s', ws))
     \<and> pool_value (cs_deposits s') + intents_value ws = pool_value (cs_deposits sample_checkpoint_state)
     \<and> checkpoint_inv 13 s'"
proof -
  let ?a = "advance sample_checkpoint_env sample_checkpoint_payload [] sample_checkpoint_state"
  have "case ?a of Some r \<Rightarrow> is_ok r | None \<Rightarrow> False" by code_simp
  then obtain r where "?a = Some r" "is_ok r" by (auto split: option.splits)
  then obtain s' ws where a: "?a = Some (Ok (s', ws))"
    by (cases r) (auto simp: is_ok_def)
  have "verify_progression (cs_verified_tip sample_checkpoint_state) (cp_new_tip sample_checkpoint_payload) 14
      (next_transition sample_checkpoint_state) = Ok (CoverageRange 11 12)" by code_simp
  then show ?thesis
    using accepted_checkpoint_extends_chain [OF sample_checkpoint_inv _ _ a, of 14] a by (intro exI [of _ s'] exI [of _ ws]) simp
qed

end
