(* ===== verification/Checkpoint_Subprotocol.thy ===== *)
theory Checkpoint_Subprotocol
  imports Checkpoint_State Asm_Common Header_Verification "HOL-Library.Sublist"
begin

text \<open>
  The checkpoint subprotocol: parsing of checkpoint transactions
  (\<open>crates/subprotocols/checkpoint/txs/src/parser.rs\<close>), authentication of the envelope
  (\<open>subprotocol/src/auth.rs\<close>), the transaction handler (\<open>subprotocol/src/handler.rs\<close>) and the entry
  points of the state machine (\<open>subprotocol/src/subprotocol.rs\<close>).  A missing piece of auxiliary data is
  the only panic of the handler; every other failure leaves the state and the relayer as they were.
\<close>

datatype checkpoint_tx_error = MissingInputs | EnvelopeSpend string | CodecDecode string

datatype checkpoint_envelope_error =
    EnvelopeFormat checkpoint_tx_error
  | SequencerKey checkpoint_validation_error
  | MissingSpentOutput outpoint aux_error
  | SpentOutput string

definition ol_stf_checkpoint_tx_type :: u8 where "ol_stf_checkpoint_tx_type = 1"

section \<open>Parsing and authentication\<close>

definition parse_checkpoint_envelope ::
  "'e checkpoint_env_scheme \<Rightarrow> tx_input_ref \<Rightarrow> (checkpoint_tx_error, envelope_spend) result" where
  "parse_checkpoint_envelope env tx =
     (case tx_input (tir_tx tx) of
        [] \<Rightarrow> Err MissingInputs
      | envelope_input # _ \<Rightarrow> map_err EnvelopeSpend (parse_signed_envelope_spend env envelope_input))"

definition decode_checkpoint_payload ::
  "'e checkpoint_env_scheme \<Rightarrow> bytes \<Rightarrow> (checkpoint_tx_error, checkpoint_payload) result" where
  "decode_checkpoint_payload env bs = map_err CodecDecode (decode_payload_exact env bs)"

definition extract_checkpoint_from_envelope ::
  "'e checkpoint_env_scheme \<Rightarrow> tx_input_ref \<Rightarrow> (checkpoint_tx_error, checkpoint_payload) result" where
  "extract_checkpoint_from_envelope env tx =
     res_bind (parse_checkpoint_envelope env tx) (\<lambda>spend.
       decode_checkpoint_payload env (el_payload (es_unverified_leaf spend)))"

definition verify_envelope_key :: "buf32 \<Rightarrow> envelope_spend \<Rightarrow> (checkpoint_envelope_error, unit) result" where
  "verify_envelope_key sequencer_key spend =
     map_err SequencerKey (verify_sequencer_key sequencer_key (el_pubkey (es_unverified_leaf spend)))"

definition authenticate_checkpoint_envelope ::
  "'e checkpoint_env_scheme \<Rightarrow> buf32 \<Rightarrow> envelope_spend \<Rightarrow> verified_aux_data
     \<Rightarrow> (checkpoint_envelope_error, envelope_leaf) result" where
  "authenticate_checkpoint_envelope env sequencer_key spend aux =
     res_bind (verify_envelope_key sequencer_key spend) (\<lambda>_.
     res_bind (map_err (MissingSpentOutput (es_spent_outpoint spend)) (get_bitcoin_txout aux (es_spent_outpoint spend)))
       (\<lambda>spent_output. map_err SpentOutput (verify_spent_output env spend (to_script_pubkey spent_output))))"

definition authenticate_checkpoint_tx ::
  "'e checkpoint_env_scheme \<Rightarrow> buf32 \<Rightarrow> tx_input_ref \<Rightarrow> verified_aux_data
     \<Rightarrow> (checkpoint_envelope_error, checkpoint_payload) result" where
  "authenticate_checkpoint_tx env sequencer_key tx aux =
     res_bind (map_err EnvelopeFormat (parse_checkpoint_envelope env tx)) (\<lambda>spend.
     res_bind (authenticate_checkpoint_envelope env sequencer_key spend aux) (\<lambda>leaf.
     map_err EnvelopeFormat (decode_checkpoint_payload env (el_payload leaf))))"

section \<open>The transaction handler\<close>

definition coverage_manifests_hash ::
  "'e checkpoint_env_scheme \<Rightarrow> verified_aux_data \<Rightarrow> checkpoint_l1_range \<Rightarrow> buf32 option" where
  "coverage_manifests_hash env aux coverage =
     (case coverage of
        EmptyCoverage \<Rightarrow> Some range_hash_zero
      | CoverageRange start_height end_height \<Rightarrow>
          (case get_manifest_hashes aux (ucast start_height) (ucast end_height) of
             Err _ \<Rightarrow> None
           | Ok manifest_hashes \<Rightarrow> Some (compute_asm_manifests_hash_from_leaves env manifest_hashes)))"

definition dispatch_msgs :: "withdrawal_intent list \<Rightarrow> relayer \<Rightarrow> relayer" where
  "dispatch_msgs intents r = fold (\<lambda>intent. relay_msg (BridgeMsg (DispatchWithdrawal intent))) intents r"

definition handle_checkpoint_tx ::
  "'e checkpoint_env_scheme \<Rightarrow> tx_input_ref \<Rightarrow> l1_height \<Rightarrow> verified_aux_data \<Rightarrow> checkpoint_state \<Rightarrow> relayer
     \<Rightarrow> (checkpoint_state \<times> relayer) option" where
  "handle_checkpoint_tx env tx current_l1_height aux s r =
     (case parse_checkpoint_envelope env tx of
        Err _ \<Rightarrow> Some (s, r)
      | Ok spend \<Rightarrow>
     (case authenticate_checkpoint_envelope env (cs_sequencer_key s) spend aux of
        Err (MissingSpentOutput _ _) \<Rightarrow> None
      | Err _ \<Rightarrow> Some (s, r)
      | Ok leaf \<Rightarrow>
     (case decode_checkpoint_payload env (el_payload leaf) of
        Err _ \<Rightarrow> Some (s, r)
      | Ok payload \<Rightarrow>
     (case verify_progression (cs_verified_tip s) (cp_new_tip payload) current_l1_height (next_transition s) of
        Err _ \<Rightarrow> Some (s, r)
      | Ok coverage \<Rightarrow>
          do {
            asm_manifests_hash \<leftarrow> coverage_manifests_hash env aux coverage;
            advanced \<leftarrow> advance env payload asm_manifests_hash s;
            Some (case advanced of
                Err _ \<Rightarrow> (s, r)
              | Ok (s', withdrawal_intents) \<Rightarrow>
                  (s', dispatch_msgs withdrawal_intents (emit_log (CheckpointTipUpdate (cp_new_tip payload)) r)))
          }))))"

section \<open>Entry points\<close>

definition request_checkpoint_aux ::
  "'e checkpoint_env_scheme \<Rightarrow> checkpoint_state \<Rightarrow> tx_input_ref \<Rightarrow> aux_request_collector \<Rightarrow> aux_request_collector" where
  "request_checkpoint_aux env s tx c =
     (case parse_checkpoint_envelope env tx of
        Err _ \<Rightarrow> c
      | Ok spend \<Rightarrow>
     (case verify_envelope_key (cs_sequencer_key s) spend of
        Err _ \<Rightarrow> c
      | Ok _ \<Rightarrow>
          (let c' = request_bitcoin_tx (op_txid (es_spent_outpoint spend)) c in
           case decode_checkpoint_payload env (el_payload (es_unverified_leaf spend)) of
             Err _ \<Rightarrow> c'
           | Ok payload \<Rightarrow>
               let prev_height = ct_l1_height (cs_verified_tip s); new_height = ct_l1_height (cp_new_tip payload)
               in if prev_height < new_height
                  then request_manifest_hashes (ucast (prev_height + 1)) (ucast new_height) c'
                  else c')))"

fun checkpoint_pre_process_txs ::
  "'e checkpoint_env_scheme \<Rightarrow> checkpoint_state \<Rightarrow> tx_input_ref list \<Rightarrow> aux_request_collector \<Rightarrow> aux_request_collector" where
  "checkpoint_pre_process_txs env s [] c = c"
| "checkpoint_pre_process_txs env s (tx # txs) c =
     checkpoint_pre_process_txs env s txs
       (if tag_tx_type (tir_tag tx) = ol_stf_checkpoint_tx_type then request_checkpoint_aux env s tx c else c)"

fun checkpoint_handle_txs ::
  "'e checkpoint_env_scheme \<Rightarrow> l1_height \<Rightarrow> verified_aux_data \<Rightarrow> tx_input_ref list \<Rightarrow> checkpoint_state \<Rightarrow> relayer
     \<Rightarrow> (checkpoint_state \<times> relayer) option" where
  "checkpoint_handle_txs env current_l1_height aux [] s r = Some (s, r)"
| "checkpoint_handle_txs env current_l1_height aux (tx # txs) s r =
     (if tag_tx_type (tir_tag tx) = ol_stf_checkpoint_tx_type
      then handle_checkpoint_tx env tx current_l1_height aux s r \<bind>
             (\<lambda>(s', r'). checkpoint_handle_txs env current_l1_height aux txs s' r')
      else checkpoint_handle_txs env current_l1_height aux txs s r)"

definition checkpoint_process_txs ::
  "'e checkpoint_env_scheme \<Rightarrow> header_verification_state \<Rightarrow> verified_aux_data \<Rightarrow> tx_input_ref list
     \<Rightarrow> checkpoint_state \<Rightarrow> relayer \<Rightarrow> (checkpoint_state \<times> relayer) option" where
  "checkpoint_process_txs env header_vs aux txs s r =
     checkpoint_handle_txs env (l1_block_height (hvs_last_verified_block header_vs)) aux txs s r"

definition available_deposit_sum :: "'e checkpoint_env_scheme \<Rightarrow> checkpoint_state \<Rightarrow> u64 option" where
  "available_deposit_sum env s = dp_total env (cs_deposits s)"

text \<open>Log lines are left out, as everywhere in the model: whether their arguments are evaluated is up to the
  external logging crate and the level it is run at.  The line written after a deposit has one argument
  that can panic, \<open>available_deposit_sum\<close>; \<open>deposit_log_defined\<close> below says when it does not.\<close>

definition checkpoint_process_msg ::
  "l1_block_commitment \<Rightarrow> checkpoint_incoming_msg \<Rightarrow> checkpoint_state \<Rightarrow> checkpoint_state option" where
  "checkpoint_process_msg l1ref msg s =
     (case msg of
        DepositProcessed amount \<Rightarrow> Some (record_deposit amount s)
      | UpdateSequencerKey new_key \<Rightarrow> Some (update_sequencer_key new_key s)
      | UpdateCheckpointPredicate new_predicate \<Rightarrow>
          queue_predicate_transition \<lparr>ppt_predicate = new_predicate, ppt_boundary = l1_block_height l1ref\<rparr> s)"

fun checkpoint_process_msgs ::
  "l1_block_commitment \<Rightarrow> checkpoint_incoming_msg list \<Rightarrow> checkpoint_state \<Rightarrow> checkpoint_state option" where
  "checkpoint_process_msgs l1ref [] s = Some s"
| "checkpoint_process_msgs l1ref (msg # msgs) s =
     checkpoint_process_msg l1ref msg s \<bind> checkpoint_process_msgs l1ref msgs"

section \<open>Laws\<close>

lemma dispatch_msgs_simps [simp]:
  "rl_msgs (dispatch_msgs ws r) = rl_msgs r @ map (BridgeMsg \<circ> DispatchWithdrawal) ws"
  "rl_logs (dispatch_msgs ws r) = rl_logs r"
  unfolding dispatch_msgs_def by (induction ws arbitrary: r) simp_all

lemma handle_checkpoint_tx_cases:
  assumes "handle_checkpoint_tx env tx cur aux s r = Some (s', r')"
  obtains (ignored) "s' = s" "r' = r"
  | (accepted) spend leaf payload coverage hash ws where
      "parse_checkpoint_envelope env tx = Ok spend"
      "authenticate_checkpoint_envelope env (cs_sequencer_key s) spend aux = Ok leaf"
      "decode_checkpoint_payload env (el_payload leaf) = Ok payload"
      "verify_progression (cs_verified_tip s) (cp_new_tip payload) cur (next_transition s) = Ok coverage"
      "coverage_manifests_hash env aux coverage = Some hash"
      "advance env payload hash s = Some (Ok (s', ws))"
      "r' = dispatch_msgs ws (emit_log (CheckpointTipUpdate (cp_new_tip payload)) r)"
proof (cases "parse_checkpoint_envelope env tx")
  case (Inl e)
  then show ?thesis using assms ignored by (simp add: handle_checkpoint_tx_def)
next
  case parse: (Inr spend)
  show ?thesis
  proof (cases "authenticate_checkpoint_envelope env (cs_sequencer_key s) spend aux")
    case (Inl e)
    then show ?thesis using assms parse ignored by (cases e) (simp_all add: handle_checkpoint_tx_def)
  next
    case auth: (Inr leaf)
    show ?thesis
    proof (cases "decode_checkpoint_payload env (el_payload leaf)")
      case (Inl e)
      then show ?thesis using assms parse auth ignored by (simp add: handle_checkpoint_tx_def)
    next
      case dec: (Inr payload)
      show ?thesis
      proof (cases "verify_progression (cs_verified_tip s) (cp_new_tip payload) cur (next_transition s)")
        case (Inl e)
        then show ?thesis using assms parse auth dec ignored by (simp add: handle_checkpoint_tx_def)
      next
        case prog: (Inr coverage)
        obtain hash a where h: "coverage_manifests_hash env aux coverage = Some hash" "advance env payload hash s = Some a"
          using assms parse auth dec prog by (auto simp: handle_checkpoint_tx_def bind_eq_Some_conv)
        show ?thesis
        proof (cases a)
          case (Inl e)
          then show ?thesis using assms parse auth dec prog h ignored by (simp add: handle_checkpoint_tx_def)
        next
          case (Inr w)
          then show ?thesis using assms parse auth dec prog h accepted
            by (cases w) (simp add: handle_checkpoint_tx_def)
        qed
      qed
    qed
  qed
qed

text \<open>What a run of checkpoint transactions does to the pool and the messages.\<close>

definition withdrawn :: "deposit_pool \<Rightarrow> withdrawal_intent list \<Rightarrow> deposit_pool \<Rightarrow> bool" where
  "withdrawn p ws p' \<longleftrightarrow>
     (\<forall>w \<in> set ws. whole_multiple (dp_denomination p) w) \<and> dp_denomination p' = dp_denomination p
     \<and> pool_value p' + intents_value ws = pool_value p
     \<and> unat (dp_count p') + sum_list (map (\<lambda>w. unat (wi_amt w) div unat (dp_denomination p)) ws) = unat (dp_count p)"

lemma units_sum:
  "\<forall>w \<in> set ws. whole_multiple d w \<Longrightarrow>
     sum_list (map (\<lambda>w. unat (wi_amt w) div unat d) ws) = intents_value ws div unat d"
proof (induction ws)
  case (Cons w ws)
  then have "unat d dvd unat (wi_amt w)" by (simp add: whole_multiple_def)
  then have "(unat (wi_amt w) + intents_value ws) div unat d = unat (wi_amt w) div unat d + intents_value ws div unat d"
    by (rule div_plus_div_distrib_dvd_left)
  then show ?case using Cons by simp
qed simp

lemma withdrawn_apply:
  assumes "verify_withdrawals env ws p = Some (Ok token)"
  shows "withdrawn p ws (apply_withdrawals token p)"
proof -
  note D = verify_withdrawals_OkD [OF assms]
  have "intents_value ws div unat (dp_denomination p) \<le> unat (dp_count p)"
  proof (cases "unat (dp_denomination p) = 0")
    case False
    have "intents_value ws \<le> unat (dp_count p) * unat (dp_denomination p)" using D(3) by (simp add: mult.commute)
    from div_le_mono [OF this, of "unat (dp_denomination p)"] show ?thesis using False by simp
  qed simp
  then show ?thesis using D by (simp add: withdrawn_def apply_withdrawals_def units_sum)
qed

lemma withdrawn_nil: "withdrawn p [] p" by (simp add: withdrawn_def)

lemma withdrawn_trans: "withdrawn p ws q \<Longrightarrow> withdrawn q vs q' \<Longrightarrow> withdrawn p (ws @ vs) q'"
  by (auto simp: withdrawn_def)

lemma checkpoint_handle_txs_spec:
  assumes "checkpoint_inv h s" and "unat cur = Suc h" and "checkpoint_handle_txs env cur aux txs s r = Some (s', r')"
  shows "checkpoint_inv h s' \<and> cs_sequencer_key s' = cs_sequencer_key s
    \<and> ct_l1_height (cs_verified_tip s) \<le> ct_l1_height (cs_verified_tip s')
    \<and> unat (ct_epoch (cs_verified_tip s)) \<le> unat (ct_epoch (cs_verified_tip s'))
    \<and> (\<forall>x > unat (ct_l1_height (cs_verified_tip s')). governing s' x = governing s x)
    \<and> (\<exists>ws. withdrawn (cs_deposits s) ws (cs_deposits s')
        \<and> rl_msgs r' = rl_msgs r @ map (BridgeMsg \<circ> DispatchWithdrawal) ws)"
  using assms
proof (induction txs arbitrary: s r)
  case Nil
  then show ?case using withdrawn_nil [of "cs_deposits s"] by (auto intro: exI [of _ "[]"])
next
  case (Cons tx txs)
  show ?case
  proof (cases "tag_tx_type (tir_tag tx) = ol_stf_checkpoint_tx_type")
    case False
    then show ?thesis using Cons by simp
  next
    case True
    then obtain s1 r1 where one: "handle_checkpoint_tx env tx cur aux s r = Some (s1, r1)"
      and rest: "checkpoint_handle_txs env cur aux txs s1 r1 = Some (s', r')"
      using Cons.prems(3) by (auto simp: bind_eq_Some_conv)
    from one show ?thesis
    proof (cases rule: handle_checkpoint_tx_cases)
      case ignored
      then show ?thesis using Cons.IH [OF Cons.prems(1,2)] rest by simp
    next
      case (accepted spend leaf payload coverage hash ws)
      have "unat cur \<le> Suc h" using Cons.prems(2) by simp
      note A = advance_step [OF Cons.prems(1) accepted(4,6) this]
      note P = verify_progression_OkD [OF accepted(4)]
      obtain token where t: "verify_withdrawals env ws (cs_deposits s) = Some (Ok token)"
        "cs_deposits s1 = apply_withdrawals token (cs_deposits s)" using A(4) by blast
      note IH = Cons.IH [OF A(1) Cons.prems(2) rest]
      obtain vs where vs: "withdrawn (cs_deposits s1) vs (cs_deposits s')"
        "rl_msgs r' = rl_msgs r1 @ map (BridgeMsg \<circ> DispatchWithdrawal) vs" using IH by blast
      have "withdrawn (cs_deposits s) (ws @ vs) (cs_deposits s')"
        using withdrawn_trans [OF withdrawn_apply [OF t(1)]] vs(1) t(2) by simp
      moreover have "rl_msgs r' = rl_msgs r @ map (BridgeMsg \<circ> DispatchWithdrawal) (ws @ vs)"
        using vs(2) accepted(7) by simp
      moreover have "governing s' x = governing s x" if "unat (ct_l1_height (cs_verified_tip s')) < x" for x
      proof -
        have "unat (ct_l1_height (cp_new_tip payload)) < x"
          using IH A(2) that by (simp add: word_le_nat_alt)
        then show ?thesis using IH that A(5) by simp
      qed
      moreover have "ct_l1_height (cs_verified_tip s) \<le> ct_l1_height (cs_verified_tip s')"
        using P(3) A(2) IH by (auto intro: order_trans)
      moreover have "unat (ct_epoch (cs_verified_tip s)) \<le> unat (ct_epoch (cs_verified_tip s'))"
        using P(1) A(2) IH by simp
      ultimately show ?thesis using IH A(3) by (intro conjI allI impI exI [of _ "ws @ vs"]) simp_all
    qed
  qed
qed

text \<open>The checkpoints a block had accepted: payloads of some of its checkpoint transactions, in block order,
  each authenticated under the sequencer's key.  Their withdrawals are the intents extracted from their
  logs, one list after the other.\<close>

definition accepted_checkpoints ::
  "'e checkpoint_env_scheme \<Rightarrow> buf32 \<Rightarrow> verified_aux_data \<Rightarrow> tx_input_ref list \<Rightarrow> checkpoint_payload list
     \<Rightarrow> withdrawal_intent list \<Rightarrow> bool" where
  "accepted_checkpoints env key aux txs payloads intents \<longleftrightarrow>
     (\<exists>ts. subseq ts (filter (\<lambda>tx. tag_tx_type (tir_tag tx) = ol_stf_checkpoint_tx_type) txs)
        \<and> map (\<lambda>tx. authenticate_checkpoint_tx env key tx aux) ts = map Ok payloads)
   \<and> (\<exists>wss. map (\<lambda>payload. extract_withdrawal_intents env (sc_ol_logs (cp_sidecar payload))) payloads = map Ok wss
        \<and> intents = concat wss)"

lemma accepted_checkpoints_nil: "accepted_checkpoints env key aux txs [] []"
  by (simp add: accepted_checkpoints_def)

lemma accepted_checkpoints_skip:
  "accepted_checkpoints env key aux txs ps ws \<Longrightarrow> accepted_checkpoints env key aux (tx # txs) ps ws"
  unfolding accepted_checkpoints_def by (metis filter.simps(2) list_emb_Cons)

lemma accepted_checkpoints_Cons:
  assumes "accepted_checkpoints env key aux txs ps vs" and "tag_tx_type (tir_tag tx) = ol_stf_checkpoint_tx_type"
    and "authenticate_checkpoint_tx env key tx aux = Ok p"
    and "extract_withdrawal_intents env (sc_ol_logs (cp_sidecar p)) = Ok ws"
  shows "accepted_checkpoints env key aux (tx # txs) (p # ps) (ws @ vs)"
proof -
  obtain ts wss where *: "subseq ts (filter (\<lambda>tx. tag_tx_type (tir_tag tx) = ol_stf_checkpoint_tx_type) txs)"
    "map (\<lambda>tx. authenticate_checkpoint_tx env key tx aux) ts = map Ok ps"
    "map (\<lambda>p. extract_withdrawal_intents env (sc_ol_logs (cp_sidecar p))) ps = map Ok wss" "vs = concat wss"
    using assms(1) by (auto simp: accepted_checkpoints_def)
  then show ?thesis using assms(2-4) unfolding accepted_checkpoints_def
    by (intro conjI exI [of _ "tx # ts"] exI [of _ "ws # wss"]) simp_all
qed

lemma checkpoint_handle_txs_accepts:
  assumes "checkpoint_inv h s" and "unat cur = Suc h" and "checkpoint_handle_txs env cur aux txs s r = Some (s', r')"
  shows "\<exists>ps ws. accepted_checkpoints env (cs_sequencer_key s) aux txs ps ws
    \<and> cs_verified_tip s' = last (cs_verified_tip s # map cp_new_tip ps)
    \<and> rl_logs r' = rl_logs r @ map (CheckpointTipUpdate \<circ> cp_new_tip) ps
    \<and> rl_msgs r' = rl_msgs r @ map (BridgeMsg \<circ> DispatchWithdrawal) ws"
  using assms
proof (induction txs arbitrary: s r)
  case Nil
  then show ?case using accepted_checkpoints_nil by fastforce
next
  case (Cons tx txs)
  show ?case
  proof (cases "tag_tx_type (tir_tag tx) = ol_stf_checkpoint_tx_type")
    case False
    then have "checkpoint_handle_txs env cur aux txs s r = Some (s', r')" using Cons.prems(3) by simp
    from Cons.IH [OF Cons.prems(1,2) this] show ?thesis using accepted_checkpoints_skip by blast
  next
    case True
    then obtain s1 r1 where one: "handle_checkpoint_tx env tx cur aux s r = Some (s1, r1)"
      and rest: "checkpoint_handle_txs env cur aux txs s1 r1 = Some (s', r')"
      using Cons.prems(3) by (auto simp: bind_eq_Some_conv)
    from one show ?thesis
    proof (cases rule: handle_checkpoint_tx_cases)
      case ignored
      then have "checkpoint_handle_txs env cur aux txs s r = Some (s', r')" using rest by simp
      from Cons.IH [OF Cons.prems(1,2) this] show ?thesis using accepted_checkpoints_skip by blast
    next
      case (accepted spend leaf payload coverage hash ws)
      have "unat cur \<le> Suc h" using Cons.prems(2) by simp
      note A = advance_step [OF Cons.prems(1) accepted(4,6) this]
      obtain ps vs where IH: "accepted_checkpoints env (cs_sequencer_key s) aux txs ps vs"
        "cs_verified_tip s' = last (cs_verified_tip s1 # map cp_new_tip ps)"
        "rl_logs r' = rl_logs r1 @ map (CheckpointTipUpdate \<circ> cp_new_tip) ps"
        "rl_msgs r' = rl_msgs r1 @ map (BridgeMsg \<circ> DispatchWithdrawal) vs"
        using Cons.IH [OF A(1) Cons.prems(2) rest] A(3) by auto
      have "authenticate_checkpoint_tx env (cs_sequencer_key s) tx aux = Ok payload"
        using accepted(1-3) by (simp add: authenticate_checkpoint_tx_def)
      moreover have "extract_withdrawal_intents env (sc_ol_logs (cp_sidecar payload)) = Ok ws"
        using advance_OkD [OF accepted(6)] by blast
      ultimately have "accepted_checkpoints env (cs_sequencer_key s) aux (tx # txs) (payload # ps) (ws @ vs)"
        using accepted_checkpoints_Cons [OF IH(1) True] by blast
      then show ?thesis using IH(2-4) A(2) accepted(7) by (intro exI [of _ "payload # ps"] exI [of _ "ws @ vs"]) simp
    qed
  qed
qed

text \<open>Messages: deposits are counted, at most one rotation per block is queued.\<close>

fun is_rotation :: "checkpoint_incoming_msg \<Rightarrow> bool" where
  "is_rotation (UpdateCheckpointPredicate _) = True"
| "is_rotation _ = False"

fun deposit_amounts :: "checkpoint_incoming_msg list \<Rightarrow> u64 list" where
  "deposit_amounts [] = []"
| "deposit_amounts (DepositProcessed a # msgs) = a # deposit_amounts msgs"
| "deposit_amounts (_ # msgs) = deposit_amounts msgs"

lemma deposit_amounts_append: "deposit_amounts (ms @ ns) = deposit_amounts ms @ deposit_amounts ns"
  by (induction ms rule: deposit_amounts.induct) simp_all

lemma plain_msgs:
  "filter is_rotation msgs = [] \<Longrightarrow> \<exists>s'. checkpoint_process_msgs l1ref msgs s = Some s'
     \<and> cs_pending_transition s' = cs_pending_transition s \<and> cs_verified_tip s' = cs_verified_tip s
     \<and> cs_checkpoint_predicate s' = cs_checkpoint_predicate s
     \<and> cs_deposits s' = fold dp_record (deposit_amounts msgs) (cs_deposits s)"
proof (induction msgs arbitrary: s)
  case (Cons m msgs)
  have IH: "\<exists>s'. checkpoint_process_msgs l1ref msgs s = Some s'
     \<and> cs_pending_transition s' = cs_pending_transition s \<and> cs_verified_tip s' = cs_verified_tip s
     \<and> cs_checkpoint_predicate s' = cs_checkpoint_predicate s
     \<and> cs_deposits s' = fold dp_record (deposit_amounts msgs) (cs_deposits s)" for s
    using Cons by (simp split: if_splits)
  show ?case
  proof (cases m)
    case (DepositProcessed a)
    then show ?thesis using IH [of "record_deposit a s"] by (simp add: checkpoint_process_msg_def record_deposit_def)
  next
    case (UpdateSequencerKey k)
    then show ?thesis using IH [of "update_sequencer_key k s"]
      by (simp add: checkpoint_process_msg_def update_sequencer_key_def)
  qed (use Cons.prems in simp)
qed simp

lemma checkpoint_process_msgs_spec:
  assumes "checkpoint_inv h s" and "unat (l1_block_height l1ref) = Suc h" and "length (filter is_rotation msgs) \<le> 1"
  shows "\<exists>s'. checkpoint_process_msgs l1ref msgs s = Some s' \<and> checkpoint_inv (Suc h) s'
    \<and> cs_verified_tip s' = cs_verified_tip s
    \<and> cs_deposits s' = fold dp_record (deposit_amounts msgs) (cs_deposits s)"
  using assms
proof (induction msgs arbitrary: s)
  case Nil
  then show ?case using checkpoint_inv_mono [of h s "Suc h"] by simp
next
  case (Cons m msgs)
  show ?case
  proof (cases m)
    case (DepositProcessed a)
    have "checkpoint_inv h (record_deposit a s)" using Cons.prems(1) by (simp add: checkpoint_inv_def record_deposit_def)
    from Cons.IH [OF this] show ?thesis using Cons.prems DepositProcessed
      by (simp add: checkpoint_process_msg_def record_deposit_def)
  next
    case (UpdateSequencerKey k)
    have "checkpoint_inv h (update_sequencer_key k s)"
      using Cons.prems(1) by (simp add: checkpoint_inv_def update_sequencer_key_def)
    from Cons.IH [OF this] show ?thesis using Cons.prems UpdateSequencerKey
      by (simp add: checkpoint_process_msg_def update_sequencer_key_def)
  next
    case (UpdateCheckpointPredicate k)
    let ?t = "\<lparr>ppt_predicate = k, ppt_boundary = l1_block_height l1ref\<rparr>"
    obtain s1 where s1: "queue_predicate_transition ?t s = Some s1" "checkpoint_inv (Suc h) s1"
      "cs_verified_tip s1 = cs_verified_tip s" "cs_deposits s1 = cs_deposits s"
      using queue_predicate_transition_spec [OF Cons.prems(1), of ?t] Cons.prems(2) by auto
    have "filter is_rotation msgs = []" using Cons.prems(3) UpdateCheckpointPredicate by simp
    from plain_msgs [OF this, of l1ref s1] obtain s' where s': "checkpoint_process_msgs l1ref msgs s1 = Some s'"
      "cs_pending_transition s' = cs_pending_transition s1" "cs_verified_tip s' = cs_verified_tip s1"
      "cs_deposits s' = fold dp_record (deposit_amounts msgs) (cs_deposits s1)" by blast
    have "checkpoint_inv (Suc h) s'" using s1(2) s'(2,3) by (simp add: checkpoint_inv_def)
    then show ?thesis using s1 s' UpdateCheckpointPredicate by (simp add: checkpoint_process_msg_def)
  qed
qed

lemma fold_dp_record:
  assumes "\<forall>a \<in> set amounts. a = d" and "d \<noteq> 0" and "dp_is_empty p \<or> dp_denomination p = d"
    and "unat (dp_count p) + length amounts < 2 ^ 32"
  shows "unat (dp_count (fold dp_record amounts p)) = unat (dp_count p) + length amounts
    \<and> (dp_denomination p = d \<longrightarrow> dp_denomination (fold dp_record amounts p) = d)
    \<and> (dp_is_empty (fold dp_record amounts p) \<or> dp_denomination (fold dp_record amounts p) = d)"
  using assms
proof (induction amounts arbitrary: p)
  case (Cons a amounts)
  have ne: "dp_count p \<noteq> 4294967295"
  proof
    assume "dp_count p = 4294967295"
    then show False using Cons.prems by simp
  qed
  have d: "dp_denomination (dp_record a p) = d" and c: "unat (dp_count (dp_record a p)) = Suc (unat (dp_count p))"
    using Cons.prems unat_add_one_u32 [OF ne] by (auto simp: dp_record_def dp_is_empty_def)
  then show ?case using Cons.IH [of "dp_record a p"] Cons.prems by simp
qed simp

section \<open>Auxiliary data\<close>

text \<open>What the handler of a transaction may read, relative to the state the block starts from.\<close>

definition served ::
  "'e checkpoint_env_scheme \<Rightarrow> verified_aux_data \<Rightarrow> nat \<Rightarrow> checkpoint_state \<Rightarrow> tx_input_ref \<Rightarrow> bool" where
  "served env aux h s tx \<longleftrightarrow>
     (\<forall>spend. parse_checkpoint_envelope env tx = Ok spend \<and> verify_envelope_key (cs_sequencer_key s) spend = Ok () \<longrightarrow>
        (\<exists>out. get_bitcoin_txout aux (es_spent_outpoint spend) = Ok out)
        \<and> (\<forall>payload. decode_checkpoint_payload env (el_payload (es_unverified_leaf spend)) = Ok payload
             \<and> ct_l1_height (cs_verified_tip s) < ct_l1_height (cp_new_tip payload)
             \<and> unat (ct_l1_height (cp_new_tip payload)) \<le> h \<longrightarrow>
             (\<forall>x. ucast (ct_l1_height (cs_verified_tip s) + 1) \<le> x \<and> x \<le> ucast (ct_l1_height (cp_new_tip payload)) \<longrightarrow>
                vad_manifest_hashes aux x \<noteq> None)))"

lemma request_checkpoint_aux_mono:
  "set (ar_bitcoin_txs (arc_requests c)) \<subseteq> set (ar_bitcoin_txs (arc_requests (request_checkpoint_aux env s tx c)))"
  "set (ar_manifest_hashes (arc_requests c)) \<subseteq> set (ar_manifest_hashes (arc_requests (request_checkpoint_aux env s tx c)))"
  "arc_max_resolvable_manifest_height (request_checkpoint_aux env s tx c) = arc_max_resolvable_manifest_height c"
  by (auto simp: request_checkpoint_aux_def Let_def request_manifest_hashes_set split: sum.splits)

lemma checkpoint_pre_process_mono:
  "set (ar_bitcoin_txs (arc_requests c)) \<subseteq> set (ar_bitcoin_txs (arc_requests (checkpoint_pre_process_txs env s txs c)))
   \<and> set (ar_manifest_hashes (arc_requests c))
      \<subseteq> set (ar_manifest_hashes (arc_requests (checkpoint_pre_process_txs env s txs c)))
   \<and> arc_max_resolvable_manifest_height (checkpoint_pre_process_txs env s txs c) = arc_max_resolvable_manifest_height c"
proof (induction txs arbitrary: c)
  case (Cons tx txs)
  show ?case using Cons [of "request_checkpoint_aux env s tx c"] Cons [of c]
      request_checkpoint_aux_mono [where c = c and env = env and s = s and tx = tx]
    by (simp split: if_splits) blast
qed simp

lemma requested_served:
  assumes tx: "tx \<in> set txs" and ty: "tag_tx_type (tir_tag tx) = ol_stf_checkpoint_tx_type"
    and c: "c' = checkpoint_pre_process_txs env s txs c" and bound: "unat (arc_max_resolvable_manifest_height c) = h"
    and btc: "\<forall>t \<in> set (ar_bitcoin_txs (arc_requests c')). vad_txs aux t \<noteq> None"
    and out: "\<And>spend ptx. parse_checkpoint_envelope env tx = Ok spend \<Longrightarrow>
        vad_txs aux (op_txid (es_spent_outpoint spend)) = Some ptx \<Longrightarrow>
        unat (op_vout (es_spent_outpoint spend)) < length (tx_output ptx)"
    and man: "\<forall>g \<in> set (ar_manifest_hashes (arc_requests c')). \<forall>x. mhr_start g \<le> x \<and> x \<le> mhr_end g \<longrightarrow>
        vad_manifest_hashes aux x \<noteq> None"
  shows "served env aux h s tx"
proof -
  obtain pre suf where txs: "txs = pre @ tx # suf" using tx by (meson split_list)
  define c1 where "c1 = checkpoint_pre_process_txs env s pre c"
  have app: "checkpoint_pre_process_txs env s (ps @ qs) d
      = checkpoint_pre_process_txs env s qs (checkpoint_pre_process_txs env s ps d)" for ps qs d
    by (induction ps arbitrary: d) simp_all
  have c': "c' = checkpoint_pre_process_txs env s suf (request_checkpoint_aux env s tx c1)"
    using c ty by (simp add: txs app c1_def)
  have sub: "set (ar_bitcoin_txs (arc_requests (request_checkpoint_aux env s tx c1))) \<subseteq> set (ar_bitcoin_txs (arc_requests c'))"
    "set (ar_manifest_hashes (arc_requests (request_checkpoint_aux env s tx c1))) \<subseteq> set (ar_manifest_hashes (arc_requests c'))"
    using checkpoint_pre_process_mono [where c = "request_checkpoint_aux env s tx c1" and env = env and s = s and txs = suf]
    by (simp_all add: c')
  have b1: "arc_max_resolvable_manifest_height c1 = arc_max_resolvable_manifest_height c"
    using checkpoint_pre_process_mono [where c = c and env = env and s = s and txs = pre] by (simp add: c1_def)
  show ?thesis
    unfolding served_def
  proof (intro allI impI conjI; elim conjE)
    fix spend
    assume P: "parse_checkpoint_envelope env tx = Ok spend" "verify_envelope_key (cs_sequencer_key s) spend = Ok ()"
    have "op_txid (es_spent_outpoint spend) \<in> set (ar_bitcoin_txs (arc_requests (request_checkpoint_aux env s tx c1)))"
      using P by (auto simp: request_checkpoint_aux_def Let_def split: sum.splits)
    then obtain ptx where "vad_txs aux (op_txid (es_spent_outpoint spend)) = Some ptx"
      using sub(1) btc by blast
    then show "\<exists>out. get_bitcoin_txout aux (es_spent_outpoint spend) = Ok out"
      using out [OF P(1)] by (simp add: get_bitcoin_txout_def get_bitcoin_tx_def slice_get_def)
  next
    fix spend payload and x :: u64
    assume P: "parse_checkpoint_envelope env tx = Ok spend" "verify_envelope_key (cs_sequencer_key s) spend = Ok ()"
      "decode_checkpoint_payload env (el_payload (es_unverified_leaf spend)) = Ok payload"
      and lt: "ct_l1_height (cs_verified_tip s) < ct_l1_height (cp_new_tip payload)"
      and h: "unat (ct_l1_height (cp_new_tip payload)) \<le> h"
      and x: "ucast (ct_l1_height (cs_verified_tip s) + 1) \<le> x" "x \<le> ucast (ct_l1_height (cp_new_tip payload))"
    let ?g = "\<lparr>mhr_start = ucast (ct_l1_height (cs_verified_tip s) + 1), mhr_end = ucast (ct_l1_height (cp_new_tip payload))\<rparr>"
    have "(ucast (ct_l1_height (cp_new_tip payload)) :: u64) \<le> arc_max_resolvable_manifest_height c1"
      using h bound b1 by (simp add: word_le_nat_alt unat_ucast_u64)
    then have "?g \<in> set (ar_manifest_hashes (arc_requests (request_checkpoint_aux env s tx c1)))"
      using P lt order_trans [OF x] by (simp add: request_checkpoint_aux_def Let_def request_manifest_hashes_set)
    then show "vad_manifest_hashes aux x \<noteq> None" using sub(2) man x by fastforce
  qed
qed

lemma get_coverage_hash:
  assumes "ct_l1_height t < n" and "\<And>x. ucast (ct_l1_height t + 1) \<le> x \<Longrightarrow> x \<le> ucast n \<Longrightarrow> vad_manifest_hashes aux x \<noteq> None"
  shows "\<exists>hash. coverage_manifests_hash env aux (CoverageRange (ct_l1_height t + 1) n) = Some hash"
proof -
  have "unat (ct_l1_height t + 1) = Suc (unat (ct_l1_height t))"
    using assms(1) unat_u32_lt [of n] by (intro unat_add_one_u32) (auto simp: word_less_nat_alt)
  then have "(ucast (ct_l1_height t + 1) :: u64) \<le> ucast n"
    using assms(1) by (simp add: word_le_nat_alt word_less_nat_alt unat_ucast_u64)
  with get_manifest_hashes_ok [of "ucast (ct_l1_height t + 1)" "ucast n" aux] assms(2)
  show ?thesis by (auto simp: coverage_manifests_hash_def)
qed

lemma dp_total_defined:
  assumes "pool_value p < 2 ^ 64" and "\<And>x. unat x \<le> pool_value p \<Longrightarrow> bitcoin_amount_try_from env x \<noteq> None"
  shows "dp_total env p \<noteq> None"
proof -
  have u: "uint (dp_denomination p) * uint (ucast (dp_count p) :: u64) = int (pool_value p)"
    by (simp add: unat_ucast_u64 [symmetric])
  then have "uint (dp_denomination p) * uint (ucast (dp_count p) :: u64) < 2 ^ 64"
    using assms(1) by (simp only: u of_nat_less_numeral_power_cancel_iff)
  moreover have "unat (dp_denomination p * ucast (dp_count p)) = pool_value p"
    using assms(1) by (simp add: unat_word_ariths unat_ucast_u64)
  ultimately show ?thesis using assms(2) by (auto simp: dp_total_def checked_mul_def bitcoin_amount_def)
qed

lemma deposit_log_defined:
  assumes "checkpoint_process_msg l1ref (DepositProcessed amount) s = Some s'" and "pool_value (cs_deposits s') < 2 ^ 64"
    and "\<And>x. unat x \<le> pool_value (cs_deposits s') \<Longrightarrow> bitcoin_amount_try_from env x \<noteq> None"
  shows "cs_deposits s' = dp_record amount (cs_deposits s) \<and> available_deposit_sum env s' \<noteq> None"
  using assms dp_total_defined [OF assms(2,3)]
  by (auto simp: checkpoint_process_msg_def record_deposit_def available_deposit_sum_def)

lemma advance_total:
  assumes "dp_total env (cs_deposits s) \<noteq> None"
  shows "advance env payload hash s \<noteq> None"
proof (cases "extract_withdrawal_intents env (sc_ol_logs (cp_sidecar payload))")
  case (Inr ws)
  show ?thesis
  proof (cases "verify_withdrawals env ws (cs_deposits s)")
    case None
    then show ?thesis using verify_withdrawals_total [OF None] assms by simp
  qed (use Inr in \<open>simp add: advance_def split: sum.splits\<close>)
qed (simp add: advance_def)

lemma handle_checkpoint_tx_total:
  assumes inv: "checkpoint_inv h s" and cur: "unat cur = Suc h" and srv: "served env aux h s0 tx"
    and key: "cs_sequencer_key s = cs_sequencer_key s0"
    and tip: "ct_l1_height (cs_verified_tip s0) \<le> ct_l1_height (cs_verified_tip s)"
    and leaf: "\<And>spend spk leaf. verify_spent_output env spend spk = Ok leaf \<Longrightarrow> leaf = es_unverified_leaf spend"
    and total: "dp_total env (cs_deposits s) \<noteq> None"
  shows "handle_checkpoint_tx env tx cur aux s r \<noteq> None"
proof (cases "parse_checkpoint_envelope env tx")
  case (Inl e)
  then show ?thesis by (simp add: handle_checkpoint_tx_def)
next
  case parse: (Inr spend)
  show ?thesis
  proof (cases "verify_envelope_key (cs_sequencer_key s) spend")
    case (Inl e)
    then have "(\<exists>k. authenticate_checkpoint_envelope env (cs_sequencer_key s) spend aux = Err (SequencerKey k))"
      by (cases "verify_sequencer_key (cs_sequencer_key s) (el_pubkey (es_unverified_leaf spend))")
        (auto simp: authenticate_checkpoint_envelope_def verify_envelope_key_def)
    then show ?thesis using parse by (auto simp: handle_checkpoint_tx_def)
  next
    case (Inr u)
    then have k: "verify_envelope_key (cs_sequencer_key s0) spend = Ok ()" using key by simp
    obtain out where out: "get_bitcoin_txout aux (es_spent_outpoint spend) = Ok out"
      using srv parse k by (auto simp: served_def)
    show ?thesis
    proof (cases "verify_spent_output env spend (to_script_pubkey out)")
      case (Inl e)
      then have "authenticate_checkpoint_envelope env (cs_sequencer_key s) spend aux = Err (SpentOutput e)"
        using Inr out by (simp add: authenticate_checkpoint_envelope_def)
      then show ?thesis using parse by (simp add: handle_checkpoint_tx_def)
    next
      case (Inr l)
      then have a: "authenticate_checkpoint_envelope env (cs_sequencer_key s) spend aux = Ok l"
        using \<open>verify_envelope_key (cs_sequencer_key s) spend = Ok u\<close> out by (simp add: authenticate_checkpoint_envelope_def)
      have l: "l = es_unverified_leaf spend" using leaf Inr by blast
      show ?thesis
      proof (cases "decode_checkpoint_payload env (el_payload l)")
        case (Inl e)
        then show ?thesis using parse a by (simp add: handle_checkpoint_tx_def)
      next
        case dec: (Inr payload)
        show ?thesis
        proof (cases "verify_progression (cs_verified_tip s) (cp_new_tip payload) cur (next_transition s)")
          case (Inl e)
          then show ?thesis using parse a dec by (simp add: handle_checkpoint_tx_def)
        next
          case prog: (Inr coverage)
          note P = verify_progression_OkD [OF prog]
          have "\<exists>hash. coverage_manifests_hash env aux coverage = Some hash"
          proof (cases "ct_l1_height (cs_verified_tip s) = ct_l1_height (cp_new_tip payload)")
            case True
            then show ?thesis using P(5) by (simp add: coverage_manifests_hash_def)
          next
            case False
            then have lt: "ct_l1_height (cs_verified_tip s) < ct_l1_height (cp_new_tip payload)" using P(3) by simp
            have le: "unat (ct_l1_height (cp_new_tip payload)) \<le> h" using P(2) cur by (simp add: word_less_nat_alt)
            have lt0: "ct_l1_height (cs_verified_tip s0) < ct_l1_height (cp_new_tip payload)" using lt tip by simp
            have "vad_manifest_hashes aux x \<noteq> None"
              if x: "ucast (ct_l1_height (cs_verified_tip s) + 1) \<le> x" "x \<le> ucast (ct_l1_height (cp_new_tip payload))" for x
            proof -
              have one: "unat (y + 1) = Suc (unat y)" if "y < ct_l1_height (cp_new_tip payload)" for y :: u32
                using that unat_u32_lt [of "ct_l1_height (cp_new_tip payload)"]
                by (intro unat_add_one_u32) (auto simp: word_less_nat_alt)
              have "(ucast (ct_l1_height (cs_verified_tip s0) + 1) :: u64) \<le> ucast (ct_l1_height (cs_verified_tip s) + 1)"
                using tip one [OF lt] one [OF lt0] by (simp add: word_le_nat_alt unat_ucast_u64)
              then have "ucast (ct_l1_height (cs_verified_tip s0) + 1) \<le> x" using x(1) by (rule order_trans)
              then show ?thesis using srv parse k dec l lt0 le x(2) by (auto simp: served_def)
            qed
            from get_coverage_hash [OF lt this] show ?thesis using P(5) False by simp
          qed
          then obtain hash where hash: "coverage_manifests_hash env aux coverage = Some hash" by blast
          have "advance env payload hash s \<noteq> None" by (rule advance_total [OF total])
          then show ?thesis using parse a dec prog hash by (auto simp: handle_checkpoint_tx_def)
        qed
      qed
    qed
  qed
qed

lemma checkpoint_handle_txs_total:
  assumes "checkpoint_inv h s" and cur: "unat cur = Suc h"
    and srv: "\<And>tx. tx \<in> set txs \<Longrightarrow> tag_tx_type (tir_tag tx) = ol_stf_checkpoint_tx_type \<Longrightarrow> served env aux h s0 tx"
    and "cs_sequencer_key s = cs_sequencer_key s0"
    and "ct_l1_height (cs_verified_tip s0) \<le> ct_l1_height (cs_verified_tip s)"
    and leaf: "\<And>spend spk leaf. verify_spent_output env spend spk = Ok leaf \<Longrightarrow> leaf = es_unverified_leaf spend"
    and "pool_value (cs_deposits s) \<le> m" and m: "m < 2 ^ 64"
    and amt: "\<And>x. unat x \<le> m \<Longrightarrow> bitcoin_amount_try_from env x \<noteq> None"
  shows "checkpoint_handle_txs env cur aux txs s r \<noteq> None"
  using assms(1,3,4,5,7)
proof (induction txs arbitrary: s r)
  case (Cons tx txs)
  have srv': "\<And>t. t \<in> set txs \<Longrightarrow> tag_tx_type (tir_tag t) = ol_stf_checkpoint_tx_type \<Longrightarrow> served env aux h s0 t"
    using Cons.prems(2) by simp
  show ?case
  proof (cases "tag_tx_type (tir_tag tx) = ol_stf_checkpoint_tx_type")
    case False
    then show ?thesis using Cons.IH [OF Cons.prems(1) srv' Cons.prems(3-5)] by simp
  next
    case True
    have tot: "dp_total env (cs_deposits s) \<noteq> None"
      using Cons.prems(5) m amt by (intro dp_total_defined) auto
    have "served env aux h s0 tx" using Cons.prems(2) True by simp
    then have "handle_checkpoint_tx env tx cur aux s r \<noteq> None"
      by (rule handle_checkpoint_tx_total [OF Cons.prems(1) cur _ Cons.prems(3,4) _ tot]) (rule leaf)
    then obtain s1 r1 where one: "handle_checkpoint_tx env tx cur aux s r = Some (s1, r1)" by auto
    then have "checkpoint_handle_txs env cur aux [tx] s r = Some (s1, r1)" using True by simp
    note S = checkpoint_handle_txs_spec [OF Cons.prems(1) cur this]
    have "ct_l1_height (cs_verified_tip s0) \<le> ct_l1_height (cs_verified_tip s1)"
      using S Cons.prems(4) by (auto intro: order_trans)
    moreover have "pool_value (cs_deposits s1) \<le> m"
      using S Cons.prems(5) by (auto simp: withdrawn_def)
    ultimately have "checkpoint_handle_txs env cur aux txs s1 r1 \<noteq> None"
      using Cons.IH [of s1 r1] S srv' Cons.prems(3) by auto
    then show ?thesis using one True by simp
  qed
qed simp

section \<open>Properties\<close>

text \<open>C21: pre-processing asks for everything processing reads.  If every Bitcoin transaction and every
  manifest height requested for a block is served, then processing the checkpoint transactions of that
  block never panics, however many checkpoints it carries and however they advance the tip.  Spent
  outputs exist, as Bitcoin consensus guarantees; the envelope library returns the leaf it parsed; the
  pool is worth a Bitcoin amount.  The accumulator covers the heights below the block.\<close>
theorem checkpoint_aux_requests_suffice:
  assumes "checkpoint_inv h s" and "unat (l1_block_height (hvs_last_verified_block header_vs)) = Suc h"
    and "unat (arc_max_resolvable_manifest_height c) = h"
    and "\<forall>t \<in> set (ar_bitcoin_txs (arc_requests (checkpoint_pre_process_txs env s txs c))). vad_txs aux t \<noteq> None"
    and "\<forall>g \<in> set (ar_manifest_hashes (arc_requests (checkpoint_pre_process_txs env s txs c))).
           \<forall>x. mhr_start g \<le> x \<and> x \<le> mhr_end g \<longrightarrow> vad_manifest_hashes aux x \<noteq> None"
    and "\<forall>tx \<in> set txs. \<forall>spend ptx. parse_checkpoint_envelope env tx = Ok spend \<and>
           vad_txs aux (op_txid (es_spent_outpoint spend)) = Some ptx \<longrightarrow>
           unat (op_vout (es_spent_outpoint spend)) < length (tx_output ptx)"
    and "\<And>spend spk leaf. verify_spent_output env spend spk = Ok leaf \<Longrightarrow> leaf = es_unverified_leaf spend"
    and "pool_value (cs_deposits s) < 2 ^ 64"
    and "\<And>x. unat x \<le> pool_value (cs_deposits s) \<Longrightarrow> bitcoin_amount_try_from env x \<noteq> None"
  shows "\<exists>s' r'. checkpoint_process_txs env header_vs aux txs s r = Some (s', r') \<and> checkpoint_inv h s'"
proof -
  let ?cur = "l1_block_height (hvs_last_verified_block header_vs)"
  have srv: "served env aux h s tx" if "tx \<in> set txs" "tag_tx_type (tir_tag tx) = ol_stf_checkpoint_tx_type" for tx
    using that assms(6) by (intro requested_served [OF that refl assms(3,4) _ assms(5)]) blast
  have "checkpoint_handle_txs env ?cur aux txs s r \<noteq> None"
    by (rule checkpoint_handle_txs_total [OF assms(1,2) srv refl order_refl _ order_refl assms(8)])
      (use assms(7,9) in simp_all)
  then obtain s' r' where run: "checkpoint_handle_txs env ?cur aux txs s r = Some (s', r')" by auto
  then have "checkpoint_inv h s'" using checkpoint_handle_txs_spec [OF assms(1,2) run] by blast
  then show ?thesis using run by (simp add: checkpoint_process_txs_def)
qed

definition sample_checkpoint_tx :: tx_input_ref where
  "sample_checkpoint_tx = \<lparr>tir_tx = \<lparr>tx_input = [\<lparr>ti_previous_output = \<lparr>op_txid = [78], op_vout = 0\<rparr>,
       ti_witness = [[4, 12, 9, 100]]\<rparr>], tx_output = []\<rparr>,
     tir_tag = \<lparr>tag_subproto_id = 1, tag_tx_type = 1, tag_aux_data = []\<rparr>\<rparr>"

definition sample_checkpoint_aux :: verified_aux_data where
  "sample_checkpoint_aux = \<lparr>vad_txs = (\<lambda>_. Some \<lparr>tx_input = [],
       tx_output = [\<lparr>to_value = 1, to_script_pubkey = [81, 32]\<rparr>]\<rparr>), vad_manifest_hashes = (\<lambda>_. Some [3])\<rparr>"

definition sample_header_14 :: header_verification_state where
  "sample_header_14 = sample_hvs\<lparr>hvs_last_verified_block := \<lparr>l1_block_height = 14, l1_block_blkid = []\<rparr>\<rparr>"

definition quiet :: relayer where
  "quiet = \<lparr>rl_msgs = [], rl_logs = []\<rparr>"

lemma sample_checkpoint_env_simps:
  "verify_spent_output sample_checkpoint_env spend spk =
     (if take 1 spk = [81] then Ok (es_unverified_leaf spend) else Err ''not taproot'')"
  "bitcoin_amount_try_from sample_checkpoint_env x = (if x \<le> 2100000000000000 then Some x else None)"
  "parse_signed_envelope_spend sample_checkpoint_env i = Ok \<lparr>es_spent_outpoint = ti_previous_output i,
     es_unverified_leaf = \<lparr>el_pubkey = [7], el_payload = concat (ti_witness i)\<rparr>\<rparr>"
  by (simp_all add: sample_checkpoint_env_def bridge_env.defs checkpoint_env.defs)

theorem checkpoint_aux_requests_suffice_witness:
  "\<exists>s' r'. checkpoint_process_txs sample_checkpoint_env sample_header_14 sample_checkpoint_aux [sample_checkpoint_tx]
       sample_checkpoint_state quiet = Some (s', r') \<and> checkpoint_inv 13 s'"
proof (rule checkpoint_aux_requests_suffice [where c = "arc_new 13"])
  show "checkpoint_inv 13 sample_checkpoint_state" by (rule sample_checkpoint_inv)
  show "unat (l1_block_height (hvs_last_verified_block sample_header_14)) = Suc 13"
    by (simp add: sample_header_14_def)
  show "unat (arc_max_resolvable_manifest_height (arc_new 13)) = 13" by (simp add: arc_new_def)
  show "leaf = es_unverified_leaf spend" if "verify_spent_output sample_checkpoint_env spend spk = Ok leaf" for spend spk leaf
    using that by (simp add: sample_checkpoint_env_simps split: if_splits)
  show "pool_value (cs_deposits sample_checkpoint_state) < 2 ^ 64" by (simp add: sample_checkpoint_state_def)
  show "bitcoin_amount_try_from sample_checkpoint_env x \<noteq> None" if "unat x \<le> pool_value (cs_deposits sample_checkpoint_state)" for x
    using that by (simp add: sample_checkpoint_env_simps sample_checkpoint_state_def word_le_nat_alt)
qed (auto simp: sample_checkpoint_aux_def sample_checkpoint_tx_def parse_checkpoint_envelope_def sample_checkpoint_env_simps)

lemma checkpoint_block_dispatches:
  assumes "checkpoint_inv h s" and "unat (l1_block_height (hvs_last_verified_block header_vs)) = Suc h"
    and "checkpoint_process_txs env header_vs aux txs s r = Some (s1, r1)"
    and "length (filter is_rotation msgs) \<le> 1"
    and "\<forall>a \<in> set (deposit_amounts msgs). a = d" and "d \<noteq> 0"
    and "dp_is_empty (cs_deposits s) \<or> dp_denomination (cs_deposits s) = d"
    and "unat (dp_count (cs_deposits s)) + length msgs < 2 ^ 32"
  shows "\<exists>payloads ws s2. accepted_checkpoints env (cs_sequencer_key s) aux txs payloads ws
    \<and> rl_msgs r1 = rl_msgs r @ map (BridgeMsg \<circ> DispatchWithdrawal) ws
    \<and> rl_logs r1 = rl_logs r @ map (CheckpointTipUpdate \<circ> cp_new_tip) payloads
    \<and> (\<forall>w \<in> set ws. whole_multiple d w)
    \<and> checkpoint_process_msgs (hvs_last_verified_block header_vs) msgs s1 = Some s2
    \<and> checkpoint_inv (Suc h) s2
    \<and> cs_verified_tip s2 = last (cs_verified_tip s # map cp_new_tip payloads)
    \<and> ct_l1_height (cs_verified_tip s) \<le> ct_l1_height (cs_verified_tip s2)
    \<and> (dp_is_empty (cs_deposits s2) \<or> dp_denomination (cs_deposits s2) = d)
    \<and> unat (dp_count (cs_deposits s2)) + sum_list (map (\<lambda>w. unat (wi_amt w) div unat d) ws)
        = unat (dp_count (cs_deposits s)) + length (deposit_amounts msgs)"
proof -
  note S = checkpoint_handle_txs_spec [OF assms(1,2) assms(3) [unfolded checkpoint_process_txs_def]]
  obtain ws where ws: "withdrawn (cs_deposits s) ws (cs_deposits s1)"
    "rl_msgs r1 = rl_msgs r @ map (BridgeMsg \<circ> DispatchWithdrawal) ws" using S by blast
  obtain ps vs where acc: "accepted_checkpoints env (cs_sequencer_key s) aux txs ps vs"
    "cs_verified_tip s1 = last (cs_verified_tip s # map cp_new_tip ps)"
    "rl_logs r1 = rl_logs r @ map (CheckpointTipUpdate \<circ> cp_new_tip) ps"
    "rl_msgs r1 = rl_msgs r @ map (BridgeMsg \<circ> DispatchWithdrawal) vs"
    using checkpoint_handle_txs_accepts [OF assms(1,2) assms(3) [unfolded checkpoint_process_txs_def]] by blast
  have "inj (BridgeMsg \<circ> DispatchWithdrawal)" by (simp add: inj_def)
  then have "vs = ws" using ws(2) acc(4) inj_map_eq_map by auto
  then have acc1: "accepted_checkpoints env (cs_sequencer_key s) aux txs ps ws" using acc(1) by simp
  have inv1: "checkpoint_inv h s1" using S by blast
  obtain s2 where s2: "checkpoint_process_msgs (hvs_last_verified_block header_vs) msgs s1 = Some s2"
    "checkpoint_inv (Suc h) s2" "cs_verified_tip s2 = cs_verified_tip s1"
    "cs_deposits s2 = fold dp_record (deposit_amounts msgs) (cs_deposits s1)"
    using checkpoint_process_msgs_spec [OF inv1 assms(2,4)] by blast
  have whole: "whole_multiple d w" if "w \<in> set ws" for w
  proof -
    have w: "whole_multiple (dp_denomination (cs_deposits s)) w" using ws(1) that by (simp add: withdrawn_def)
    then have "\<not> dp_is_empty (cs_deposits s)" by (auto simp: whole_multiple_def dp_is_empty_def)
    then show ?thesis using w assms(7) by simp
  qed
  have units: "sum_list (map (\<lambda>w. unat (wi_amt w) div unat d) ws)
      = sum_list (map (\<lambda>w. unat (wi_amt w) div unat (dp_denomination (cs_deposits s))) ws)"
    using whole ws(1) assms(7) by (cases "dp_is_empty (cs_deposits s)")
      (auto simp: withdrawn_def whole_multiple_def dp_is_empty_def)
  have len: "length (deposit_amounts msgs) \<le> length msgs" by (induction msgs rule: deposit_amounts.induct) simp_all
  have empty: "dp_is_empty (cs_deposits s1) \<or> dp_denomination (cs_deposits s1) = d"
    using ws(1) assms(7) by (auto simp: withdrawn_def dp_is_empty_def unat_eq_0)
  have "unat (dp_count (cs_deposits s1)) + length (deposit_amounts msgs) < 2 ^ 32"
    using ws(1) assms(8) len by (simp add: withdrawn_def)
  note F = fold_dp_record [OF assms(5,6) empty this]
  have "unat (dp_count (cs_deposits s2)) + sum_list (map (\<lambda>w. unat (wi_amt w) div unat d) ws)
        = unat (dp_count (cs_deposits s)) + length (deposit_amounts msgs)"
    using F s2(4) ws(1) units by (simp add: withdrawn_def)
  then show ?thesis using acc1 acc(2,3) ws(2) whole s2 S F by (intro exI [of _ ps] exI [of _ ws] exI [of _ s2]) simp
qed

lemma checkpoint_block_spec:
  assumes "checkpoint_inv h s" and "unat (l1_block_height (hvs_last_verified_block header_vs)) = Suc h"
    and "checkpoint_process_txs env header_vs aux txs s r = Some (s1, r1)"
    and "length (filter is_rotation msgs) \<le> 1"
    and "\<forall>a \<in> set (deposit_amounts msgs). a = d" and "d \<noteq> 0"
    and "dp_is_empty (cs_deposits s) \<or> dp_denomination (cs_deposits s) = d"
    and "unat (dp_count (cs_deposits s)) + length msgs < 2 ^ 32"
  shows "\<exists>ws s2. rl_msgs r1 = rl_msgs r @ map (BridgeMsg \<circ> DispatchWithdrawal) ws
    \<and> (\<forall>w \<in> set ws. whole_multiple d w)
    \<and> checkpoint_process_msgs (hvs_last_verified_block header_vs) msgs s1 = Some s2
    \<and> checkpoint_inv (Suc h) s2
    \<and> ct_l1_height (cs_verified_tip s) \<le> ct_l1_height (cs_verified_tip s2)
    \<and> (dp_is_empty (cs_deposits s2) \<or> dp_denomination (cs_deposits s2) = d)
    \<and> unat (dp_count (cs_deposits s2)) + sum_list (map (\<lambda>w. unat (wi_amt w) div unat d) ws)
        = unat (dp_count (cs_deposits s)) + length (deposit_amounts msgs)"
  using checkpoint_block_dispatches [OF assms] by blast

text \<open>C13: a block of checkpoints and messages.  The accepted checkpoints are payloads of the block's checkpoint
  transactions, in order, authenticated under the sequencer's key; each is logged with its tip, and the
  last one's tip is the new verified tip.  The bridge is sent exactly the intents extracted from their
  logs, unchanged and in order, one dispatch each, and the pool loses exactly the outputs those intents
  need; the messages then add exactly the announced deposits.  The invariant goes from one block height
  to the next, and with at most one rotation among the messages, queueing it cannot panic.\<close>
theorem checkpoint_block_accounting:
  assumes "checkpoint_inv h s" and "unat (l1_block_height (hvs_last_verified_block header_vs)) = Suc h"
    and "checkpoint_process_txs env header_vs aux txs s r = Some (s1, r1)"
    and "length (filter is_rotation msgs) \<le> 1"
    and "\<forall>a \<in> set (deposit_amounts msgs). a = d" and "d \<noteq> 0"
    and "dp_is_empty (cs_deposits s) \<or> dp_denomination (cs_deposits s) = d"
    and "unat (dp_count (cs_deposits s)) + length msgs < 2 ^ 32"
  shows "\<exists>payloads ws s2. accepted_checkpoints env (cs_sequencer_key s) aux txs payloads ws
    \<and> rl_msgs r1 = rl_msgs r @ map (BridgeMsg \<circ> DispatchWithdrawal) ws
    \<and> rl_logs r1 = rl_logs r @ map (CheckpointTipUpdate \<circ> cp_new_tip) payloads
    \<and> (\<forall>w \<in> set ws. whole_multiple d w)
    \<and> checkpoint_process_msgs (hvs_last_verified_block header_vs) msgs s1 = Some s2
    \<and> checkpoint_inv (Suc h) s2
    \<and> cs_verified_tip s2 = last (cs_verified_tip s # map cp_new_tip payloads)
    \<and> ct_l1_height (cs_verified_tip s) \<le> ct_l1_height (cs_verified_tip s2)
    \<and> (dp_is_empty (cs_deposits s2) \<or> dp_denomination (cs_deposits s2) = d)
    \<and> unat (dp_count (cs_deposits s2)) + sum_list (map (\<lambda>w. unat (wi_amt w) div unat d) ws)
        = unat (dp_count (cs_deposits s)) + length (deposit_amounts msgs)"
  by (rule checkpoint_block_dispatches [OF assms])

theorem checkpoint_block_accounting_witness:
  "\<exists>s1 r1 s2 payload w. checkpoint_process_txs sample_checkpoint_env sample_header_14 sample_checkpoint_aux [sample_checkpoint_tx]
       sample_checkpoint_state quiet = Some (s1, r1)
     \<and> accepted_checkpoints sample_checkpoint_env [7] sample_checkpoint_aux [sample_checkpoint_tx] [payload] [w]
     \<and> rl_msgs r1 = [BridgeMsg (DispatchWithdrawal w)]
     \<and> checkpoint_process_msgs (hvs_last_verified_block sample_header_14)
         [DepositProcessed 100, UpdateCheckpointPredicate [9]] s1 = Some s2
     \<and> checkpoint_inv 14 s2 \<and> cs_verified_tip s2 = cp_new_tip payload
     \<and> unat (dp_count (cs_deposits s2)) + unat (wi_amt w) div 100 = 3"
proof -
  let ?run = "checkpoint_process_txs sample_checkpoint_env sample_header_14 sample_checkpoint_aux [sample_checkpoint_tx]
       sample_checkpoint_state quiet"
  let ?msgs = "[DepositProcessed 100, UpdateCheckpointPredicate [9]]"
  have "case ?run of None \<Rightarrow> False | Some (s1, r1) \<Rightarrow> length (rl_msgs r1) = 1 \<and> length (rl_logs r1) = 1" by code_simp
  then obtain s1 r1 where run: "?run = Some (s1, r1)" "length (rl_msgs r1) = 1" "length (rl_logs r1) = 1"
    by (auto split: option.splits)
  have h: "unat (l1_block_height (hvs_last_verified_block sample_header_14)) = Suc 13" by (simp add: sample_header_14_def)
  have pre: "dp_is_empty (cs_deposits sample_checkpoint_state) \<or> dp_denomination (cs_deposits sample_checkpoint_state) = 100"
    "unat (dp_count (cs_deposits sample_checkpoint_state)) + length ?msgs < 2 ^ 32"
    by (simp_all add: sample_checkpoint_state_def)
  have key: "cs_sequencer_key sample_checkpoint_state = [7]" "dp_count (cs_deposits sample_checkpoint_state) = 2"
    "rl_msgs quiet = []" "rl_logs quiet = []" by (simp_all add: sample_checkpoint_state_def quiet_def)
  obtain ps ws s2 where A: "accepted_checkpoints sample_checkpoint_env [7] sample_checkpoint_aux [sample_checkpoint_tx] ps ws"
    "rl_msgs r1 = map (BridgeMsg \<circ> DispatchWithdrawal) ws" "rl_logs r1 = map (CheckpointTipUpdate \<circ> cp_new_tip) ps"
    "checkpoint_process_msgs (hvs_last_verified_block sample_header_14) ?msgs s1 = Some s2" "checkpoint_inv 14 s2"
    "cs_verified_tip s2 = last (cs_verified_tip sample_checkpoint_state # map cp_new_tip ps)"
    "unat (dp_count (cs_deposits s2)) + sum_list (map (\<lambda>w. unat (wi_amt w) div 100) ws) = 3"
    using checkpoint_block_accounting [OF sample_checkpoint_inv h run(1), of ?msgs 100] pre by (auto simp: key)
  obtain payload where ps: "ps = [payload]" using run(3) A(3) by (cases ps; cases "tl ps"; simp)
  obtain w where ws: "ws = [w]" using run(2) A(2) by (cases ws; cases "tl ws"; simp)
  show ?thesis using A run(1) unfolding ps ws
    by (intro exI [of _ s1] exI [of _ r1] exI [of _ s2] exI [of _ payload] exI [of _ w]) simp
qed

end
