(* ===== verification/Sorted_Vec.thy ===== *)
theory Sorted_Vec
  imports Asm_Prelude
begin

text \<open>
  The sorted containers of \<open>crates/common/src/sorted_vec.rs\<close>.  A \<open>SortedVec\<close> or a
  \<open>FlatTable\<close> is its backing vector, a list; the order of the entries is the order of a key,
  which is the argument \<open>key\<close> of every operation.  The binary search of the standard library
  is modelled as the halving loop it is; the locale \<open>slice_search\<close> states its documented
  contract, the container lemmas are proved from that contract alone, and the interpretation
  discharges it for the loop.  The locale \<open>keyed_table\<close> is the contract the bridge tables
  promise to their clients: a finite map from keys to entries.
\<close>

section \<open>Binary search of the standard library\<close>

function bs_loop :: "('a \<Rightarrow> 'k::linorder) \<Rightarrow> 'k \<Rightarrow> 'a list \<Rightarrow> nat \<Rightarrow> nat \<Rightarrow> nat" where
  "bs_loop key k xs base sz =
     (if sz \<le> 1 then base
      else let half = sz div 2; mid = base + half
           in bs_loop key k xs (if k < key (xs ! mid) then base else mid) (sz - half))"
  by pat_completeness auto
termination
  by (relation "measure (\<lambda>(key, k, xs, base, sz). sz)") auto

definition binary_search_by_key ::
  "('a \<Rightarrow> 'k::linorder) \<Rightarrow> 'k \<Rightarrow> 'a list \<Rightarrow> (nat, nat) result" where
  "binary_search_by_key key k xs =
     (if xs = [] then Err 0
      else let base = bs_loop key k xs 0 (length xs)
           in if key (xs ! base) = k then Ok base
              else Err (if key (xs ! base) < k then base + 1 else base))"

declare bs_loop.simps [simp del]

section \<open>SortedVec\<close>

datatype sorted_vec_error = Unsorted | Duplicates

definition sv_new_empty :: "'a list" where
  "sv_new_empty = []"

definition sv_from_unsorted :: "('a \<Rightarrow> 'k::linorder) \<Rightarrow> 'a list \<Rightarrow> 'a list" where
  "sv_from_unsorted key vec = sort_key key vec"

definition sv_find_index :: "('a \<Rightarrow> 'k::linorder) \<Rightarrow> 'k \<Rightarrow> 'a list \<Rightarrow> (nat, nat) result" where
  "sv_find_index key k xs = binary_search_by_key key k xs"

definition sv_insert :: "('a \<Rightarrow> 'k::linorder) \<Rightarrow> 'a \<Rightarrow> 'a list \<Rightarrow> 'a list" where
  "sv_insert key x xs =
     (let pos = (case binary_search_by_key key (key x) xs of Ok i \<Rightarrow> i | Err e \<Rightarrow> e)
      in insert_at pos x xs)"

definition sv_remove :: "('a \<Rightarrow> 'k::linorder) \<Rightarrow> 'k \<Rightarrow> 'a list \<Rightarrow> 'a list \<times> bool" where
  "sv_remove key k xs =
     (case sv_find_index key k xs of Ok pos \<Rightarrow> (remove_at pos xs, True) | Err _ \<Rightarrow> (xs, False))"

definition sv_contains :: "('a \<Rightarrow> 'k::linorder) \<Rightarrow> 'k \<Rightarrow> 'a list \<Rightarrow> bool" where
  "sv_contains key k xs = is_ok (sv_find_index key k xs)"

fun sv_merge :: "('a \<Rightarrow> 'k::linorder) \<Rightarrow> 'a list \<Rightarrow> 'a list \<Rightarrow> 'a list" where
  "sv_merge key (x # xs) (y # ys) =
     (if key y < key x then y # sv_merge key (x # xs) ys else x # sv_merge key xs (y # ys))"
| "sv_merge key [] ys = ys"
| "sv_merge key xs [] = xs"

definition sv_try_from :: "('a \<Rightarrow> 'k::linorder) \<Rightarrow> 'a list \<Rightarrow> (sorted_vec_error, 'a list) result" where
  "sv_try_from key value = (if sorted (map key value) then Ok value else Err Unsorted)"

section \<open>FlatTable\<close>

fun check_duplicate_keys :: "('a \<Rightarrow> 'k::linorder) \<Rightarrow> 'a list \<Rightarrow> bool" where
  "check_duplicate_keys key (x # y # zs) = (key x = key y \<or> check_duplicate_keys key (y # zs))"
| "check_duplicate_keys key _ = False"

datatype table_state = TableSafe | TableDuplicates | TableUnsorted

fun check_table_loop :: "('a \<Rightarrow> 'k::linorder) \<Rightarrow> bool \<Rightarrow> 'a list \<Rightarrow> table_state" where
  "check_table_loop key dups (x # y # zs) =
     (if key x < key y then check_table_loop key dups (y # zs)
      else if key x = key y then check_table_loop key True (y # zs)
      else TableUnsorted)"
| "check_table_loop key dups _ = (if dups then TableDuplicates else TableSafe)"

definition check_table_vec :: "('a \<Rightarrow> 'k::linorder) \<Rightarrow> 'a list \<Rightarrow> table_state" where
  "check_table_vec key v = check_table_loop key False v"

definition ft_try_from_unsorted ::
  "('a \<Rightarrow> 'k::linorder) \<Rightarrow> 'a list \<Rightarrow> (sorted_vec_error, 'a list) result" where
  "ft_try_from_unsorted key vec =
     (let s = sort_key key vec in if \<not> check_duplicate_keys key s then Ok s else Err Duplicates)"

definition ft_find_index :: "('a \<Rightarrow> 'k::linorder) \<Rightarrow> 'k \<Rightarrow> 'a list \<Rightarrow> (nat, nat) result" where
  "ft_find_index key k xs = binary_search_by_key key k xs"

definition ft_contains :: "('a \<Rightarrow> 'k::linorder) \<Rightarrow> 'k \<Rightarrow> 'a list \<Rightarrow> bool" where
  "ft_contains key k xs = is_ok (ft_find_index key k xs)"

definition ft_get :: "('a \<Rightarrow> 'k::linorder) \<Rightarrow> 'k \<Rightarrow> 'a list \<Rightarrow> 'a option" where
  "ft_get key k xs = (case ft_find_index key k xs of Ok i \<Rightarrow> Some (xs ! i) | Err _ \<Rightarrow> None)"

definition ft_insert :: "('a \<Rightarrow> 'k::linorder) \<Rightarrow> 'a \<Rightarrow> 'a list \<Rightarrow> 'a list \<times> 'a option" where
  "ft_insert key e xs =
     (case ft_find_index key (key e) xs of
        Ok i \<Rightarrow> (xs[i := e], Some (xs ! i))
      | Err i \<Rightarrow> (insert_at i e xs, None))"

definition ft_remove :: "('a \<Rightarrow> 'k::linorder) \<Rightarrow> 'k \<Rightarrow> 'a list \<Rightarrow> 'a list \<times> 'a option" where
  "ft_remove key k xs =
     (case ft_find_index key k xs of
        Ok i \<Rightarrow> (remove_at i xs, Some (xs ! i))
      | Err _ \<Rightarrow> (xs, None))"

fun ft_merge :: "('a \<Rightarrow> 'k::linorder) \<Rightarrow> 'a list \<Rightarrow> 'a list \<Rightarrow> 'a list" where
  "ft_merge key (a # as) (b # bs) =
     (if key a < key b then a # ft_merge key as (b # bs)
      else if key b < key a then b # ft_merge key (a # as) bs
      else b # ft_merge key as bs)"
| "ft_merge key as [] = as"
| "ft_merge key [] bs = bs"

definition ft_try_from :: "('a \<Rightarrow> 'k::linorder) \<Rightarrow> 'a list \<Rightarrow> (sorted_vec_error, 'a list) result" where
  "ft_try_from key value =
     (case check_table_vec key value of
        TableDuplicates \<Rightarrow> Err Duplicates
      | TableUnsorted \<Rightarrow> Err Unsorted
      | TableSafe \<Rightarrow> Ok value)"

section \<open>The contract of the search\<close>

locale slice_search =
  fixes search :: "('a \<Rightarrow> 'k::linorder) \<Rightarrow> 'k \<Rightarrow> 'a list \<Rightarrow> (nat, nat) result"
  assumes found: "sorted (map key xs) \<Longrightarrow> search key k xs = Ok i \<Longrightarrow> i < length xs \<and> key (xs ! i) = k"
    and missing: "sorted (map key xs) \<Longrightarrow> search key k xs = Err i \<Longrightarrow>
      i \<le> length xs \<and> (\<forall>x\<in>set (take i xs). key x < k) \<and> (\<forall>x\<in>set (drop i xs). k < key x)"
begin

lemma found_iff:
  assumes "sorted (map key xs)"
  shows "is_ok (search key k xs) \<longleftrightarrow> k \<in> key ` set xs"
proof (cases "search key k xs")
  case (Inl e)
  have "set xs = set (take e xs) \<union> set (drop e xs)" by (metis append_take_drop_id set_append)
  then show ?thesis using missing [OF assms Inl] Inl by fastforce
next
  case (Inr i)
  then show ?thesis using found [OF assms Inr] by (auto intro: rev_image_eqI [OF nth_mem])
qed

lemma insert_pos_sorted:
  assumes "sorted (map key xs)"
  shows "sorted (map key (insert_at (case search key (key x) xs of Ok i \<Rightarrow> i | Err e \<Rightarrow> e) x xs))"
proof (cases "search key (key x) xs")
  case (Inl e)
  have "sorted (map key (take e xs @ drop e xs))" using assms by simp
  then show ?thesis using missing [OF assms Inl] Inl
    by (auto simp: insert_at_def sorted_append less_imp_le simp del: append_take_drop_id)
next
  case (Inr i)
  have i: "i < length xs" "key (xs ! i) = key x" using found [OF assms Inr] by auto
  then have split: "xs = take i xs @ xs ! i # drop (Suc i) xs" by (simp add: id_take_nth_drop)
  have "sorted (map key (take i xs @ xs ! i # drop (Suc i) xs))" using assms split by simp
  then have "sorted (map key (take i xs @ x # xs ! i # drop (Suc i) xs))"
    using i(2) by (auto simp: sorted_append)
  moreover have "drop i xs = xs ! i # drop (Suc i) xs" using i(1) by (rule Cons_nth_drop_Suc [symmetric])
  ultimately show ?thesis using Inr by (simp add: insert_at_def)
qed

lemma lookup_strict:
  assumes "keys_strict key xs"
  shows "(case search key k xs of Ok i \<Rightarrow> Some (xs ! i) | Err _ \<Rightarrow> None) = Some e
    \<longleftrightarrow> e \<in> set xs \<and> key e = k"
proof (cases "search key k xs")
  case (Inl j)
  then have "k \<notin> key ` set xs"
    using found_iff [OF keys_strict_sorted [OF assms], of k] by simp
  then show ?thesis using Inl by auto
next
  case (Inr i)
  then have "i < length xs" "key (xs ! i) = k"
    using found [OF keys_strict_sorted [OF assms]] by blast+
  then show ?thesis using Inr keys_strict_inj [OF assms] by (auto simp del: Cons_nth_drop_Suc)
qed

lemma remove_strict:
  assumes "keys_strict key xs" and "search key k xs = Ok i"
  shows "remove_at i xs = filter (\<lambda>x. key x \<noteq> k) xs"
proof -
  have i: "i < length xs" "key (xs ! i) = k"
    using found [OF keys_strict_sorted [OF assms(1)] assms(2)] by auto
  have split: "xs = take i xs @ xs ! i # drop (Suc i) xs" using i(1) by (rule id_take_nth_drop)
  have "keys_strict key (take i xs @ xs ! i # drop (Suc i) xs)" using assms(1) split by simp
  then have "\<forall>x\<in>set (take i xs). key x < k" "\<forall>x\<in>set (drop (Suc i) xs). k < key x"
    using i(2) by (auto simp: keys_strict_append keys_strict_Cons)
  then have "filter (\<lambda>x. key x \<noteq> k) (take i xs @ xs ! i # drop (Suc i) xs)
      = take i xs @ drop (Suc i) xs"
    using i(2) by (force intro!: arg_cong2 [where f = append] filter_True)
  then show ?thesis using split by (simp add: remove_at_def)
qed

lemma insert_strict:
  assumes "keys_strict key xs" and "search key (key x) xs = Err i"
  shows "keys_strict key (insert_at i x xs)"
proof -
  have "keys_strict key (take i xs @ drop i xs)" using assms(1) by simp
  then show ?thesis using missing [OF keys_strict_sorted [OF assms(1)] assms(2)]
    by (auto simp: insert_at_def keys_strict_append keys_strict_Cons simp del: append_take_drop_id)
qed

end

lemma bs_loop_bounds:
  "0 < sz \<Longrightarrow> base + sz \<le> n \<Longrightarrow> bs_loop key k xs base sz < n"
proof (induction key k xs base sz rule: bs_loop.induct)
  case (1 key k xs base sz)
  show ?case
  proof (cases "sz \<le> 1")
    case False
    then show ?thesis using 1 by (subst bs_loop.simps) (auto simp: Let_def)
  qed (use 1 in \<open>simp add: bs_loop.simps\<close>)
qed

lemma bs_loop_spec:
  assumes "sorted (map key xs)"
  shows "0 < sz \<Longrightarrow> base + sz \<le> length xs \<Longrightarrow> base = 0 \<or> key (xs ! base) \<le> k \<Longrightarrow>
    (\<forall>j. base + sz \<le> j \<and> j < length xs \<longrightarrow> k < key (xs ! j)) \<Longrightarrow>
    (bs_loop key k xs base sz = 0 \<or> key (xs ! bs_loop key k xs base sz) \<le> k) \<and>
    (\<forall>j. bs_loop key k xs base sz < j \<and> j < length xs \<longrightarrow> k < key (xs ! j))"
proof (induction sz arbitrary: base rule: less_induct)
  case (less sz)
  show ?case
  proof (cases "sz \<le> 1")
    case True
    then show ?thesis using less.prems by (auto simp: bs_loop.simps)
  next
    case False
    define half mid where "half = sz div 2" and "mid = base + half"
    have h: "0 < half" "half < sz" "mid < length xs" using False less.prems(1,2)
      by (auto simp: half_def mid_def)
    have step: "bs_loop key k xs base sz =
        bs_loop key k xs (if k < key (xs ! mid) then base else mid) (sz - half)"
      using False by (subst bs_loop.simps) (simp add: Let_def half_def mid_def)
    show ?thesis
    proof (cases "k < key (xs ! mid)")
      case True
      have up: "k < key (xs ! j)" if "base + (sz - half) \<le> j" "j < length xs" for j
      proof -
        have "mid \<le> j" using that h by (auto simp: mid_def half_def)
        then have "key (xs ! mid) \<le> key (xs ! j)"
          using assms that by (simp add: sorted_iff_nth_mono)
        then show ?thesis using True by simp
      qed
      show ?thesis using less.IH [of "sz - half" base] less.prems h up True step
        by (simp add: half_def)
    next
      case False
      show ?thesis using less.IH [of "sz - half" mid] less.prems h False step
        by (simp add: mid_def)
    qed
  qed
qed

interpretation bs: slice_search binary_search_by_key
proof
  fix key :: "'a \<Rightarrow> 'b::linorder" and xs k i
  assume srt: "sorted (map key xs)"
  let ?b = "bs_loop key k xs 0 (length xs)"
  have b: "?b < length xs" if "xs \<noteq> []" using bs_loop_bounds [of "length xs" 0 "length xs"] that by simp
  have spec: "(?b = 0 \<or> key (xs ! ?b) \<le> k) \<and> (\<forall>j. ?b < j \<and> j < length xs \<longrightarrow> k < key (xs ! j))"
    if "xs \<noteq> []" by (rule bs_loop_spec [OF srt]) (use that in auto)
  have mono: "key (xs ! j) \<le> key (xs ! l)" if "j \<le> l" "l < length xs" for j l
    using srt that by (simp add: sorted_iff_nth_mono)
  {
    assume "binary_search_by_key key k xs = Ok i"
    then show "i < length xs \<and> key (xs ! i) = k" using b
      by (auto simp: binary_search_by_key_def Let_def split: if_splits)
  next
    assume e: "binary_search_by_key key k xs = Err i"
    show "i \<le> length xs \<and> (\<forall>x\<in>set (take i xs). key x < k) \<and> (\<forall>x\<in>set (drop i xs). k < key x)"
    proof (cases "xs = []")
      case False
      consider "key (xs ! ?b) < k" "i = ?b + 1" | "k < key (xs ! ?b)" "i = ?b"
        using e False by (fastforce simp: binary_search_by_key_def Let_def split: if_splits)
      then show ?thesis
      proof cases
        case 1
        have "key x < k" if "x \<in> set (take i xs)" for x
        proof -
          from that obtain j where "j < i" "j < length xs" "x = xs ! j" by (auto simp: in_set_conv_nth)
          then show ?thesis using 1 mono [of j ?b] b [OF False] by simp
        qed
        moreover have "k < key x" if "x \<in> set (drop i xs)" for x
        proof -
          from that obtain j where "j < length (drop i xs)" "x = drop i xs ! j"
            unfolding in_set_conv_nth by blast
          then show ?thesis using 1 spec [OF False] b [OF False] by simp
        qed
        ultimately show ?thesis using 1 b [OF False] by simp
      next
        case 2
        then have "?b = 0" using spec [OF False] by auto
        have "k < key x" if "x \<in> set xs" for x
        proof -
          from that obtain j where "j < length xs" "x = xs ! j" by (auto simp: in_set_conv_nth)
          then show ?thesis using 2 \<open>?b = 0\<close> mono [of 0 j] by simp
        qed
        then show ?thesis using 2 \<open>?b = 0\<close> by simp
      qed
    qed (use e in \<open>simp add: binary_search_by_key_def\<close>)
  }
qed

section \<open>The contract of a keyed table\<close>

locale keyed_table =
  fixes key :: "'e \<Rightarrow> 'k::linorder"
    and invar :: "'t \<Rightarrow> bool"
    and entries :: "'t \<Rightarrow> 'e list"
    and get :: "'k \<Rightarrow> 't \<Rightarrow> 'e option"
    and put :: "'e \<Rightarrow> 't \<Rightarrow> 't"
    and del :: "'k \<Rightarrow> 't \<Rightarrow> 't"
  assumes entries_strict: "invar t \<Longrightarrow> keys_strict key (entries t)"
    and get_iff: "invar t \<Longrightarrow> get k t = Some e \<longleftrightarrow> e \<in> set (entries t) \<and> key e = k"
    and put_new: "invar t \<Longrightarrow> get (key e) t = None \<Longrightarrow>
      invar (put e t) \<and> mset (entries (put e t)) = add_mset e (mset (entries t))"
    and del_filter: "invar t \<Longrightarrow>
      invar (del k t) \<and> entries (del k t) = filter (\<lambda>e. key e \<noteq> k) (entries t)"
begin

lemma get_None_iff: "invar t \<Longrightarrow> get k t = None \<longleftrightarrow> k \<notin> key ` set (entries t)"
  using get_iff [of t k] by (cases "get k t") force+

lemma get_SomeD: "invar t \<Longrightarrow> get k t = Some e \<Longrightarrow> e \<in> set (entries t) \<and> key e = k"
  by (simp add: get_iff)

lemma put_set: "invar t \<Longrightarrow> get (key e) t = None \<Longrightarrow> set (entries (put e t)) = insert e (set (entries t))"
  using arg_cong [of _ _ set_mset, OF conjunct2 [OF put_new]] by simp

lemma put_length: "invar t \<Longrightarrow> get (key e) t = None \<Longrightarrow> length (entries (put e t)) = Suc (length (entries t))"
  using arg_cong [of _ _ size, OF conjunct2 [OF put_new]] by simp

lemma get_put:
  assumes "invar t" and "get (key e) t = None"
  shows "get k (put e t) = (if k = key e then Some e else get k t)"
proof (rule option_ext)
  fix x
  have "\<forall>x\<in>set (entries t). key x \<noteq> key e" using get_None_iff [OF assms(1), of "key e"] assms(2)
    by (metis image_eqI)
  then show "get k (put e t) = Some x \<longleftrightarrow> (if k = key e then Some e else get k t) = Some x"
    using assms put_new [OF assms] put_set [OF assms] by (auto simp: get_iff)
qed

lemma get_del: "invar t \<Longrightarrow> get j (del k t) = (if j = k then None else get j t)"
  using del_filter [of t k] by (intro option_ext) (auto simp: get_iff)

lemma del_length:
  assumes "invar t" and "get k t = Some e"
  shows "Suc (length (entries (del k t))) = length (entries t)"
proof -
  have e: "e \<in> set (entries t)" "key e = k" using assms by (auto simp: get_iff)
  have d: "distinct (map key (entries t))"
    using entries_strict [OF assms(1)] by (rule keys_strict_distinct)
  have "filter (\<lambda>x. key x \<noteq> k) (entries t) = filter (\<lambda>x. x \<noteq> e) (entries t)"
    using e keys_strict_inj [OF entries_strict [OF assms(1)]] by (intro filter_cong) auto
  then have "filter (\<lambda>x. key x \<noteq> k) (entries t) = remove1 e (entries t)"
    using d by (simp add: distinct_remove1_removeAll removeAll_filter_not_eq distinct_map eq_commute)
  then show ?thesis using del_filter [OF assms(1)] e(1) length_pos_if_in_set [OF e(1)]
    by (simp add: length_remove1)
qed

end

section \<open>Correctness of SortedVec\<close>

lemma sv_insert_sorted: "sorted (map key xs) \<Longrightarrow> sorted (map key (sv_insert key x xs))"
  unfolding sv_insert_def Let_def by (rule bs.insert_pos_sorted)

lemma sv_insert_mset [simp]: "mset (sv_insert key x xs) = add_mset x (mset xs)"
  by (simp add: sv_insert_def Let_def)

lemma sv_insert_set [simp]: "set (sv_insert key x xs) = insert x (set xs)"
  by (simp add: sv_insert_def Let_def)

lemma sv_insert_length [simp]: "length (sv_insert key x xs) = Suc (length xs)"
  by (simp add: sv_insert_def Let_def)

lemma sv_insert_strict:
  assumes "keys_strict key xs" and "key x \<notin> key ` set xs"
  shows "keys_strict key (sv_insert key x xs)"
proof (cases "binary_search_by_key key (key x) xs")
  case (Inl e)
  then show ?thesis using bs.insert_strict [OF assms(1) Inl] by (simp add: sv_insert_def)
next
  case (Inr i)
  then show ?thesis using bs.found_iff [OF keys_strict_sorted [OF assms(1)], of "key x"] assms(2) by simp
qed

lemma sv_insert_max:
  assumes "keys_strict key xs" and "\<forall>y\<in>set xs. key y < key x"
  shows "sv_insert key x xs = xs @ [x]"
proof (cases "binary_search_by_key key (key x) xs")
  case (Inl i)
  note m = bs.missing [OF keys_strict_sorted [OF assms(1)] Inl]
  have "\<not> i < length xs"
  proof
    assume i: "i < length xs"
    then have "xs ! i \<in> set (drop i xs)" by (metis Cons_nth_drop_Suc list.set_intros(1))
    then show False using m assms(2) nth_mem [OF i] less_asym by blast
  qed
  then show ?thesis using m Inl by (simp add: sv_insert_def insert_at_def)
next
  case (Inr i)
  then show ?thesis using bs.found [OF keys_strict_sorted [OF assms(1)] Inr] assms(2)
    by (metis less_irrefl nth_mem)
qed

lemma sv_contains_iff: "sorted (map key xs) \<Longrightarrow> sv_contains key k xs \<longleftrightarrow> k \<in> key ` set xs"
  by (simp add: sv_contains_def sv_find_index_def bs.found_iff)

lemma sv_remove_mset:
  assumes "sorted (map key xs)" and "sv_remove key k xs = (ys, b)"
  shows "if b then \<exists>x. key x = k \<and> mset xs = add_mset x (mset ys) else ys = xs \<and> k \<notin> key ` set xs"
proof (cases "binary_search_by_key key k xs")
  case (Inl e)
  then show ?thesis using assms bs.found_iff [OF assms(1), of k]
    by (auto simp: sv_remove_def sv_find_index_def)
next
  case (Inr i)
  then have "i < length xs" "key (xs ! i) = k" using bs.found [OF assms(1)] by blast+
  then show ?thesis using assms(2) Inr mset_remove_at [of i xs]
    by (auto simp: sv_remove_def sv_find_index_def intro: exI [of _ "xs ! i"])
qed

lemma remove_at_sorted: "sorted (map key xs) \<Longrightarrow> sorted (map key (remove_at i xs))"
proof -
  assume srt: "sorted (map key xs)"
  have "sorted (take i (map key xs))" "sorted (drop (Suc i) (map key xs))"
    using srt by (simp_all add: sorted_wrt_take sorted_wrt_drop)
  moreover have "sorted (map key (take (Suc i) xs @ drop (Suc i) xs))" using srt by simp
  then have "\<forall>x\<in>set (take (Suc i) xs). \<forall>y\<in>set (drop (Suc i) xs). key x \<le> key y"
    by (auto simp only: map_append sorted_append set_map ball_simps)
  ultimately show ?thesis using set_take_subset_set_take [of i "Suc i" xs]
    by (auto simp: remove_at_def sorted_append take_map drop_map)
qed

lemma sv_remove_sorted: "sorted (map key xs) \<Longrightarrow> sorted (map key (fst (sv_remove key k xs)))"
  by (simp add: sv_remove_def remove_at_sorted split: sum.split)

lemma sv_merge_mset: "mset (sv_merge key xs ys) = mset xs + mset ys"
  by (induction key xs ys rule: sv_merge.induct) auto

lemma sv_merge_set: "set (sv_merge key xs ys) = set xs \<union> set ys"
  using arg_cong [of _ _ set_mset, OF sv_merge_mset [of key xs ys]] by simp

lemma sv_merge_sorted:
  "sorted (map key xs) \<Longrightarrow> sorted (map key ys) \<Longrightarrow> sorted (map key (sv_merge key xs ys))"
  by (induction key xs ys rule: sv_merge.induct) (auto simp: sv_merge_set)

section \<open>Correctness of FlatTable\<close>

abbreviation flat_invar :: "('a \<Rightarrow> 'k::linorder) \<Rightarrow> 'a list \<Rightarrow> bool" where
  "flat_invar \<equiv> keys_strict"

lemma ft_get_iff: "flat_invar key xs \<Longrightarrow> ft_get key k xs = Some e \<longleftrightarrow> e \<in> set xs \<and> key e = k"
  unfolding ft_get_def ft_find_index_def by (rule bs.lookup_strict)

lemma ft_contains_iff: "flat_invar key xs \<Longrightarrow> ft_contains key k xs \<longleftrightarrow> ft_get key k xs \<noteq> None"
  by (auto simp: ft_contains_def ft_get_def split: sum.splits)

lemma ft_insert_fresh:
  assumes "flat_invar key xs" and "ft_get key (key e) xs = None"
  shows "flat_invar key (fst (ft_insert key e xs))"
    and "mset (fst (ft_insert key e xs)) = add_mset e (mset xs)"
    and "snd (ft_insert key e xs) = None"
proof -
  from assms(2) obtain i where i: "binary_search_by_key key (key e) xs = Err i"
    by (auto simp: ft_get_def ft_find_index_def split: sum.splits)
  then show "flat_invar key (fst (ft_insert key e xs))"
    using bs.insert_strict [OF assms(1) i] by (simp add: ft_insert_def ft_find_index_def)
  show "mset (fst (ft_insert key e xs)) = add_mset e (mset xs)" "snd (ft_insert key e xs) = None"
    using i by (simp_all add: ft_insert_def ft_find_index_def)
qed

lemma ft_remove_filter:
  assumes "flat_invar key xs"
  shows "fst (ft_remove key k xs) = filter (\<lambda>e. key e \<noteq> k) xs"
    and "snd (ft_remove key k xs) = ft_get key k xs"
proof -
  show "fst (ft_remove key k xs) = filter (\<lambda>e. key e \<noteq> k) xs"
  proof (cases "binary_search_by_key key k xs")
    case (Inl e)
    then have "k \<notin> key ` set xs"
      using bs.found_iff [OF keys_strict_sorted [OF assms], of k] by simp
    then show ?thesis using Inl
      by (auto simp: ft_remove_def ft_find_index_def intro!: filter_True [symmetric])
  next
    case (Inr i)
    then show ?thesis using bs.remove_strict [OF assms Inr]
      by (simp add: ft_remove_def ft_find_index_def)
  qed
  show "snd (ft_remove key k xs) = ft_get key k xs"
    by (simp add: ft_remove_def ft_get_def split: sum.split)
qed

lemma flat_invar_filter: "flat_invar key xs \<Longrightarrow> flat_invar key (filter P xs)"
  unfolding keys_strict_def by (simp add: sorted_wrt_map sorted_wrt_filter)

lemma ft_insert_swap:
  assumes "flat_invar key xs" and "ft_get key (key e) xs = Some old"
  shows "flat_invar key (fst (ft_insert key e xs))"
    and "set (fst (ft_insert key e xs)) = insert e {x \<in> set xs. key x \<noteq> key e}"
    and "snd (ft_insert key e xs) = Some old"
proof -
  from assms(2) obtain i where i: "binary_search_by_key key (key e) xs = Ok i" "old = xs ! i"
    by (auto simp: ft_get_def ft_find_index_def split: sum.splits)
  have b: "i < length xs" "key (xs ! i) = key e"
    using bs.found [OF keys_strict_sorted [OF assms(1)] i(1)] by auto
  have "map key (xs[i := e]) = map key xs" using b by (simp add: map_update list_update_same_conv)
  then show "flat_invar key (fst (ft_insert key e xs))" using assms(1) i
    by (simp add: ft_insert_def ft_find_index_def keys_strict_def)
  have split: "xs = take i xs @ xs ! i # drop (Suc i) xs" using b(1) by (rule id_take_nth_drop)
  have "remove_at i xs = filter (\<lambda>x. key x \<noteq> key e) xs" using bs.remove_strict [OF assms(1) i(1)] .
  then have "set (take i xs) \<union> set (drop (Suc i) xs) = {x \<in> set xs. key x \<noteq> key e}"
    by (metis remove_at_def set_append set_filter)
  moreover have "set (xs[i := e]) = insert e (set (take i xs) \<union> set (drop (Suc i) xs))"
    using b(1) by (simp add: upd_conv_take_nth_drop)
  ultimately show "set (fst (ft_insert key e xs)) = insert e {x \<in> set xs. key x \<noteq> key e}"
    using i by (simp add: ft_insert_def ft_find_index_def)
  show "snd (ft_insert key e xs) = Some old" using i by (simp add: ft_insert_def ft_find_index_def)
qed

interpretation flat: keyed_table key "flat_invar key" "\<lambda>t. t" "ft_get key"
  "\<lambda>e t. fst (ft_insert key e t)" "\<lambda>k t. fst (ft_remove key k t)"
  for key :: "'a \<Rightarrow> 'k::linorder"
  by unfold_locales (simp_all add: ft_get_iff ft_insert_fresh ft_remove_filter flat_invar_filter)

lemma ft_merge_mem:
  assumes "flat_invar key as" and "flat_invar key bs"
  shows "x \<in> set (ft_merge key as bs) \<longleftrightarrow> x \<in> set bs \<or> x \<in> set as \<and> key x \<notin> key ` set bs"
  using assms
proof (induction key as bs rule: ft_merge.induct)
  case (1 key a as b bs)
  then show ?case by (force simp: keys_strict_Cons)
qed auto

lemma ft_merge_strict:
  "flat_invar key as \<Longrightarrow> flat_invar key bs \<Longrightarrow> flat_invar key (ft_merge key as bs)"
proof (induction key as bs rule: ft_merge.induct)
  case (1 key a as b bs)
  have "\<forall>y\<in>set bs. key a < key y" if "key a < key b"
    using 1(5) that by (auto simp: keys_strict_Cons intro: less_trans [OF that])
  moreover have "\<forall>y\<in>set as. key b < key y" if "key b < key a"
    using 1(4) that by (auto simp: keys_strict_Cons intro: less_trans [OF that])
  ultimately show ?case using 1 by (auto simp: keys_strict_Cons ft_merge_mem)
qed auto

lemma check_table_loop_spec:
  "check_table_loop key d xs =
     (if \<not> sorted (map key xs) then TableUnsorted
      else if d \<or> \<not> distinct (map key xs) then TableDuplicates else TableSafe)"
proof (induction key d xs rule: check_table_loop.induct)
  case (1 key d x y zs)
  then show ?case by (auto simp: less_le_not_le)
qed auto

lemma check_duplicate_keys_iff:
  "sorted (map key xs) \<Longrightarrow> check_duplicate_keys key xs \<longleftrightarrow> \<not> distinct (map key xs)"
proof (induction key xs rule: check_duplicate_keys.induct)
  case (1 key x y zs)
  then show ?case by force
qed auto

lemma ft_insert_lookup:
  assumes "flat_invar key xs"
  shows "flat_invar key (fst (ft_insert key e xs)) \<and>
    (\<lambda>k. ft_get key k (fst (ft_insert key e xs))) = (\<lambda>k. ft_get key k xs)(key e \<mapsto> e) \<and>
    snd (ft_insert key e xs) = ft_get key (key e) xs"
proof (cases "ft_get key (key e) xs")
  case None
  show ?thesis using flat.get_put [OF assms None] ft_insert_fresh [OF assms None] None by auto
next
  case (Some old)
  note new = ft_insert_swap [OF assms Some]
  have "ft_get key k (fst (ft_insert key e xs)) = (if k = key e then Some e else ft_get key k xs)" for k
    by (rule option_ext) (use assms new in \<open>auto simp: ft_get_iff\<close>)
  then show ?thesis using new Some by auto
qed

lemma ft_merge_lookup:
  assumes "flat_invar key xs" and "flat_invar key ys"
  shows "(\<lambda>k. ft_get key k (ft_merge key xs ys)) = (\<lambda>k. ft_get key k xs) ++ (\<lambda>k. ft_get key k ys)"
proof
  fix k
  have m: "flat_invar key (ft_merge key xs ys)" using assms by (rule ft_merge_strict)
  show "ft_get key k (ft_merge key xs ys) = ((\<lambda>k. ft_get key k xs) ++ (\<lambda>k. ft_get key k ys)) k"
  proof (cases "ft_get key k ys")
    case None
    then have "k \<notin> key ` set ys" using flat.get_None_iff [OF assms(2)] by simp
    then have "ft_get key k (ft_merge key xs ys) = ft_get key k xs"
      by (intro option_ext) (use assms m in \<open>auto simp: ft_get_iff ft_merge_mem\<close>)
    then show ?thesis using None by (simp add: map_add_def)
  next
    case (Some y)
    then have "ft_get key k (ft_merge key xs ys) = Some y"
      using assms m by (simp add: ft_get_iff ft_merge_mem)
    then show ?thesis using Some by simp
  qed
qed

section \<open>Properties\<close>

text \<open>C34: a \<open>FlatTable\<close> is a finite map.  On a table whose keys are strictly ascending, insert
  behaves as a map update and returns the entry it replaced, remove as a deletion that returns the
  entry it removed, and merge as the map union in which the argument wins; each of them keeps the
  keys strictly ascending, so the binary search of the next call stays correct.\<close>
theorem flat_table_refines_map:
  assumes "flat_invar key xs" and "flat_invar key ys"
  shows "flat_invar key (fst (ft_insert key e xs))
      \<and> (\<lambda>k. ft_get key k (fst (ft_insert key e xs))) = (\<lambda>k. ft_get key k xs)(key e \<mapsto> e)
      \<and> snd (ft_insert key e xs) = ft_get key (key e) xs
      \<and> flat_invar key (fst (ft_remove key j xs))
      \<and> (\<lambda>k. ft_get key k (fst (ft_remove key j xs))) = (\<lambda>k. ft_get key k xs)(j := None)
      \<and> snd (ft_remove key j xs) = ft_get key j xs
      \<and> flat_invar key (ft_merge key xs ys)
      \<and> (\<lambda>k. ft_get key k (ft_merge key xs ys)) = (\<lambda>k. ft_get key k xs) ++ (\<lambda>k. ft_get key k ys)"
  using assms flat.get_del [OF assms(1)] flat.del_filter [OF assms(1)]
  by (auto simp: ft_insert_lookup ft_merge_lookup ft_merge_strict ft_remove_filter flat_invar_filter)

theorem flat_table_refines_map_witness:
  "snd (ft_insert fst (3 :: u32, 31 :: nat) [(1, 10), (3, 30), (7, 70)]) = Some (3, 30)
    \<and> ft_get fst 3 (fst (ft_insert fst (3 :: u32, 31 :: nat) [(1, 10), (3, 30), (7, 70)])) = Some (3, 31)
    \<and> flat_invar fst (ft_merge fst [(1 :: u32, 10 :: nat), (3, 30), (7, 70)] [(3, 33), (4, 40)])"
proof -
  have a: "flat_invar fst [(1 :: u32, 10 :: nat), (3, 30), (7, 70)]"
    and b: "flat_invar fst [(3 :: u32, 33 :: nat), (4, 40)]"
    by (simp_all add: keys_strict_def)
  have "ft_get fst 3 [(1 :: u32, 10 :: nat), (3, 30), (7, 70)] = Some (3, 30)" by code_simp
  then show ?thesis
    using flat_table_refines_map [OF a b, of "(3, 31)"]
      fun_cong [of "\<lambda>k. ft_get fst k (fst (ft_insert fst (3 :: u32, 31 :: nat) [(1, 10), (3, 30), (7, 70)]))" _ 3]
    by auto
qed

text \<open>C36: a \<open>SortedVec\<close> is a sorted multiset.  Insert adds exactly one copy of its argument,
  remove takes out exactly one entry with the key or reports that there is none, contains decides
  membership, merge is the multiset union, and the entries stay in ascending key order.\<close>
theorem sorted_vec_refines_mset:
  assumes "sorted (map key xs)" and "sorted (map key ys)"
  shows "sorted (map key (sv_insert key x xs)) \<and> mset (sv_insert key x xs) = add_mset x (mset xs)
      \<and> sorted (map key (fst (sv_remove key k xs)))
      \<and> (if snd (sv_remove key k xs)
         then \<exists>y. key y = k \<and> mset xs = add_mset y (mset (fst (sv_remove key k xs)))
         else fst (sv_remove key k xs) = xs \<and> k \<notin> key ` set xs)
      \<and> (sv_contains key k xs \<longleftrightarrow> k \<in> key ` set xs)
      \<and> sorted (map key (sv_merge key xs ys)) \<and> mset (sv_merge key xs ys) = mset xs + mset ys"
  using assms sv_remove_mset [OF assms(1) prod.collapse [symmetric], of k]
  by (simp_all add: sv_insert_sorted sv_remove_sorted sv_contains_iff sv_merge_sorted sv_merge_mset)

theorem sorted_vec_refines_mset_witness:
  "sorted (map id (sv_merge id [1 :: u32, 3, 3] [2, 3])) \<and>
   mset (sv_merge id [1 :: u32, 3, 3] [2, 3]) = {#1, 3, 3#} + {#2, 3#} \<and>
   sv_contains id 3 [1 :: u32, 3, 3]"
  using sorted_vec_refines_mset [of id "[1 :: u32, 3, 3]" "[2, 3]" 0 3] by simp

text \<open>The fallible constructors accept exactly the vectors that satisfy the container's
  invariant, and name the defect otherwise: \<open>FlatTable::try_from\<close> accepts a strictly ascending
  vector, reports \<open>Unsorted\<close> before \<open>Duplicates\<close>, and \<open>try_from_unsorted\<close> accepts a
  vector whose keys are distinct, sorting it.\<close>
theorem table_constructors_decide_invariant:
  "ft_try_from key v =
     (if keys_strict key v then Ok v else if sorted (map key v) then Err Duplicates else Err Unsorted)
   \<and> ft_try_from_unsorted key v =
     (if distinct (map key v) then Ok (sort_key key v) else Err Duplicates)
   \<and> (distinct (map key v) = keys_strict key (sort_key key v))
   \<and> sv_try_from key v = (if sorted (map key v) then Ok v else Err Unsorted)"
proof -
  have "distinct (map key (sort_key key v)) \<longleftrightarrow> distinct (map key v)"
    by (metis mset_map mset_sort mset_eq_imp_distinct_iff)
  then show ?thesis
    by (auto simp: ft_try_from_def check_table_vec_def check_table_loop_spec ft_try_from_unsorted_def
        check_duplicate_keys_iff keys_strict_def strict_sorted_iff sv_try_from_def)
qed

end
