(* ===== verification/Operator_Table.thy ===== *)
theory Operator_Table
  imports Sorted_Vec Bridge_Types Bitcoin_Types
begin

text \<open>
  The operator registry of \<open>crates/subprotocols/bridge/state/src/operator.rs\<close>: the table of
  registered operators, the append-only history of N/N multisig configurations and the membership
  changes.  The MuSig2 key aggregation and the taproot output construction are library code; they
  are fields of the environment that every operation using them takes.
  An \<open>EvenPublicKey\<close> is its x-only serialisation.
\<close>

section \<open>Data\<close>

record operator_entry =
  oe_idx :: operator_idx
  oe_musig2_pk :: pubkey

type_synonym nn_script_idx = u32

record historical_nn_script =
  hs_script :: script
  hs_operators :: operator_bitmap

type_synonym nn_script_history = "historical_nn_script list"

record operator_table =
  ot_next_idx :: operator_idx
  ot_operators :: "operator_entry list"
  ot_agg_key :: pubkey
  ot_nn_scripts :: nn_script_history

section \<open>History of N/N configurations\<close>

definition build_nn_script :: "'e key_env_scheme \<Rightarrow> pubkey \<Rightarrow> script" where
  "build_nn_script env agg_key = new_p2tr env agg_key"

definition nnh_push :: "historical_nn_script \<Rightarrow> nn_script_history \<Rightarrow> nn_script_history \<times> nn_script_idx" where
  "nnh_push entry h = (h @ [entry], of_nat (length (h @ [entry]) - 1))"

definition nnh_get :: "nn_script_history \<Rightarrow> nn_script_idx \<Rightarrow> historical_nn_script option" where
  "nnh_get h idx = slice_get h (unat idx)"

definition nnh_current_index :: "nn_script_history \<Rightarrow> nn_script_idx option" where
  "nnh_current_index h = (if h = [] then None else Some (of_nat (length h - 1)))"

definition nnh_current :: "nn_script_history \<Rightarrow> historical_nn_script option" where
  "nnh_current h = (if h = [] then None else Some (last h))"

section \<open>Queries\<close>

definition ot_nn_script :: "operator_table \<Rightarrow> nn_script_idx \<Rightarrow> historical_nn_script option" where
  "ot_nn_script t idx = nnh_get (ot_nn_scripts t) idx"

definition current_nn_script_index :: "operator_table \<Rightarrow> nn_script_idx option" where
  "current_nn_script_index t = nnh_current_index (ot_nn_scripts t)"

definition current_nn_script :: "operator_table \<Rightarrow> historical_nn_script option" where
  "current_nn_script t = nnh_current (ot_nn_scripts t)"

definition get_operator :: "operator_table \<Rightarrow> operator_idx \<Rightarrow> operator_entry option" where
  "get_operator t idx =
     (case binary_search_by_key oe_idx idx (ot_operators t) of
        Ok i \<Rightarrow> Some (ot_operators t ! i)
      | Err _ \<Rightarrow> None)"

definition current_multisig :: "operator_table \<Rightarrow> operator_bitmap option" where
  "current_multisig t = map_option hs_operators (current_nn_script t)"

definition is_in_current_multisig :: "operator_table \<Rightarrow> operator_idx \<Rightarrow> bool option" where
  "is_in_current_multisig t idx = map_option (\<lambda>b. bm_is_active b idx) (current_multisig t)"

section \<open>Membership changes\<close>

fun add_operators ::
  "pubkey list \<Rightarrow> operator_table \<Rightarrow> operator_bitmap \<Rightarrow> (operator_table \<times> operator_bitmap) option" where
  "add_operators [] t active = Some (t, active)"
| "add_operators (musig2_pk # rest) t active =
     (if \<exists>op \<in> set (ot_operators t). oe_musig2_pk op = musig2_pk then add_operators rest t active
      else if ot_next_idx t = no_selection_sentinel then None
      else
        let idx = ot_next_idx t;
            entry = \<lparr>oe_idx = idx, oe_musig2_pk = musig2_pk\<rparr>;
            ops = sv_insert oe_idx entry (ot_operators t)
        in case bm_try_set active idx True of
             Err _ \<Rightarrow> None
           | Ok active' \<Rightarrow> add_operators rest (t\<lparr>ot_operators := ops, ot_next_idx := idx + 1\<rparr>) active')"

fun remove_operators :: "operator_table \<Rightarrow> operator_idx list \<Rightarrow> operator_bitmap \<Rightarrow> operator_bitmap option" where
  "remove_operators t [] active = Some active"
| "remove_operators t (idx # rest) active =
     (if is_ok (binary_search_by_key oe_idx idx (ot_operators t)) then
        if unat idx < length active then
          (case bm_try_set active idx False of
             Err _ \<Rightarrow> None
           | Ok active' \<Rightarrow> remove_operators t rest active')
        else remove_operators t rest active
      else remove_operators t rest active)"

definition active_keys :: "operator_table \<Rightarrow> operator_bitmap \<Rightarrow> pubkey list" where
  "active_keys t active =
     List.map_filter (\<lambda>op. map_option oe_musig2_pk (get_operator t op)) (bm_active_indices active)"

definition calculate_aggregated_key ::
  "'e key_env_scheme \<Rightarrow> operator_table \<Rightarrow> operator_bitmap \<Rightarrow> pubkey option" where
  "calculate_aggregated_key env t active =
     (let keys = active_keys t active
      in if keys = [] then None else aggregate_schnorr_keys env keys)"

definition record_nn_script ::
  "'e key_env_scheme \<Rightarrow> operator_table \<Rightarrow> operator_bitmap \<Rightarrow> operator_table option" where
  "record_nn_script env t active =
     (case calculate_aggregated_key env t active of
        None \<Rightarrow> None
      | Some k \<Rightarrow> Some (t\<lparr>ot_agg_key := k,
          ot_nn_scripts := fst (nnh_push \<lparr>hs_script = build_nn_script env k, hs_operators = active\<rparr>
                                 (ot_nn_scripts t))\<rparr>))"

definition initial_active :: "operator_table \<Rightarrow> operator_bitmap" where
  "initial_active t =
     (if ot_nn_scripts t = [] then bm_new_empty else hs_operators (last (ot_nn_scripts t)))"

definition apply_membership_changes ::
  "'e key_env_scheme \<Rightarrow> pubkey list \<Rightarrow> operator_idx list \<Rightarrow> operator_table \<Rightarrow> operator_table option" where
  "apply_membership_changes env add_members remove_members t =
     do {
       (t', active) \<leftarrow> add_operators add_members t (initial_active t);
       active' \<leftarrow> remove_operators t' remove_members active;
       if active' \<noteq> initial_active t then record_nn_script env t' active' else Some t'
     }"

definition placeholder_agg_key :: pubkey where
  "placeholder_agg_key = replicate 32 1"

definition from_operator_list :: "'e key_env_scheme \<Rightarrow> pubkey list \<Rightarrow> operator_table option" where
  "from_operator_list env operators =
     (if operators = [] then None
      else apply_membership_changes env operators []
        \<lparr>ot_next_idx = 0, ot_operators = sv_new_empty, ot_agg_key = placeholder_agg_key,
         ot_nn_scripts = []\<rparr>)"

section \<open>Invariant\<close>

definition registry_inv :: "operator_table \<Rightarrow> bool" where
  "registry_inv t \<longleftrightarrow>
     map oe_idx (ot_operators t) = map of_nat [0..<unat (ot_next_idx t)]
     \<and> distinct (map oe_musig2_pk (ot_operators t))"

definition config_ok :: "'e key_env_scheme \<Rightarrow> operator_table \<Rightarrow> historical_nn_script \<Rightarrow> bool" where
  "config_ok env t h \<longleftrightarrow>
     length (hs_operators h) \<le> unat (ot_next_idx t)
     \<and> active_keys t (hs_operators h) \<noteq> []
     \<and> map_option (build_nn_script env) (aggregate_schnorr_keys env (active_keys t (hs_operators h)))
         = Some (hs_script h)"

definition operator_table_inv :: "'e key_env_scheme \<Rightarrow> operator_table \<Rightarrow> bool" where
  "operator_table_inv env t \<longleftrightarrow>
     registry_inv t
     \<and> (\<forall>h \<in> set (ot_nn_scripts t). config_ok env t h)
     \<and> sorted (map (length \<circ> hs_operators) (ot_nn_scripts t))
     \<and> length (initial_active t) = unat (ot_next_idx t)
     \<and> (ot_nn_scripts t \<noteq> [] \<longrightarrow>
          aggregate_schnorr_keys env (active_keys t (initial_active t)) = Some (ot_agg_key t))"

section \<open>Lookup under the invariant\<close>

lemma strict_of_nat_upt: "n \<le> 2 ^ 32 \<Longrightarrow> sorted_wrt (<) (map (of_nat :: nat \<Rightarrow> u32) [0..<n])"
  unfolding sorted_wrt_map
  by (rule sorted_wrt_mono_rel [OF _ sorted_wrt_upt]) (auto simp: word_less_nat_alt unat_of_nat_u32)

lemma registry_strict: "registry_inv t \<Longrightarrow> keys_strict oe_idx (ot_operators t)"
  unfolding registry_inv_def keys_strict_def
  using strict_of_nat_upt unat_u32_lt [of "ot_next_idx t"] by (simp add: less_imp_le)

lemma registry_length: "registry_inv t \<Longrightarrow> length (ot_operators t) = unat (ot_next_idx t)"
  unfolding registry_inv_def by (metis diff_zero length_map length_upt)

lemma registry_nth_idx:
  "registry_inv t \<Longrightarrow> n < unat (ot_next_idx t) \<Longrightarrow> oe_idx (ot_operators t ! n) = of_nat n"
  using registry_length [of t] unfolding registry_inv_def
  by (metis add_0 diff_zero length_map nth_map nth_upt)

lemma get_operator_registry:
  assumes "registry_inv t"
  shows "get_operator t i = (if i < ot_next_idx t then Some (ot_operators t ! unat i) else None)"
proof (rule option_ext)
  fix e
  have iff: "get_operator t i = Some e \<longleftrightarrow> e \<in> set (ot_operators t) \<and> oe_idx e = i"
    unfolding get_operator_def by (rule bs.lookup_strict [OF registry_strict [OF assms]])
  have "e \<in> set (ot_operators t) \<and> oe_idx e = i \<longleftrightarrow> i < ot_next_idx t \<and> e = ot_operators t ! unat i"
  proof
    assume e: "e \<in> set (ot_operators t) \<and> oe_idx e = i"
    then obtain n where n: "n < unat (ot_next_idx t)" "e = ot_operators t ! n"
      using registry_length [OF assms] by (metis in_set_conv_nth)
    then have "i = of_nat n" using e registry_nth_idx [OF assms] by simp
    moreover have "n < 2 ^ 32" using n(1) unat_u32_lt [of "ot_next_idx t"] by simp
    ultimately have "unat i = n" by (simp add: unat_of_nat_u32)
    then show "i < ot_next_idx t \<and> e = ot_operators t ! unat i" using n by (simp add: word_less_nat_alt)
  next
    assume "i < ot_next_idx t \<and> e = ot_operators t ! unat i"
    then show "e \<in> set (ot_operators t) \<and> oe_idx e = i"
      using registry_nth_idx [OF assms, of "unat i"] registry_length [OF assms]
      by (simp add: word_less_nat_alt)
  qed
  then show "get_operator t i = Some e \<longleftrightarrow>
      (if i < ot_next_idx t then Some (ot_operators t ! unat i) else None) = Some e"
    using iff by auto
qed

lemma known_operator_iff:
  "registry_inv t \<Longrightarrow> is_ok (binary_search_by_key oe_idx i (ot_operators t)) \<longleftrightarrow> i < ot_next_idx t"
  using get_operator_registry [of t i] by (auto simp: get_operator_def split: sum.splits if_splits)

lemma map_filter_cong_set:
  "(\<And>x. x \<in> set xs \<Longrightarrow> f x = g x) \<Longrightarrow> List.map_filter f xs = List.map_filter g xs"
  by (induction xs) (auto split: option.split)

lemma active_keys_stable:
  assumes "registry_inv t" and "registry_inv t'" and "ot_operators t' = ot_operators t @ extra"
    and "length b \<le> unat (ot_next_idx t)"
  shows "active_keys t' b = active_keys t b"
  unfolding active_keys_def
proof (rule map_filter_cong_set)
  fix i assume "i \<in> set (bm_active_indices b)"
  then have "unat i < unat (ot_next_idx t)"
    using assms(4) bm_active_indices_set [of b] unat_u32_lt [of "ot_next_idx t"]
    by (force dest: bm_is_active_lt)
  moreover have "unat (ot_next_idx t) \<le> unat (ot_next_idx t')"
    using registry_length [OF assms(1)] registry_length [OF assms(2)] assms(3) by simp
  ultimately have "get_operator t' i = get_operator t i"
    using assms registry_length [OF assms(1)]
    by (simp add: get_operator_registry word_less_nat_alt nth_append)
  then show "map_option oe_musig2_pk (get_operator t' i) = map_option oe_musig2_pk (get_operator t i)"
    by simp
qed

lemma active_keys_nonempty:
  assumes "registry_inv t" and "length b \<le> unat (ot_next_idx t)"
  shows "active_keys t b \<noteq> [] \<longleftrightarrow> (\<exists>i. bm_is_active b i)"
proof -
  have s: "set (bm_active_indices b) = {i. bm_is_active b i}"
    using assms(2) unat_u32_lt [of "ot_next_idx t"] by (intro bm_active_indices_set) simp
  have "get_operator t i \<noteq> None" if "bm_is_active b i" for i
    using bm_is_active_lt [OF that] assms by (simp add: get_operator_registry word_less_nat_alt)
  note known = this
  show ?thesis
  proof (cases "bm_active_indices b")
    case Nil
    then show ?thesis using s by (auto simp: active_keys_def)
  next
    case (Cons a l)
    then have "bm_is_active b a" using s by auto
    then show ?thesis using known [of a] Cons by (auto simp: active_keys_def)
  qed
qed

section \<open>Membership changes under the invariant\<close>

lemma add_operators_spec:
  assumes "registry_inv t" and "length active = unat (ot_next_idx t)"
    and "add_operators pks t active = Some (t', active')"
  shows "registry_inv t' \<and> (\<exists>extra. ot_operators t' = ot_operators t @ extra)
    \<and> oe_musig2_pk ` set (ot_operators t') = oe_musig2_pk ` set (ot_operators t) \<union> set pks
    \<and> unat (ot_next_idx t) \<le> unat (ot_next_idx t')
    \<and> active' = active @ replicate (unat (ot_next_idx t') - unat (ot_next_idx t)) True
    \<and> ot_agg_key t' = ot_agg_key t \<and> ot_nn_scripts t' = ot_nn_scripts t"
  using assms
proof (induction pks t active rule: add_operators.induct)
  case (2 pk rest t active)
  show ?case
  proof (cases "\<exists>op \<in> set (ot_operators t). oe_musig2_pk op = pk")
    case True
    then show ?thesis using 2(1) [OF True 2(3,4)] 2(5) by auto
  next
    case False
    define e where "e = \<lparr>oe_idx = ot_next_idx t, oe_musig2_pk = pk\<rparr>"
    have srt: "keys_strict oe_idx (ot_operators t)" using 2(3) by (rule registry_strict)
    have len: "length (ot_operators t) = unat (ot_next_idx t)" using 2(3) by (rule registry_length)
    have "oe_idx y < ot_next_idx t" if "y \<in> set (ot_operators t)" for y
      using bs.lookup_strict [OF srt, of "oe_idx y" y] get_operator_registry [OF 2(3), of "oe_idx y"] that
      by (auto simp: get_operator_def split: if_splits)
    then have ins: "sv_insert oe_idx e (ot_operators t) = ot_operators t @ [e]"
      by (intro sv_insert_max [OF srt]) (simp add: e_def)
    have set_b: "bm_try_set active (ot_next_idx t) True = Ok (active @ [True])"
      using 2(4) by (simp add: bm_try_set_def list_update_append)
    define n where "n = ot_next_idx t + 1"
    have ne: "ot_next_idx t \<noteq> no_selection_sentinel" using 2(5) False by auto
    have n: "add_operators rest (t\<lparr>ot_operators := ot_operators t @ [e], ot_next_idx := n\<rparr>) (active @ [True])
        = Some (t', active')"
      using 2(5) False set_b ins ne by (auto simp: Let_def e_def n_def)
    have un: "unat n = Suc (unat (ot_next_idx t))"
      using ne by (simp add: n_def unat_add_one_u32 no_selection_sentinel_def)
    define t1 where "t1 = t\<lparr>ot_operators := ot_operators t @ [e], ot_next_idx := n\<rparr>"
    have "registry_inv t1" using 2(3) False un
      by (auto simp: registry_inv_def t1_def e_def)
    moreover have "length (active @ [True]) = unat (ot_next_idx t1)" using 2(4) un by (simp add: t1_def)
    ultimately have IH: "registry_inv t' \<and> (\<exists>extra. ot_operators t' = ot_operators t1 @ extra)
      \<and> oe_musig2_pk ` set (ot_operators t') = oe_musig2_pk ` set (ot_operators t1) \<union> set rest
      \<and> unat (ot_next_idx t1) \<le> unat (ot_next_idx t')
      \<and> active' = (active @ [True]) @ replicate (unat (ot_next_idx t') - unat (ot_next_idx t1)) True
      \<and> ot_agg_key t' = ot_agg_key t1 \<and> ot_nn_scripts t' = ot_nn_scripts t1"
      using 2(2) [OF False ne refl refl refl set_b] n ins by (auto simp: t1_def e_def n_def)
    have "replicate (unat (ot_next_idx t') - unat (ot_next_idx t)) True
        = True # replicate (unat (ot_next_idx t') - unat n) True"
      using IH un by (auto simp: t1_def Suc_diff_le simp flip: replicate_Suc)
    then show ?thesis using IH un by (auto simp: t1_def e_def)
  qed
qed simp

lemma remove_operators_spec:
  assumes "registry_inv t" and "length active = unat (ot_next_idx t)"
  shows "\<exists>active'. remove_operators t rem active = Some active' \<and> length active' = length active
    \<and> (\<forall>i. bm_is_active active' i \<longleftrightarrow> bm_is_active active i \<and> i \<notin> set rem)"
  using assms
proof (induction t rem active rule: remove_operators.induct)
  case (2 t idx rest active)
  show ?case
  proof (cases "unat idx < length active")
    case True
    define b where "b = active[unat idx := False]"
    have b: "bm_try_set active idx False = Ok b" using True by (simp add: bm_try_set_inside b_def)
    have known: "is_ok (binary_search_by_key oe_idx idx (ot_operators t))"
      using True 2(5) by (simp add: known_operator_iff [OF 2(4)] word_less_nat_alt)
    have "length b = unat (ot_next_idx t)" using 2(5) by (simp add: b_def)
    then obtain a' where a': "remove_operators t rest b = Some a'" "length a' = length b"
      "\<forall>i. bm_is_active a' i \<longleftrightarrow> bm_is_active b i \<and> i \<notin> set rest"
      using 2(1) [OF known True b 2(4)] by auto
    have "length b = length active" by (simp add: b_def)
    then show ?thesis using a' known True b bm_try_set_ok(3) [OF b] by auto
  next
    case False
    then have nk: "\<not> is_ok (binary_search_by_key oe_idx idx (ot_operators t))"
      using 2(5) by (simp add: known_operator_iff [OF 2(4)] word_less_nat_alt)
    then show ?thesis using 2(3) [OF nk 2(4,5)] False by (auto dest: bm_is_active_lt)
  qed
qed simp

lemma config_ok_stable:
  assumes "registry_inv t" and "registry_inv t'" and "ot_operators t' = ot_operators t @ extra"
    and "config_ok env t h"
  shows "config_ok env t' h"
proof -
  have "unat (ot_next_idx t) \<le> unat (ot_next_idx t')"
    using registry_length [OF assms(1)] registry_length [OF assms(2)] assms(3) by simp
  moreover have "active_keys t' (hs_operators h) = active_keys t (hs_operators h)"
    using assms by (intro active_keys_stable [of t t' extra]) (simp_all add: config_ok_def)
  ultimately show ?thesis using assms(4) by (simp add: config_ok_def)
qed

lemma record_nn_script_SomeD:
  assumes "record_nn_script env t active = Some t'"
  obtains k where "active_keys t active \<noteq> []" "aggregate_schnorr_keys env (active_keys t active) = Some k"
    "t' = t\<lparr>ot_agg_key := k, ot_nn_scripts :=
            ot_nn_scripts t @ [\<lparr>hs_script = build_nn_script env k, hs_operators = active\<rparr>]\<rparr>"
  using assms
  by (auto simp: record_nn_script_def calculate_aggregated_key_def nnh_push_def Let_def
      split: option.splits if_splits)

lemma registry_fields [simp]:
  "registry_inv (t\<lparr>ot_agg_key := k, ot_nn_scripts := h\<rparr>) \<longleftrightarrow> registry_inv t"
  "active_keys (t\<lparr>ot_agg_key := k, ot_nn_scripts := h\<rparr>) b = active_keys t b"
  by (simp_all add: registry_inv_def active_keys_def get_operator_def cong: sum.case_cong)

lemma initial_active_snoc [simp]: "ot_nn_scripts t = hs @ [h] \<Longrightarrow> initial_active t = hs_operators h"
  by (simp add: initial_active_def)

lemma apply_membership_changes_spec:
  assumes inv: "operator_table_inv env t"
    and app: "apply_membership_changes env add rem t = Some t'"
  shows "operator_table_inv env t'
    \<and> (\<exists>recorded. ot_nn_scripts t' = ot_nn_scripts t @ recorded \<and> length recorded \<le> 1)
    \<and> (\<exists>extra. ot_operators t' = ot_operators t @ extra)
    \<and> oe_musig2_pk ` set (ot_operators t') = oe_musig2_pk ` set (ot_operators t) \<union> set add
    \<and> (\<forall>i. bm_is_active (initial_active t') i \<longleftrightarrow>
         (bm_is_active (initial_active t) i \<or> ot_next_idx t \<le> i \<and> i < ot_next_idx t') \<and> i \<notin> set rem)"
proof -
  have reg: "registry_inv t" and len: "length (initial_active t) = unat (ot_next_idx t)"
    using inv by (auto simp: operator_table_inv_def)
  obtain t1 a1 where add: "add_operators add t (initial_active t) = Some (t1, a1)"
    using app by (auto simp: apply_membership_changes_def split: bind_splits)
  note A = add_operators_spec [OF reg len add]
  then have reg1: "registry_inv t1" and len1: "length a1 = unat (ot_next_idx t1)" using len by auto
  obtain extra where extra: "ot_operators t1 = ot_operators t @ extra" using A by blast
  obtain a2 where a2: "remove_operators t1 rem a1 = Some a2" "length a2 = length a1"
    "\<forall>i. bm_is_active a2 i \<longleftrightarrow> bm_is_active a1 i \<and> i \<notin> set rem"
    using remove_operators_spec [OF reg1 len1] by blast
  have act1: "bm_is_active a1 i \<longleftrightarrow> bm_is_active (initial_active t) i \<or> ot_next_idx t \<le> i \<and> i < ot_next_idx t1" for i
    using A len by (auto simp: bm_is_active_iff nth_append word_le_nat_alt word_less_nat_alt)
  have res: "(if a2 \<noteq> initial_active t then record_nn_script env t1 a2 else Some t1) = Some t'"
    using app add a2(1) by (simp add: apply_membership_changes_def)
  have ok1: "\<forall>h \<in> set (ot_nn_scripts t). config_ok env t1 h"
    using inv config_ok_stable [OF reg reg1 extra] by (auto simp: operator_table_inv_def)
  show ?thesis
  proof (cases "a2 = initial_active t")
    case True
    then have "t1 = t'" using res by simp
    moreover have "initial_active t1 = initial_active t" using A by (simp add: initial_active_def)
    moreover have "ot_next_idx t1 = ot_next_idx t" using True a2(2) len1 len by (simp add: word_unat_eq_iff)
    moreover have "active_keys t1 (initial_active t) = active_keys t (initial_active t)"
      using len by (intro active_keys_stable [OF reg reg1 extra]) simp
    ultimately show ?thesis using inv A ok1 a2(3) True reg1 by (auto simp: operator_table_inv_def)
  next
    case False
    then obtain k where k: "active_keys t1 a2 \<noteq> []"
      "aggregate_schnorr_keys env (active_keys t1 a2) = Some k"
      "t' = t1\<lparr>ot_agg_key := k, ot_nn_scripts :=
         ot_nn_scripts t1 @ [\<lparr>hs_script = build_nn_script env k, hs_operators = a2\<rparr>]\<rparr>"
      using res by (auto elim!: record_nn_script_SomeD)
    have init: "initial_active t' = a2" using k(3) by (simp add: initial_active_def)
    have "length (hs_operators h) \<le> length a2" if "h \<in> set (ot_nn_scripts t)" for h
      using ok1 that len1 a2(2) by (auto simp: config_ok_def)
    then have "sorted (map (length \<circ> hs_operators) (ot_nn_scripts t'))"
      using inv A k(3) by (auto simp: operator_table_inv_def sorted_append)
    then have "operator_table_inv env t'"
      using A ok1 k a2(2) len1 init reg1 by (auto simp: operator_table_inv_def config_ok_def)
    then show ?thesis using A k(3) a2(3) init act1 by auto
  qed
qed

lemma empty_table_inv:
  "operator_table_inv env \<lparr>ot_next_idx = 0, ot_operators = [], ot_agg_key = k, ot_nn_scripts = []\<rparr>"
  by (simp add: operator_table_inv_def registry_inv_def initial_active_def bm_new_empty_def)

lemma removal_only:
  assumes inv: "operator_table_inv env t"
    and agg: "\<And>ks. ks \<noteq> [] \<Longrightarrow> aggregate_schnorr_keys env ks \<noteq> None"
    and cfg: "ot_nn_scripts t \<noteq> []"
  shows "apply_membership_changes env [] rem t = None \<longleftrightarrow> {i. bm_is_active (initial_active t) i} \<subseteq> set rem"
proof -
  have reg: "registry_inv t" and len: "length (initial_active t) = unat (ot_next_idx t)"
    using inv by (auto simp: operator_table_inv_def)
  obtain a2 where a2: "remove_operators t rem (initial_active t) = Some a2" "length a2 = length (initial_active t)"
    "\<forall>i. bm_is_active a2 i \<longleftrightarrow> bm_is_active (initial_active t) i \<and> i \<notin> set rem"
    using remove_operators_spec [OF reg len] by blast
  have "active_keys t (initial_active t) \<noteq> []"
    using inv cfg by (auto simp: operator_table_inv_def config_ok_def initial_active_def)
  then have was: "\<exists>i. bm_is_active (initial_active t) i"
    using active_keys_nonempty [OF reg] len by simp
  have now: "active_keys t a2 \<noteq> [] \<longleftrightarrow> (\<exists>i. bm_is_active a2 i)"
    using active_keys_nonempty [OF reg] len a2(2) by simp
  have "apply_membership_changes env [] rem t =
      (if a2 \<noteq> initial_active t then record_nn_script env t a2 else Some t)"
    using a2(1) by (simp add: apply_membership_changes_def)
  then show ?thesis
    using a2(3) was now agg [of "active_keys t a2"]
    by (auto simp: record_nn_script_def calculate_aggregated_key_def Let_def split: option.splits if_splits)
qed

section \<open>Properties\<close>

definition sample_env :: key_env where
  "sample_env = \<lparr>aggregate_schnorr_keys = (\<lambda>ks. if ks = [] then None else Some (concat ks)),
                 new_p2tr = (\<lambda>k. 81 # 32 # k)\<rparr>"

definition sample_table :: operator_table where
  "sample_table = \<lparr>ot_next_idx = 2,
     ot_operators = [\<lparr>oe_idx = 0, oe_musig2_pk = [10]\<rparr>, \<lparr>oe_idx = 1, oe_musig2_pk = [11]\<rparr>],
     ot_agg_key = [10, 11],
     ot_nn_scripts = [\<lparr>hs_script = [81, 32, 10, 11], hs_operators = [True, True]\<rparr>]\<rparr>"

text \<open>C28: a membership change keeps the operator table consistent.  Indices stay 0, 1, 2, ... in
  order and are never reused, public keys stay unique, every recorded configuration keeps a
  non-empty signer set whose aggregated key is the one its script locks to, bitmap lengths never
  shrink, and the table's aggregated key is the one of the latest configuration.  Registered
  operators and recorded configurations are only ever appended to (at most one configuration per
  change), and the active set becomes the old one plus the newly registered operators minus the
  removed ones.\<close>
theorem membership_change_keeps_table:
  assumes "operator_table_inv env t" and "apply_membership_changes env add_members remove_members t = Some t'"
  shows "operator_table_inv env t'
    \<and> (\<exists>recorded. ot_nn_scripts t' = ot_nn_scripts t @ recorded \<and> length recorded \<le> 1)
    \<and> (\<exists>extra. ot_operators t' = ot_operators t @ extra)
    \<and> oe_musig2_pk ` set (ot_operators t') = oe_musig2_pk ` set (ot_operators t) \<union> set add_members
    \<and> (\<forall>i. bm_is_active (initial_active t') i \<longleftrightarrow>
         (bm_is_active (initial_active t) i \<or> ot_next_idx t \<le> i \<and> i < ot_next_idx t')
         \<and> i \<notin> set remove_members)"
  using assms by (rule apply_membership_changes_spec)

theorem membership_change_keeps_table_witness:
  "\<exists>t'. apply_membership_changes sample_env [[12], [11]] [0] sample_table = Some t'
    \<and> operator_table_inv sample_env t' \<and> \<not> bm_is_active (initial_active t') 0 \<and> bm_is_active (initial_active t') 2"
proof -
  have inv: "operator_table_inv sample_env sample_table" by code_simp
  have "apply_membership_changes sample_env [[12], [11]] [0] sample_table \<noteq> None" by code_simp
  then obtain t' where t': "apply_membership_changes sample_env [[12], [11]] [0] sample_table = Some t'"
    by blast
  have "map_option ot_next_idx (apply_membership_changes sample_env [[12], [11]] [0] sample_table) = Some 3"
    by code_simp
  then have n: "ot_next_idx t' = 3" using t' by simp
  have o: "ot_next_idx sample_table = 2" by (simp add: sample_table_def)
  show ?thesis using membership_change_keeps_table [OF inv t'] t' n o by auto
qed

text \<open>Bootstrapping the table from a non-empty key list yields a consistent table with exactly
  the distinct given keys registered and all of them active, in one initial configuration.\<close>
theorem from_operator_list_establishes_invariant:
  assumes "from_operator_list env operators = Some t"
  shows "operators \<noteq> [] \<and> operator_table_inv env t
    \<and> oe_musig2_pk ` set (ot_operators t) = set operators
    \<and> length (ot_nn_scripts t) = 1
    \<and> (\<forall>i. bm_is_active (initial_active t) i \<longleftrightarrow> i < ot_next_idx t)"
proof -
  let ?t0 = "\<lparr>ot_next_idx = 0, ot_operators = [], ot_agg_key = placeholder_agg_key, ot_nn_scripts = []\<rparr>"
  have ne: "operators \<noteq> []" and app: "apply_membership_changes env operators [] ?t0 = Some t"
    using assms by (auto simp: from_operator_list_def sv_new_empty_def split: if_splits)
  note S = apply_membership_changes_spec [OF empty_table_inv app]
  have reg: "registry_inv t" and len: "length (initial_active t) = unat (ot_next_idx t)"
    using S by (auto simp: operator_table_inv_def)
  have "ot_operators t \<noteq> []" using S ne by auto
  then have "0 < unat (ot_next_idx t)" using registry_length [OF reg] by (metis length_greater_0_conv)
  then have "ot_nn_scripts t \<noteq> []" using len by (auto simp: initial_active_def bm_new_empty_def)
  then have "length (ot_nn_scripts t) = 1" using S by (auto simp: le_Suc_eq)
  then show ?thesis using S ne by (auto simp: initial_active_def bm_new_empty_def bm_is_active_iff)
qed

theorem from_operator_list_establishes_invariant_witness:
  "\<exists>t. from_operator_list sample_env [[7], [8], [7]] = Some t
     \<and> operator_table_inv sample_env t \<and> oe_musig2_pk ` set (ot_operators t) = {[7], [8]}"
proof -
  have "from_operator_list sample_env [[7], [8], [7]] \<noteq> None" by code_simp
  then obtain t where "from_operator_list sample_env [[7], [8], [7]] = Some t" by blast
  then show ?thesis using from_operator_list_establishes_invariant [of sample_env "[[7], [8], [7]]" t] by auto
qed

text \<open>Removing operators halts the state machine exactly when it would leave the N/N multisig
  without a member.  Given a key aggregation that succeeds on every non-empty key list, a removal
  panics if and only if every currently active operator is among the removed indices.\<close>
theorem removal_panics_iff_multisig_emptied:
  assumes "operator_table_inv env t" and "ot_nn_scripts t \<noteq> []"
    and "\<And>ks. ks \<noteq> [] \<Longrightarrow> aggregate_schnorr_keys env ks \<noteq> None"
  shows "apply_membership_changes env [] remove_members t = None
    \<longleftrightarrow> {i. bm_is_active (initial_active t) i} \<subseteq> set remove_members"
  using assms by (intro removal_only) auto

theorem removal_panics_iff_multisig_emptied_witness:
  "apply_membership_changes sample_env [] [1, 0] sample_table = None
   \<and> apply_membership_changes sample_env [] [1] sample_table \<noteq> None"
proof -
  have inv: "operator_table_inv sample_env sample_table" by code_simp
  have act: "{i. bm_is_active (initial_active sample_table) i} = {0, 1}"
  proof -
    have "set (bm_active_indices (initial_active sample_table)) = {0, 1}"
      by (simp add: sample_table_def initial_active_def bm_active_indices_def upt_rec numeral_2_eq_2)
    then show ?thesis
      using bm_active_indices_set [of "initial_active sample_table"]
      by (simp add: sample_table_def initial_active_def)
  qed
  show ?thesis
    using removal_panics_iff_multisig_emptied [OF inv, of "[1, 0]"]
      removal_panics_iff_multisig_emptied [OF inv, of "[1]"] act
    by (simp add: sample_env_def sample_table_def)
qed

end
