(* ===== verification/Deposit_Table.thy ===== *)
theory Deposit_Table
  imports Operator_Table Bridge_Txs
begin

text \<open>
  The table of unassigned deposits, \<open>crates/subprotocols/bridge/state/src/deposit.rs\<close>, and the
  errors of deposit validation and withdrawal assignment
  (\<open>crates/subprotocols/bridge/state/src/errors.rs\<close>).  The table is a \<open>SortedVec\<close> ordered by
  the deposit index; it provides the interface \<open>keyed_table\<close>.
\<close>

record deposit_entry =
  de_deposit_idx :: u32
  de_notary_set :: nn_script_idx
  de_amt :: u64

type_synonym deposits_table = "deposit_entry list"

datatype deposit_output_error = InvalidOperatorKey | DepositWrongOutputLock | MissingDepositOutput nat

datatype deposit_validation_error =
    WrongOutputLock script script
  | DepositOutput deposit_output_error
  | MismatchDepositAmount u64 u64
  | DepositIdxAlreadyExists u32
  | DepositIdxAssigned u32
  | DrtOutputScriptMismatch script script
  | DrtParseError tx_structure_error

datatype withdrawal_assignment_error =
    NoUnassignedDeposits
  | DepositWithdrawalAmountMismatch u64 u64
  | NoEligibleOperators u32
  | BitmapError operator_bitmap_error

definition dt_new_empty :: deposits_table where
  "dt_new_empty = sv_new_empty"

definition get_deposit :: "u32 \<Rightarrow> deposits_table \<Rightarrow> deposit_entry option" where
  "get_deposit deposit_idx t =
     (case binary_search_by_key de_deposit_idx deposit_idx t of
        Ok pos \<Rightarrow> Some (t ! pos)
      | Err _ \<Rightarrow> None)"

definition insert_deposit ::
  "deposit_entry \<Rightarrow> deposits_table \<Rightarrow> (deposit_validation_error, deposits_table) result" where
  "insert_deposit entry t =
     (case get_deposit (de_deposit_idx entry) t of
        Some _ \<Rightarrow> Err (DepositIdxAlreadyExists (de_deposit_idx entry))
      | None \<Rightarrow> Ok (sv_insert de_deposit_idx entry t))"

definition oldest_deposit :: "deposits_table \<Rightarrow> deposit_entry option" where
  "oldest_deposit t = slice_get t 0"

definition remove_deposit :: "u32 \<Rightarrow> deposits_table \<Rightarrow> deposits_table \<times> deposit_entry option" where
  "remove_deposit deposit_idx t =
     (case get_deposit deposit_idx t of
        None \<Rightarrow> (t, None)
      | Some entry \<Rightarrow> (fst (sv_remove de_deposit_idx (de_deposit_idx entry) t), Some entry))"

definition deposits_from_ssz :: "deposit_entry list \<Rightarrow> (string, deposits_table) result" where
  "deposits_from_ssz payload =
     map_err (\<lambda>_. ''deposits table entries must stay sorted'') (sv_try_from de_deposit_idx payload)"

abbreviation deposits_inv :: "deposits_table \<Rightarrow> bool" where
  "deposits_inv \<equiv> keys_strict de_deposit_idx"

section \<open>The table provides the keyed-table interface\<close>

lemma get_deposit_iff:
  "deposits_inv t \<Longrightarrow> get_deposit k t = Some e \<longleftrightarrow> e \<in> set t \<and> de_deposit_idx e = k"
  unfolding get_deposit_def by (rule bs.lookup_strict)

lemma insert_deposit_fresh:
  assumes "deposits_inv t" and "get_deposit (de_deposit_idx e) t = None"
  shows "insert_deposit e t = Ok (sv_insert de_deposit_idx e t)"
    and "deposits_inv (sv_insert de_deposit_idx e t)"
proof -
  show "insert_deposit e t = Ok (sv_insert de_deposit_idx e t)"
    using assms(2) by (simp add: insert_deposit_def)
  have "de_deposit_idx e \<notin> de_deposit_idx ` set t"
    using assms get_deposit_iff [OF assms(1), of "de_deposit_idx e"] by force
  then show "deposits_inv (sv_insert de_deposit_idx e t)" using assms(1) by (intro sv_insert_strict)
qed

lemma sv_remove_strict_filter:
  assumes "keys_strict key xs"
  shows "sv_remove key k xs = (filter (\<lambda>e. key e \<noteq> k) xs, k \<in> key ` set xs)"
proof (cases "binary_search_by_key key k xs")
  case (Inl e)
  then have "k \<notin> key ` set xs" using bs.found_iff [OF keys_strict_sorted [OF assms], of k] by simp
  then show ?thesis using Inl
    by (auto simp: sv_remove_def sv_find_index_def intro!: filter_True [symmetric])
next
  case (Inr i)
  then show ?thesis
    using bs.remove_strict [OF assms Inr] bs.found_iff [OF keys_strict_sorted [OF assms], of k]
    by (simp add: sv_remove_def sv_find_index_def)
qed

lemma remove_deposit_filter:
  assumes "deposits_inv t"
  shows "remove_deposit k t = (filter (\<lambda>e. de_deposit_idx e \<noteq> k) t, get_deposit k t)"
proof (cases "get_deposit k t")
  case None
  then have "\<forall>e\<in>set t. de_deposit_idx e \<noteq> k" using get_deposit_iff [OF assms, of k] by auto
  then show ?thesis using None by (simp add: remove_deposit_def filter_id_conv)
next
  case (Some e)
  then show ?thesis using get_deposit_iff [OF assms, of k e]
    by (simp add: remove_deposit_def sv_remove_strict_filter [OF assms])
qed

interpretation deposits: keyed_table de_deposit_idx deposits_inv "\<lambda>t. t" get_deposit
  "sv_insert de_deposit_idx" "\<lambda>k t. fst (remove_deposit k t)"
  by unfold_locales
     (simp_all add: get_deposit_iff insert_deposit_fresh remove_deposit_filter flat_invar_filter)

lemma oldest_deposit_iff:
  assumes "deposits_inv t"
  shows "oldest_deposit t = Some e \<longleftrightarrow> e \<in> set t \<and> (\<forall>x\<in>set t. de_deposit_idx e \<le> de_deposit_idx x)"
proof (cases t)
  case (Cons d ds)
  then have "\<forall>x\<in>set ds. de_deposit_idx d < de_deposit_idx x" using assms by (simp add: keys_strict_Cons)
  then show ?thesis using Cons by (auto simp: oldest_deposit_def slice_get_def)
qed (simp add: oldest_deposit_def slice_get_def)

lemma oldest_deposit_None: "oldest_deposit t = None \<longleftrightarrow> t = []"
  by (auto simp: oldest_deposit_def slice_get_def)

lemma oldest_deposit_get: "deposits_inv t \<Longrightarrow> oldest_deposit t = Some e \<Longrightarrow> get_deposit (de_deposit_idx e) t = Some e"
  by (simp add: oldest_deposit_iff get_deposit_iff)

end
