(* ===== verification/Assignment_Table.thy ===== *)
theory Assignment_Table
  imports Deposit_Table
begin

text \<open>
  Withdrawal assignments, \<open>crates/subprotocols/bridge/state/src/assignment.rs\<close>: the entry that
  links a deposit to the operator who must front its withdrawal, the selection of that operator,
  the reassignment of expired entries and the table of entries.  An operation that mutates an entry
  in place and may still fail returns the mutated entry next to its result, so the absence of a
  roll-back is part of the model.
\<close>

section \<open>Entries\<close>

record assignment_entry =
  ae_deposit_entry :: deposit_entry
  ae_withdrawal_output :: withdrawal_output
  ae_operator_fee :: u64
  ae_current_assignee :: operator_idx
  ae_previous_assignees :: operator_bitmap
  ae_fulfillment_deadline :: l1_height

definition ae_deposit_idx :: "assignment_entry \<Rightarrow> u32" where
  "ae_deposit_idx e = de_deposit_idx (ae_deposit_entry e)"

definition ae_notary_set :: "assignment_entry \<Rightarrow> nn_script_idx" where
  "ae_notary_set e = de_notary_set (ae_deposit_entry e)"

definition net_amount :: "assignment_entry \<Rightarrow> u64" where
  "net_amount e =
     (case checked_sub (wo_amt (ae_withdrawal_output e)) (ae_operator_fee e) of
        Some a \<Rightarrow> a
      | None \<Rightarrow> 0)"

definition select_random_operator ::
  "'e bridge_env_scheme \<Rightarrow> operator_bitmap \<Rightarrow> block_id \<Rightarrow> u32
     \<Rightarrow> (withdrawal_assignment_error, operator_idx) result" where
  "select_random_operator env eligible seed deposit_idx =
     (let r = unat (chacha_next_u32 env seed (ucast deposit_idx));
          n = bm_active_count eligible;
          choice = (if n = 0 then None else slice_get (bm_active_indices eligible) (r mod n))
      in ok_or (NoEligibleOperators deposit_idx) choice)"

definition ae_create ::
  "'e bridge_env_scheme \<Rightarrow> deposit_entry \<Rightarrow> withdrawal_intent \<Rightarrow> u64 \<Rightarrow> l1_height
     \<Rightarrow> operator_bitmap \<Rightarrow> operator_bitmap \<Rightarrow> block_id
     \<Rightarrow> (withdrawal_assignment_error, assignment_entry) result" where
  "ae_create env deposit_entry withdrawal_intent operator_fee fulfillment_deadline
     notary_operators current_active_operators seed =
     (let previous_assignees = bm_new_with_size (length notary_operators) False in
      case filter_eligible_operators notary_operators previous_assignees current_active_operators of
        Err b \<Rightarrow> Err (BitmapError b)
      | Ok eligible \<Rightarrow>
          (let assignee =
             (case as_specific (wi_selected_operator withdrawal_intent) of
                Some idx \<Rightarrow> if bm_is_active eligible idx then Ok idx
                            else select_random_operator env eligible seed (de_deposit_idx deposit_entry)
              | None \<Rightarrow> select_random_operator env eligible seed (de_deposit_idx deposit_entry))
           in res_bind assignee (\<lambda>current_assignee.
                Ok \<lparr>ae_deposit_entry = deposit_entry,
                    ae_withdrawal_output = to_output withdrawal_intent,
                    ae_operator_fee = operator_fee,
                    ae_current_assignee = current_assignee,
                    ae_previous_assignees = previous_assignees,
                    ae_fulfillment_deadline = fulfillment_deadline\<rparr>)))"

definition ae_reassign ::
  "'e bridge_env_scheme \<Rightarrow> l1_height \<Rightarrow> block_id \<Rightarrow> operator_bitmap \<Rightarrow> operator_bitmap
     \<Rightarrow> assignment_entry \<Rightarrow> assignment_entry \<times> (withdrawal_assignment_error, unit) result" where
  "ae_reassign env new_deadline seed notary_operators current_active_operators e =
     (case bm_try_set (ae_previous_assignees e) (ae_current_assignee e) True of
        Err b \<Rightarrow> (e, Err (BitmapError b))
      | Ok tried \<Rightarrow>
     (let e1 = e\<lparr>ae_previous_assignees := tried\<rparr>; deposit_idx = ae_deposit_idx e in
      case filter_eligible_operators notary_operators tried current_active_operators of
        Err b \<Rightarrow> (e1, Err (BitmapError b))
      | Ok eligible \<Rightarrow>
     (case select_random_operator env eligible seed deposit_idx of
        Ok new_assignee \<Rightarrow>
          (e1\<lparr>ae_current_assignee := new_assignee, ae_fulfillment_deadline := new_deadline\<rparr>, Ok ())
      | Err (NoEligibleOperators _) \<Rightarrow>
     (let cleared = bm_new_with_size (length notary_operators) False;
          e2 = e1\<lparr>ae_previous_assignees := cleared\<rparr> in
      case filter_eligible_operators notary_operators cleared current_active_operators of
        Err b \<Rightarrow> (e2, Err (BitmapError b))
      | Ok eligible2 \<Rightarrow>
     (case select_random_operator env eligible2 seed deposit_idx of
        Err x \<Rightarrow> (e2, Err x)
      | Ok new_assignee \<Rightarrow>
          (e2\<lparr>ae_current_assignee := new_assignee, ae_fulfillment_deadline := new_deadline\<rparr>, Ok ())))
      | Err x \<Rightarrow> (e1, Err x))))"

section \<open>The table\<close>

record assignment_table =
  at_assignments :: "assignment_entry list"
  at_assignment_duration :: u16

definition at_new :: "u16 \<Rightarrow> assignment_table" where
  "at_new d = \<lparr>at_assignments = sv_new_empty, at_assignment_duration = d\<rparr>"

definition calculate_deadline :: "assignment_table \<Rightarrow> l1_height \<Rightarrow> l1_height" where
  "calculate_deadline t current_height = current_height + ucast (at_assignment_duration t)"

definition get_assignment :: "u32 \<Rightarrow> assignment_table \<Rightarrow> assignment_entry option" where
  "get_assignment deposit_idx t =
     (case binary_search_by_key ae_deposit_idx deposit_idx (at_assignments t) of
        Ok i \<Rightarrow> Some (at_assignments t ! i)
      | Err _ \<Rightarrow> None)"

definition at_insert :: "assignment_entry \<Rightarrow> assignment_table \<Rightarrow> assignment_table option" where
  "at_insert entry t =
     (case get_assignment (ae_deposit_idx entry) t of
        Some _ \<Rightarrow> None
      | None \<Rightarrow> Some (t\<lparr>at_assignments := sv_insert ae_deposit_idx entry (at_assignments t)\<rparr>))"

definition at_remove_assignment :: "u32 \<Rightarrow> assignment_table \<Rightarrow> assignment_table \<times> assignment_entry option" where
  "at_remove_assignment deposit_idx t =
     (case get_assignment deposit_idx t of
        None \<Rightarrow> (t, None)
      | Some assignment \<Rightarrow>
          (let r = sv_remove ae_deposit_idx (ae_deposit_idx assignment) (at_assignments t)
           in (t\<lparr>at_assignments := fst r\<rparr>, if snd r then Some assignment else None)))"

fun reassign_loop ::
  "'e bridge_env_scheme \<Rightarrow> nn_script_history \<Rightarrow> operator_bitmap \<Rightarrow> l1_height \<Rightarrow> block_id \<Rightarrow> l1_height
     \<Rightarrow> assignment_entry list
     \<Rightarrow> (assignment_entry list \<times> (withdrawal_assignment_error, assignment_entry list) result) option"
where
  "reassign_loop env nn_history active height seed new_deadline [] = Some ([], Ok [])"
| "reassign_loop env nn_history active height seed new_deadline (e # es) =
     (if ae_fulfillment_deadline e \<le> height then
        (case nnh_get nn_history (ae_notary_set e) of
           None \<Rightarrow> None
         | Some config \<Rightarrow>
             (case ae_reassign env new_deadline seed (hs_operators config) active e of
                (e', Err x) \<Rightarrow> Some (e' # es, Err x)
              | (e', Ok _) \<Rightarrow>
                  map_option (\<lambda>(es', r). (e' # es', res_bind r (\<lambda>l. Ok (e' # l))))
                    (reassign_loop env nn_history active height seed new_deadline es)))
      else
        map_option (\<lambda>(es', r). (e # es', r))
          (reassign_loop env nn_history active height seed new_deadline es))"

definition reassign_expired_assignments ::
  "'e bridge_env_scheme \<Rightarrow> nn_script_history \<Rightarrow> operator_bitmap \<Rightarrow> l1_block_commitment \<Rightarrow> assignment_table
     \<Rightarrow> (assignment_table \<times> (withdrawal_assignment_error, assignment_entry list) result) option" where
  "reassign_expired_assignments env nn_history current_active_operators l1_block t =
     map_option (\<lambda>(es, r). (t\<lparr>at_assignments := es\<rparr>, r))
       (reassign_loop env nn_history current_active_operators (l1_block_height l1_block)
          (l1_block_blkid l1_block) (calculate_deadline t (l1_block_height l1_block)) (at_assignments t))"

definition build_assignment ::
  "'e bridge_env_scheme \<Rightarrow> deposit_entry \<Rightarrow> withdrawal_intent \<Rightarrow> u64 \<Rightarrow> operator_bitmap
     \<Rightarrow> operator_bitmap \<Rightarrow> l1_block_commitment \<Rightarrow> assignment_table
     \<Rightarrow> (withdrawal_assignment_error, assignment_entry) result" where
  "build_assignment env deposit_entry withdrawal_intent operator_fee notary_operators
     current_active_operators l1_block t =
     ae_create env deposit_entry withdrawal_intent operator_fee
       (calculate_deadline t (l1_block_height l1_block)) notary_operators current_active_operators
       (l1_block_blkid l1_block)"

definition assignments_from_ssz :: "assignment_entry list \<Rightarrow> u16 \<Rightarrow> (string, assignment_table) result" where
  "assignments_from_ssz payload duration =
     (case sv_try_from ae_deposit_idx payload of
        Err _ \<Rightarrow> Err ''assignment table entries must stay sorted''
      | Ok es \<Rightarrow> Ok \<lparr>at_assignments = es, at_assignment_duration = duration\<rparr>)"

section \<open>Invariants\<close>

abbreviation assignments_inv :: "assignment_table \<Rightarrow> bool" where
  "assignments_inv t \<equiv> keys_strict ae_deposit_idx (at_assignments t)"

definition entry_ok :: "nn_script_history \<Rightarrow> assignment_entry \<Rightarrow> bool" where
  "entry_ok nn_history e \<longleftrightarrow>
     (\<exists>config. nnh_get nn_history (ae_notary_set e) = Some config
        \<and> length (ae_previous_assignees e) = length (hs_operators config)
        \<and> bm_is_active (hs_operators config) (ae_current_assignee e))"

section \<open>Laws of the selection\<close>

lemma select_random_operator_spec:
  assumes "length b \<le> 2 ^ 32"
  shows "case select_random_operator env b seed d of
      Ok i \<Rightarrow> bm_is_active b i
    | Err x \<Rightarrow> x = NoEligibleOperators d \<and> (\<forall>i. \<not> bm_is_active b i)"
proof (cases "bm_active_count b = 0")
  case True
  then have "\<forall>i. \<not> bm_is_active b i" using bm_active_count_pos [OF assms] by auto
  then show ?thesis using True by (simp add: select_random_operator_def)
next
  case False
  let ?k = "unat (chacha_next_u32 env seed (ucast d)) mod bm_active_count b"
  have "?k < length (bm_active_indices b)" using False by (simp flip: bm_active_count_indices)
  then have "bm_active_indices b ! ?k \<in> set (bm_active_indices b)" by (rule nth_mem)
  then have "bm_is_active b (bm_active_indices b ! ?k)" using bm_active_indices_set [OF assms] by simp
  then show ?thesis using False \<open>?k < length (bm_active_indices b)\<close>
    by (simp add: select_random_operator_def slice_get_def)
qed

lemma select_OkD:
  "length b \<le> 2 ^ 32 \<Longrightarrow> select_random_operator env b seed d = Ok i \<Longrightarrow> bm_is_active b i"
  using select_random_operator_spec [where env = env and seed = seed and d = d] by fastforce

lemma select_ErrD:
  "length b \<le> 2 ^ 32 \<Longrightarrow> select_random_operator env b seed d = Err x
     \<Longrightarrow> x = NoEligibleOperators d \<and> (\<forall>i. \<not> bm_is_active b i)"
  using select_random_operator_spec [where env = env and seed = seed and d = d] by fastforce

lemma ae_create_spec:
  assumes "length notary \<le> 2 ^ 32" and "length notary \<le> length active"
  shows "case ae_create env d w fee deadline notary active seed of
      Ok e \<Rightarrow> ae_deposit_entry e = d \<and> ae_withdrawal_output e = to_output w \<and> ae_operator_fee e = fee
        \<and> ae_fulfillment_deadline e = deadline
        \<and> ae_previous_assignees e = bm_new_with_size (length notary) False
        \<and> bm_is_active notary (ae_current_assignee e) \<and> bm_is_active active (ae_current_assignee e)
        \<and> (\<forall>i. as_specific (wi_selected_operator w) = Some i \<and> bm_is_active notary i \<and> bm_is_active active i
             \<longrightarrow> ae_current_assignee e = i)
    | Err x \<Rightarrow> x = NoEligibleOperators (de_deposit_idx d)
        \<and> (\<forall>i. \<not> (bm_is_active notary i \<and> bm_is_active active i))"
proof -
  obtain el where el: "filter_eligible_operators notary (bm_new_with_size (length notary) False) active = Ok el"
    using filter_eligible_ok_iff [of notary "bm_new_with_size (length notary) False" active] assms(2) by auto
  have len: "length el \<le> 2 ^ 32" using filter_eligible_ok(1) [OF el] assms(1) by simp
  have act: "bm_is_active el i \<longleftrightarrow> bm_is_active notary i \<and> bm_is_active active i" for i
    using filter_eligible_ok(2) [OF el] by simp
  show ?thesis
    using el act select_random_operator_spec [OF len, where env = env and seed = seed and d = "de_deposit_idx d"]
    by (auto simp: ae_create_def res_bind_def split: sum.splits option.splits)
qed

lemma ae_reassign_frame:
  "ae_deposit_entry (fst (ae_reassign env nd seed notary active e)) = ae_deposit_entry e
   \<and> ae_withdrawal_output (fst (ae_reassign env nd seed notary active e)) = ae_withdrawal_output e
   \<and> ae_operator_fee (fst (ae_reassign env nd seed notary active e)) = ae_operator_fee e"
  by (simp add: ae_reassign_def Let_def split: sum.split withdrawal_assignment_error.split)

lemma ae_reassign_idx [simp]:
  "ae_deposit_idx (fst (ae_reassign env nd seed notary active e)) = ae_deposit_idx e"
  "ae_notary_set (fst (ae_reassign env nd seed notary active e)) = ae_notary_set e"
  by (simp_all add: ae_deposit_idx_def ae_notary_set_def ae_reassign_frame)

lemma ae_reassign_spec:
  assumes len: "length notary \<le> 2 ^ 32" and act: "length notary \<le> length active"
    and prev: "length (ae_previous_assignees e) = length notary"
    and cur: "unat (ae_current_assignee e) < length notary"
    and run: "ae_reassign env nd seed notary active e = (e', r)"
  shows "case r of
      Ok _ \<Rightarrow> ae_fulfillment_deadline e' = nd \<and> length (ae_previous_assignees e') = length notary
        \<and> bm_is_active notary (ae_current_assignee e') \<and> bm_is_active active (ae_current_assignee e')
        \<and> (if \<exists>i. bm_is_active notary i \<and> bm_is_active active i
                 \<and> \<not> bm_is_active (ae_previous_assignees e) i \<and> i \<noteq> ae_current_assignee e
           then ae_current_assignee e' \<noteq> ae_current_assignee e
             \<and> \<not> bm_is_active (ae_previous_assignees e) (ae_current_assignee e')
             \<and> (\<forall>i. bm_is_active (ae_previous_assignees e') i \<longleftrightarrow>
                  bm_is_active (ae_previous_assignees e) i \<or> i = ae_current_assignee e)
           else \<forall>i. \<not> bm_is_active (ae_previous_assignees e') i)
    | Err x \<Rightarrow> x = NoEligibleOperators (ae_deposit_idx e)
        \<and> (\<forall>i. \<not> (bm_is_active notary i \<and> bm_is_active active i))"
proof -
  define tried where "tried = (ae_previous_assignees e)[unat (ae_current_assignee e) := True]"
  have t: "bm_try_set (ae_previous_assignees e) (ae_current_assignee e) True = Ok tried"
    using prev cur by (simp add: bm_try_set_inside tried_def)
  have tl: "length tried = length notary" using prev by (simp add: tried_def)
  have ta: "bm_is_active tried i \<longleftrightarrow> i = ae_current_assignee e \<or> bm_is_active (ae_previous_assignees e) i" for i
    using bm_try_set_ok(3) [OF t] by auto
  define cleared where "cleared = bm_new_with_size (length notary) False"
  obtain el where el: "filter_eligible_operators notary tried active = Ok el"
    using filter_eligible_ok_iff [of notary tried active] tl act by auto
  obtain el2 where el2: "filter_eligible_operators notary cleared active = Ok el2"
    using filter_eligible_ok_iff [of notary cleared active] act by (auto simp: cleared_def)
  have l: "length el \<le> 2 ^ 32" "length el2 \<le> 2 ^ 32"
    using filter_eligible_ok(1) [OF el] filter_eligible_ok(1) [OF el2] len by auto
  have a: "bm_is_active el i \<longleftrightarrow> bm_is_active notary i \<and> bm_is_active active i \<and> \<not> bm_is_active tried i"
    "bm_is_active el2 i \<longleftrightarrow> bm_is_active notary i \<and> bm_is_active active i" for i
    using filter_eligible_ok(2) [OF el] filter_eligible_ok(2) [OF el2] by (auto simp: cleared_def)
  show ?thesis
  proof (cases "select_random_operator env el seed (ae_deposit_idx e)")
    case (Inr op)
    have "e' = e\<lparr>ae_previous_assignees := tried, ae_current_assignee := op, ae_fulfillment_deadline := nd\<rparr>"
      "r = Ok ()" using run t el Inr by (simp_all add: ae_reassign_def)
    then show ?thesis using select_OkD [OF l(1) Inr] a(1) ta tl by auto
  next
    case (Inl x)
    then have none: "x = NoEligibleOperators (ae_deposit_idx e)" "\<forall>i. \<not> bm_is_active el i"
      using select_ErrD [OF l(1)] by blast+
    show ?thesis
    proof (cases "select_random_operator env el2 seed (ae_deposit_idx e)")
      case (Inr op)
      have "e' = e\<lparr>ae_previous_assignees := cleared, ae_current_assignee := op, ae_fulfillment_deadline := nd\<rparr>"
        "r = Ok ()" using run t el el2 Inl none(1) Inr by (simp_all add: ae_reassign_def cleared_def)
      then show ?thesis using select_OkD [OF l(2) Inr] none(2) a ta by (auto simp: cleared_def)
    next
      case (Inl y)
      have "r = Err y" using run t el el2 \<open>select_random_operator env el seed (ae_deposit_idx e) = Err x\<close> none(1) Inl
        by (simp add: ae_reassign_def cleared_def)
      then show ?thesis using select_ErrD [OF l(2) Inl] a(2) by auto
    qed
  qed
qed

section \<open>The table provides the keyed-table interface\<close>

lemma get_assignment_iff:
  "assignments_inv t \<Longrightarrow> get_assignment k t = Some e \<longleftrightarrow> e \<in> set (at_assignments t) \<and> ae_deposit_idx e = k"
  unfolding get_assignment_def by (rule bs.lookup_strict)

lemma at_insert_fresh:
  assumes "assignments_inv t" and "get_assignment (ae_deposit_idx e) t = None"
  shows "at_insert e t = Some (t\<lparr>at_assignments := sv_insert ae_deposit_idx e (at_assignments t)\<rparr>)"
    and "keys_strict ae_deposit_idx (sv_insert ae_deposit_idx e (at_assignments t))"
proof -
  show "at_insert e t = Some (t\<lparr>at_assignments := sv_insert ae_deposit_idx e (at_assignments t)\<rparr>)"
    using assms(2) by (simp add: at_insert_def)
  have "ae_deposit_idx e \<notin> ae_deposit_idx ` set (at_assignments t)"
    using assms get_assignment_iff [OF assms(1), of "ae_deposit_idx e"] by force
  then show "keys_strict ae_deposit_idx (sv_insert ae_deposit_idx e (at_assignments t))"
    using assms(1) by (intro sv_insert_strict)
qed

lemma at_remove_filter:
  assumes "assignments_inv t"
  shows "at_remove_assignment k t =
    (t\<lparr>at_assignments := filter (\<lambda>e. ae_deposit_idx e \<noteq> k) (at_assignments t)\<rparr>, get_assignment k t)"
proof (cases "get_assignment k t")
  case None
  then have "\<forall>e\<in>set (at_assignments t). ae_deposit_idx e \<noteq> k" using get_assignment_iff [OF assms, of k] by auto
  then have "filter (\<lambda>e. ae_deposit_idx e \<noteq> k) (at_assignments t) = at_assignments t"
    by (simp add: filter_id_conv)
  then show ?thesis using None by (simp add: at_remove_assignment_def)
next
  case (Some e)
  then have e: "e \<in> set (at_assignments t)" "ae_deposit_idx e = k" using get_assignment_iff [OF assms] by auto
  then have "sv_remove ae_deposit_idx k (at_assignments t)
      = (filter (\<lambda>e. ae_deposit_idx e \<noteq> k) (at_assignments t), True)"
    using sv_remove_strict_filter [OF assms, of k] by auto
  then show ?thesis using Some e by (simp add: at_remove_assignment_def)
qed

interpretation assignments: keyed_table ae_deposit_idx assignments_inv at_assignments get_assignment
  "\<lambda>e t. t\<lparr>at_assignments := sv_insert ae_deposit_idx e (at_assignments t)\<rparr>"
  "\<lambda>k t. fst (at_remove_assignment k t)"
  by unfold_locales
     (simp_all add: get_assignment_iff at_insert_fresh at_remove_filter flat_invar_filter)

section \<open>Reassignment of expired entries\<close>

lemma unat_net_amount:
  "unat (net_amount e) = unat (wo_amt (ae_withdrawal_output e)) - unat (ae_operator_fee e)"
proof (cases "ae_operator_fee e \<le> wo_amt (ae_withdrawal_output e)")
  case True
  then show ?thesis by (simp add: net_amount_def checked_sub_def unat_sub)
next
  case False
  then show ?thesis by (simp add: net_amount_def checked_sub_def word_le_nat_alt)
qed

lemma reassign_loop_frame:
  "reassign_loop env h active height seed nd es = Some (es', r) \<Longrightarrow>
     map ae_deposit_entry es' = map ae_deposit_entry es"
proof (induction es arbitrary: es' r)
  case (Cons e es)
  show ?case
  proof (cases "ae_fulfillment_deadline e \<le> height")
    case False
    then show ?thesis using Cons by auto
  next
    case True
    then obtain c where c: "nnh_get h (ae_notary_set e) = Some c"
      using Cons.prems by (auto split: option.splits)
    obtain e' q where q: "ae_reassign env nd seed (hs_operators c) active e = (e', q)" by fastforce
    then have "ae_deposit_entry e' = ae_deposit_entry e"
      using ae_reassign_frame [of env nd seed "hs_operators c" active e] by simp
    then show ?thesis using Cons True c q by (cases q) auto
  qed
qed simp

lemma reassign_loop_total:
  "\<forall>e\<in>set es. \<exists>c. nnh_get h (ae_notary_set e) = Some c \<Longrightarrow>
     \<exists>res. reassign_loop env h active height seed nd es = Some res"
proof (induction es)
  case (Cons e es)
  then obtain c res where "nnh_get h (ae_notary_set e) = Some c"
    "reassign_loop env h active height seed nd es = Some res" by auto
  then show ?case by (simp split: prod.split sum.split)
qed simp

definition reassigned :: "'e bridge_env_scheme \<Rightarrow> nn_script_history \<Rightarrow> operator_bitmap \<Rightarrow> l1_height \<Rightarrow> block_id
    \<Rightarrow> l1_height \<Rightarrow> assignment_entry \<Rightarrow> assignment_entry" where
  "reassigned env h active height seed nd e =
     (if ae_fulfillment_deadline e \<le> height
      then fst (ae_reassign env nd seed (hs_operators (the (nnh_get h (ae_notary_set e)))) active e)
      else e)"

lemma reassign_loop_OkD:
  assumes "reassign_loop env h active height seed nd es = Some (es', Ok l)"
  shows "es' = map (reassigned env h active height seed nd) es"
    and "\<forall>e\<in>set es. ae_fulfillment_deadline e \<le> height \<longrightarrow>
      snd (ae_reassign env nd seed (hs_operators (the (nnh_get h (ae_notary_set e)))) active e) = Ok ()"
proof -
  have "es' = map (reassigned env h active height seed nd) es \<and>
    (\<forall>e\<in>set es. ae_fulfillment_deadline e \<le> height \<longrightarrow>
      snd (ae_reassign env nd seed (hs_operators (the (nnh_get h (ae_notary_set e)))) active e) = Ok ())"
    using assms
  proof (induction es arbitrary: es' l)
    case (Cons e es)
    show ?case
    proof (cases "ae_fulfillment_deadline e \<le> height")
      case False
      then show ?thesis using Cons by (auto simp: reassigned_def)
    next
      case True
      then obtain c e' where c: "nnh_get h (ae_notary_set e) = Some c"
        "ae_reassign env nd seed (hs_operators c) active e = (e', Ok ())"
        using Cons.prems by (auto split: option.splits prod.splits sum.splits)
      then show ?thesis using Cons True by (auto simp: reassigned_def res_bind_eq_Ok)
    qed
  qed simp
  then show "es' = map (reassigned env h active height seed nd) es"
    "\<forall>e\<in>set es. ae_fulfillment_deadline e \<le> height \<longrightarrow>
      snd (ae_reassign env nd seed (hs_operators (the (nnh_get h (ae_notary_set e)))) active e) = Ok ()"
    by auto
qed

lemma res_bind_eq_Err: "res_bind r f = Err x \<longleftrightarrow> r = Err x \<or> (\<exists>a. r = Ok a \<and> f a = Err x)"
  by (cases r) simp_all

lemma reassign_loop_ErrD:
  "reassign_loop env h active height seed nd es = Some (es', Err x) \<Longrightarrow>
     \<exists>e\<in>set es. \<exists>c. ae_fulfillment_deadline e \<le> height \<and> nnh_get h (ae_notary_set e) = Some c
       \<and> snd (ae_reassign env nd seed (hs_operators c) active e) = Err x"
proof (induction es arbitrary: es')
  case (Cons e es)
  show ?case
  proof (cases "ae_fulfillment_deadline e \<le> height")
    case False
    then show ?thesis using Cons by auto
  next
    case True
    then obtain c where c: "nnh_get h (ae_notary_set e) = Some c"
      using Cons.prems by (auto split: option.splits)
    obtain e' q where q: "ae_reassign env nd seed (hs_operators c) active e = (e', q)" by fastforce
    show ?thesis
    proof (cases q)
      case (Inl y)
      then show ?thesis using Cons.prems True c q by auto
    next
      case (Inr u)
      then show ?thesis using Cons True c q by (auto simp: res_bind_eq_Err)
    qed
  qed
qed simp

lemma entry_ok_reassigned:
  assumes "entry_ok h e" and "\<forall>c\<in>set h. length (hs_operators c) \<le> length active"
    and "length active \<le> 2 ^ 32"
    and "snd (ae_reassign env nd seed (hs_operators (the (nnh_get h (ae_notary_set e)))) active e) = Ok ()"
    and "ae_fulfillment_deadline e \<le> height"
  shows "entry_ok h (reassigned env h active height seed nd e)
    \<and> ae_fulfillment_deadline (reassigned env h active height seed nd e) = nd
    \<and> bm_is_active active (ae_current_assignee (reassigned env h active height seed nd e))"
proof -
  obtain c where c: "nnh_get h (ae_notary_set e) = Some c"
    "length (ae_previous_assignees e) = length (hs_operators c)"
    "bm_is_active (hs_operators c) (ae_current_assignee e)"
    using assms(1) by (auto simp: entry_ok_def)
  have "c \<in> set h" using c(1) by (auto simp: nnh_get_def slice_get_def split: if_splits)
  then have l: "length (hs_operators c) \<le> length active" "length (hs_operators c) \<le> 2 ^ 32"
    using assms(2,3) by force+
  obtain e' where run: "ae_reassign env nd seed (hs_operators c) active e = (e', Ok ())"
    using assms(4) c(1) by (cases "ae_reassign env nd seed (hs_operators c) active e") auto
  have "reassigned env h active height seed nd e = e'" using run c(1) assms(5) by (simp add: reassigned_def)
  moreover have "ae_notary_set e' = ae_notary_set e"
    using ae_reassign_idx(2) [of env nd seed "hs_operators c" active e] run by simp
  ultimately show ?thesis
    using ae_reassign_spec [OF l(2,1) c(2) bm_is_active_lt [OF c(3)] run] c(1)
    by (auto simp: entry_ok_def)
qed

section \<open>Properties\<close>

text \<open>C32: a new assignment goes to an operator that signed for the deposit and is active now.  It
  binds the deposit, the requested output, the fee and the deadline it was built with and starts
  with nobody tried; the user's preferred operator is chosen whenever that operator is eligible.
  The only failure is that no operator of the notary set is active any more.\<close>
theorem new_assignment_is_eligible:
  assumes "length notary \<le> 2 ^ 32" and "length notary \<le> length active"
  shows "case build_assignment env d w fee notary active blk t of
      Ok e \<Rightarrow> ae_deposit_entry e = d \<and> ae_withdrawal_output e = to_output w \<and> ae_operator_fee e = fee
        \<and> ae_fulfillment_deadline e = calculate_deadline t (l1_block_height blk)
        \<and> ae_previous_assignees e = bm_new_with_size (length notary) False
        \<and> bm_is_active notary (ae_current_assignee e) \<and> bm_is_active active (ae_current_assignee e)
        \<and> (\<forall>i. as_specific (wi_selected_operator w) = Some i \<and> bm_is_active notary i \<and> bm_is_active active i
             \<longrightarrow> ae_current_assignee e = i)
    | Err x \<Rightarrow> x = NoEligibleOperators (de_deposit_idx d)
        \<and> (\<forall>i. \<not> (bm_is_active notary i \<and> bm_is_active active i))"
  unfolding build_assignment_def using assms by (rule ae_create_spec)

definition sample_deposit :: "u32 \<Rightarrow> deposit_entry" where
  "sample_deposit i = \<lparr>de_deposit_idx = i, de_notary_set = 0, de_amt = 100\<rparr>"

definition sample_intent :: withdrawal_intent where
  "sample_intent = \<lparr>wi_destination = [1, 2], wi_amt = 100, wi_selected_operator = 1\<rparr>"

definition sample_block :: l1_block_commitment where
  "sample_block = \<lparr>l1_block_height = 50, l1_block_blkid = [9]\<rparr>"

theorem new_assignment_is_eligible_witness:
  "\<exists>e. build_assignment sample_tx_env (sample_deposit 4) sample_intent 3 [True, True] [True, True, False]
      sample_block (at_new 10) = Ok e \<and> ae_current_assignee e = 1 \<and> ae_fulfillment_deadline e = 60"
proof -
  let ?b = "build_assignment sample_tx_env (sample_deposit 4) sample_intent 3 [True, True] [True, True, False]
      sample_block (at_new 10)"
  have ok: "is_ok ?b" by code_simp
  have pref: "as_specific (wi_selected_operator sample_intent) = Some 1"
    "calculate_deadline (at_new 10) (l1_block_height sample_block) = 60" by code_simp+
  have act: "bm_is_active [True, True] 1 \<and> bm_is_active [True, True, False] 1" by code_simp
  show ?thesis
    using new_assignment_is_eligible [where notary = "[True, True]" and active = "[True, True, False]"
        and env = sample_tx_env and d = "sample_deposit 4" and w = sample_intent and fee = 3
        and blk = sample_block and t = "at_new 10"] ok pref act
    by (cases ?b) auto
qed

text \<open>C31: reassignment rotates.  As long as some active member of the notary set has not been tried,
  a reassignment never goes back to the operator that just failed nor to any operator tried before,
  and it records the failed one; only once everyone has been tried is the record cleared and the
  selection made from all active members again.  Each success sets the new deadline, and the only
  failure is that no member of the notary set is active.\<close>
theorem reassignment_rotates_before_repeating:
  assumes "length notary \<le> 2 ^ 32" and "length notary \<le> length active"
    and "length (ae_previous_assignees e) = length notary"
    and "unat (ae_current_assignee e) < length notary"
    and "ae_reassign env new_deadline seed notary active e = (e', r)"
  shows "case r of
      Ok _ \<Rightarrow> ae_fulfillment_deadline e' = new_deadline \<and> length (ae_previous_assignees e') = length notary
        \<and> bm_is_active notary (ae_current_assignee e') \<and> bm_is_active active (ae_current_assignee e')
        \<and> (if \<exists>i. bm_is_active notary i \<and> bm_is_active active i
                 \<and> \<not> bm_is_active (ae_previous_assignees e) i \<and> i \<noteq> ae_current_assignee e
           then ae_current_assignee e' \<noteq> ae_current_assignee e
             \<and> \<not> bm_is_active (ae_previous_assignees e) (ae_current_assignee e')
             \<and> (\<forall>i. bm_is_active (ae_previous_assignees e') i \<longleftrightarrow>
                  bm_is_active (ae_previous_assignees e) i \<or> i = ae_current_assignee e)
           else \<forall>i. \<not> bm_is_active (ae_previous_assignees e') i)
    | Err x \<Rightarrow> x = NoEligibleOperators (ae_deposit_idx e)
        \<and> (\<forall>i. \<not> (bm_is_active notary i \<and> bm_is_active active i))"
  using assms by (rule ae_reassign_spec)

definition sample_assignment :: "u32 \<Rightarrow> assignment_entry" where
  "sample_assignment i = \<lparr>ae_deposit_entry = sample_deposit i, ae_withdrawal_output = to_output sample_intent,
     ae_operator_fee = 3, ae_current_assignee = 0, ae_previous_assignees = [False, False],
     ae_fulfillment_deadline = 50\<rparr>"

theorem reassignment_rotates_before_repeating_witness:
  "\<exists>e'. ae_reassign sample_tx_env 60 [9] [True, True] [True, True] (sample_assignment 4) = (e', Ok ())
     \<and> ae_current_assignee e' \<noteq> 0 \<and> ae_fulfillment_deadline e' = 60"
proof -
  let ?r = "ae_reassign sample_tx_env 60 [9] [True, True] [True, True] (sample_assignment 4)"
  have ok: "is_ok (snd ?r)" by code_simp
  then have ok': "snd ?r = Ok ()" by (cases "snd ?r") auto
  have "bm_is_active [True, True] 1 \<and> \<not> bm_is_active [False, False] 1" by code_simp
  then have ex: "\<exists>i. bm_is_active [True, True] i \<and> bm_is_active [True, True] i
      \<and> \<not> bm_is_active (ae_previous_assignees (sample_assignment 4)) i
      \<and> i \<noteq> ae_current_assignee (sample_assignment 4)"
    by (intro exI [of _ 1]) (simp add: sample_assignment_def)
  show ?thesis
    using reassignment_rotates_before_repeating [where notary = "[True, True]" and active = "[True, True]"
        and e = "sample_assignment 4" and env = sample_tx_env and new_deadline = 60 and seed = "[9]"
        and e' = "fst ?r" and r = "snd ?r"] ok' ex
    by (intro exI [of _ "fst ?r"]) (auto simp: sample_assignment_def prod_eq_iff)
qed

end
