(* ===== verification/Bridge_State.thy ===== *)
theory Bridge_State
  imports Assignment_Table
begin

text \<open>
  The state container of the bridge, \<open>crates/subprotocols/bridge/state/src/bridge.rs\<close>, with its
  operations and the invariant that ties its tables together: deposits and assignments have disjoint
  indices, refer to recorded N/N configurations and are denominated in the bridge's denomination.
\<close>

record bridge_state =
  br_operators :: operator_table
  br_deposits :: deposits_table
  br_assignments :: assignment_table
  br_denomination :: u64
  br_operator_fee :: u64
  br_recovery_delay :: u16
  br_safe_harbor :: safe_harbor

definition br_new :: "'e bridge_env_scheme \<Rightarrow> bridge_init_config \<Rightarrow> bridge_state option" where
  "br_new env config =
     do {
       operators \<leftarrow> from_operator_list env (bic_operators config);
       Some \<lparr>br_operators = operators,
             br_deposits = dt_new_empty,
             br_assignments = at_new (bic_assignment_duration config),
             br_denomination = bic_denomination config,
             br_operator_fee = bic_operator_fee config,
             br_recovery_delay = bic_recovery_delay config,
             br_safe_harbor = sh_new (bic_safe_harbor_address config)\<rparr>
     }"

definition activate_safe_harbor :: "bridge_state \<Rightarrow> bridge_state" where
  "activate_safe_harbor s = s\<lparr>br_safe_harbor := sh_set_activated True (br_safe_harbor s)\<rparr>"

definition update_safe_harbor_address :: "safe_harbor_address \<Rightarrow> bridge_state \<Rightarrow> bridge_state \<times> bool" where
  "update_safe_harbor_address new_address s =
     (if sh_activated (br_safe_harbor s) then (s, False)
      else let r = sh_update_address new_address (br_safe_harbor s)
           in (s\<lparr>br_safe_harbor := fst r\<rparr>, snd r))"

definition add_deposit ::
  "deposit_info \<Rightarrow> bridge_state \<Rightarrow> (deposit_validation_error, bridge_state) result option" where
  "add_deposit info s =
     (let deposit_idx = di_deposit_idx info in
      case get_assignment deposit_idx (br_assignments s) of
        Some _ \<Rightarrow> Some (Err (DepositIdxAssigned deposit_idx))
      | None \<Rightarrow>
          do {
            notary_set \<leftarrow> current_nn_script_index (br_operators s);
            Some (res_bind
              (insert_deposit \<lparr>de_deposit_idx = deposit_idx, de_notary_set = notary_set, de_amt = di_amt info\<rparr>
                 (br_deposits s))
              (\<lambda>deposits. Ok (s\<lparr>br_deposits := deposits\<rparr>)))
          })"

definition create_withdrawal_assignment ::
  "'e bridge_env_scheme \<Rightarrow> withdrawal_intent \<Rightarrow> l1_block_commitment \<Rightarrow> bridge_state
     \<Rightarrow> (withdrawal_assignment_error, assignment_entry) result option" where
  "create_withdrawal_assignment env intent l1_block s =
     (case oldest_deposit (br_deposits s) of
        None \<Rightarrow> Some (Err NoUnassignedDeposits)
      | Some deposit \<Rightarrow>
          if de_amt deposit \<noteq> wi_amt intent
          then Some (Err (DepositWithdrawalAmountMismatch (de_amt deposit) (wi_amt intent)))
          else do {
            config \<leftarrow> ot_nn_script (br_operators s) (de_notary_set deposit);
            active \<leftarrow> current_multisig (br_operators s);
            Some (build_assignment env deposit intent (br_operator_fee s) (hs_operators config) active
                    l1_block (br_assignments s))
          })"

definition insert_withdrawal_assignment :: "assignment_entry \<Rightarrow> bridge_state \<Rightarrow> bridge_state option" where
  "insert_withdrawal_assignment assignment s =
     (case remove_deposit (ae_deposit_idx assignment) (br_deposits s) of
        (_, None) \<Rightarrow> None
      | (deposits, Some _) \<Rightarrow>
          do {
            assignments \<leftarrow> at_insert assignment (br_assignments s);
            Some (s\<lparr>br_deposits := deposits, br_assignments := assignments\<rparr>)
          })"

definition br_reassign_expired_assignments ::
  "'e bridge_env_scheme \<Rightarrow> l1_block_commitment \<Rightarrow> bridge_state
     \<Rightarrow> (bridge_state \<times> (withdrawal_assignment_error, assignment_entry list) result) option" where
  "br_reassign_expired_assignments env current_block s =
     do {
       active \<leftarrow> current_multisig (br_operators s);
       (assignments, r) \<leftarrow> reassign_expired_assignments env (ot_nn_scripts (br_operators s)) active
                            current_block (br_assignments s);
       Some (s\<lparr>br_assignments := assignments\<rparr>, r)
     }"

definition br_remove_assignment :: "u32 \<Rightarrow> bridge_state \<Rightarrow> bridge_state \<times> assignment_entry option" where
  "br_remove_assignment deposit_idx s =
     (let r = at_remove_assignment deposit_idx (br_assignments s)
      in (s\<lparr>br_assignments := fst r\<rparr>, snd r))"

definition apply_operator_set_update ::
  "'e bridge_env_scheme \<Rightarrow> pubkey list \<Rightarrow> operator_idx list \<Rightarrow> bridge_state \<Rightarrow> bridge_state option" where
  "apply_operator_set_update env add_members remove_members s =
     map_option (\<lambda>t. s\<lparr>br_operators := t\<rparr>)
       (apply_membership_changes env add_members remove_members (br_operators s))"

definition remove_operator :: "'e bridge_env_scheme \<Rightarrow> operator_idx \<Rightarrow> bridge_state \<Rightarrow> bridge_state option" where
  "remove_operator env operator_idx s =
     map_option (\<lambda>t. s\<lparr>br_operators := t\<rparr>)
       (apply_membership_changes env [] [operator_idx] (br_operators s))"

section \<open>Invariant\<close>

definition bridge_inv :: "'e bridge_env_scheme \<Rightarrow> bridge_state \<Rightarrow> bool" where
  "bridge_inv env s \<longleftrightarrow>
     operator_table_inv env (br_operators s)
     \<and> ot_nn_scripts (br_operators s) \<noteq> [] \<and> length (ot_nn_scripts (br_operators s)) \<le> 2 ^ 32
     \<and> deposits_inv (br_deposits s)
     \<and> (\<forall>d \<in> set (br_deposits s). de_amt d = br_denomination s
          \<and> unat (de_notary_set d) < length (ot_nn_scripts (br_operators s)))
     \<and> assignments_inv (br_assignments s)
     \<and> (\<forall>e \<in> set (at_assignments (br_assignments s)).
          entry_ok (ot_nn_scripts (br_operators s)) e
          \<and> de_amt (ae_deposit_entry e) = br_denomination s
          \<and> wo_amt (ae_withdrawal_output e) = br_denomination s)
     \<and> de_deposit_idx ` set (br_deposits s) \<inter> ae_deposit_idx ` set (at_assignments (br_assignments s)) = {}"

lemma bridge_invD:
  assumes "bridge_inv env s"
  shows "operator_table_inv env (br_operators s)"
    and "ot_nn_scripts (br_operators s) \<noteq> []"
    and "deposits_inv (br_deposits s)"
    and "assignments_inv (br_assignments s)"
    and "current_multisig (br_operators s) = Some (initial_active (br_operators s))"
    and "\<forall>c \<in> set (ot_nn_scripts (br_operators s)).
           length (hs_operators c) \<le> length (initial_active (br_operators s))"
    and "length (initial_active (br_operators s)) \<le> 2 ^ 32"
  using assms unat_u32_lt [of "ot_next_idx (br_operators s)"]
  by (auto simp: bridge_inv_def operator_table_inv_def config_ok_def current_multisig_def
      current_nn_script_def nnh_current_def initial_active_def)

section \<open>Every operation keeps the invariant\<close>

lemma br_new_inv:
  assumes "br_new env config = Some s"
  shows "bridge_inv env s"
proof -
  obtain t where t: "from_operator_list env (bic_operators config) = Some t" "br_operators s = t"
    "br_deposits s = []" "at_assignments (br_assignments s) = []"
    using assms by (auto simp: br_new_def dt_new_empty_def sv_new_empty_def at_new_def split: bind_splits)
  let ?t0 = "\<lparr>ot_next_idx = 0, ot_operators = [], ot_agg_key = placeholder_agg_key, ot_nn_scripts = []\<rparr>"
  have app: "bic_operators config \<noteq> []" "apply_membership_changes env (bic_operators config) [] ?t0 = Some t"
    using t(1) by (auto simp: from_operator_list_def sv_new_empty_def split: if_splits)
  note S = apply_membership_changes_spec [OF empty_table_inv app(2)]
  then have reg: "registry_inv t" "length (initial_active t) = unat (ot_next_idx t)"
    by (auto simp: operator_table_inv_def)
  have "ot_operators t \<noteq> []" using S app(1) by auto
  then have "ot_nn_scripts t \<noteq> []"
    using reg registry_length [OF reg(1)] by (auto simp: initial_active_def bm_new_empty_def)
  then show ?thesis using S t by (auto simp: bridge_inv_def)
qed

lemma safe_harbor_ops_inv:
  assumes "bridge_inv env s"
  shows "bridge_inv env (activate_safe_harbor s)"
    and "bridge_inv env (fst (update_safe_harbor_address a s))"
  using assms by (simp_all add: bridge_inv_def activate_safe_harbor_def update_safe_harbor_address_def Let_def)

lemma add_deposit_cases:
  assumes "bridge_inv env s"
  shows "\<exists>r. add_deposit info s = Some r \<and>
    (if di_deposit_idx info \<in> ae_deposit_idx ` set (at_assignments (br_assignments s))
     then r = Err (DepositIdxAssigned (di_deposit_idx info))
     else if di_deposit_idx info \<in> de_deposit_idx ` set (br_deposits s)
     then r = Err (DepositIdxAlreadyExists (di_deposit_idx info))
     else r = Ok (s\<lparr>br_deposits := sv_insert de_deposit_idx
            \<lparr>de_deposit_idx = di_deposit_idx info,
             de_notary_set = of_nat (length (ot_nn_scripts (br_operators s)) - 1),
             de_amt = di_amt info\<rparr> (br_deposits s)\<rparr>))"
  using assignments.get_None_iff [OF bridge_invD(4) [OF assms], of "di_deposit_idx info"]
    deposits.get_None_iff [OF bridge_invD(3) [OF assms], of "di_deposit_idx info"] bridge_invD(2) [OF assms]
  by (cases "get_assignment (di_deposit_idx info) (br_assignments s)";
      cases "get_deposit (di_deposit_idx info) (br_deposits s)")
     (auto simp: add_deposit_def Let_def current_nn_script_index_def nnh_current_index_def insert_deposit_def)

lemma add_deposit_inv:
  assumes inv: "bridge_inv env s" and add: "add_deposit info s = Some (Ok s')"
    and amt: "di_amt info = br_denomination s"
  shows "bridge_inv env s'"
proof -
  let ?n = "length (ot_nn_scripts (br_operators s))"
  let ?d = "\<lparr>de_deposit_idx = di_deposit_idx info, de_notary_set = of_nat (?n - 1), de_amt = di_amt info\<rparr>"
  have s': "s' = s\<lparr>br_deposits := sv_insert de_deposit_idx ?d (br_deposits s)\<rparr>"
    and fresh: "di_deposit_idx info \<notin> ae_deposit_idx ` set (at_assignments (br_assignments s))"
      "di_deposit_idx info \<notin> de_deposit_idx ` set (br_deposits s)"
    using add_deposit_cases [OF inv, of info] add by (auto split: if_splits)
  have "?n - 1 < 2 ^ 32" "?n - 1 < ?n" using inv by (auto simp: bridge_inv_def)
  then have n: "unat (of_nat (?n - 1) :: u32) < ?n" by (simp add: unat_of_nat_u32 del: of_nat_diff)
  have "deposits_inv (sv_insert de_deposit_idx ?d (br_deposits s))"
    using fresh(2) bridge_invD(3) [OF inv] by (intro sv_insert_strict) auto
  then show ?thesis using inv s' fresh n amt by (auto simp: bridge_inv_def simp del: of_nat_diff)
qed

lemma nnh_get_append: "nnh_get h i = Some c \<Longrightarrow> nnh_get (h @ r) i = Some c"
  by (auto simp: nnh_get_def slice_get_def nth_append split: if_splits)

lemma entry_ok_append: "entry_ok h e \<Longrightarrow> entry_ok (h @ r) e"
  unfolding entry_ok_def using nnh_get_append by blast

lemma nnh_get_lt: "unat i < length h \<Longrightarrow> nnh_get h i = Some (h ! unat i)"
  by (simp add: nnh_get_def slice_get_def)

lemma membership_inv:
  assumes inv: "bridge_inv env s" and room: "length (ot_nn_scripts (br_operators s)) < 2 ^ 32"
    and app: "apply_membership_changes env add rem (br_operators s) = Some t"
  shows "bridge_inv env (s\<lparr>br_operators := t\<rparr>)"
proof -
  obtain r where r: "ot_nn_scripts t = ot_nn_scripts (br_operators s) @ r" "length r \<le> 1"
    and t: "operator_table_inv env t"
    using apply_membership_changes_spec [OF bridge_invD(1) [OF inv] app] by blast
  then show ?thesis using inv room entry_ok_append [where r = r] by (fastforce simp: bridge_inv_def)
qed

lemma apply_operator_set_update_inv:
  "bridge_inv env s \<Longrightarrow> length (ot_nn_scripts (br_operators s)) < 2 ^ 32
     \<Longrightarrow> apply_operator_set_update env add rem s = Some s' \<Longrightarrow> bridge_inv env s'"
  by (auto simp: apply_operator_set_update_def intro: membership_inv)

lemma remove_operator_inv:
  "bridge_inv env s \<Longrightarrow> length (ot_nn_scripts (br_operators s)) < 2 ^ 32
     \<Longrightarrow> remove_operator env i s = Some s' \<Longrightarrow> bridge_inv env s'"
  by (auto simp: remove_operator_def intro: membership_inv)

lemma br_remove_assignment_spec:
  assumes "bridge_inv env s"
  shows "br_remove_assignment k s =
      (s\<lparr>br_assignments := (br_assignments s)\<lparr>at_assignments :=
          filter (\<lambda>e. ae_deposit_idx e \<noteq> k) (at_assignments (br_assignments s))\<rparr>\<rparr>,
       get_assignment k (br_assignments s))"
    and "bridge_inv env (fst (br_remove_assignment k s))"
proof -
  show eq: "br_remove_assignment k s =
      (s\<lparr>br_assignments := (br_assignments s)\<lparr>at_assignments :=
          filter (\<lambda>e. ae_deposit_idx e \<noteq> k) (at_assignments (br_assignments s))\<rparr>\<rparr>,
       get_assignment k (br_assignments s))"
    using bridge_invD(4) [OF assms] by (simp add: br_remove_assignment_def Let_def at_remove_filter)
  show "bridge_inv env (fst (br_remove_assignment k s))"
    unfolding eq using assms by (auto simp: bridge_inv_def flat_invar_filter)
qed

section \<open>Creating assignments\<close>

lemma create_withdrawal_assignment_cases:
  assumes inv: "bridge_inv env s" and dep: "br_deposits s = d # ds"
    and amt: "wi_amt intent = br_denomination s"
  shows "\<exists>r config. create_withdrawal_assignment env intent blk s = Some r
    \<and> nnh_get (ot_nn_scripts (br_operators s)) (de_notary_set d) = Some config
    \<and> (case r of
        Err x \<Rightarrow> x = NoEligibleOperators (de_deposit_idx d)
          \<and> (\<forall>i. \<not> (bm_is_active (hs_operators config) i \<and> bm_is_active (initial_active (br_operators s)) i))
      | Ok a \<Rightarrow> ae_deposit_entry a = d \<and> ae_withdrawal_output a = to_output intent
          \<and> ae_operator_fee a = br_operator_fee s
          \<and> ae_fulfillment_deadline a = calculate_deadline (br_assignments s) (l1_block_height blk)
          \<and> entry_ok (ot_nn_scripts (br_operators s)) a
          \<and> bm_is_active (initial_active (br_operators s)) (ae_current_assignee a))"
proof -
  let ?h = "ot_nn_scripts (br_operators s)"
  define c where "c = ?h ! unat (de_notary_set d)"
  have lt: "unat (de_notary_set d) < length ?h" and da: "de_amt d = wi_amt intent"
    using inv dep amt by (auto simp: bridge_inv_def)
  then have c: "nnh_get ?h (de_notary_set d) = Some c" "c \<in> set ?h" by (auto simp: nnh_get_lt c_def)
  then have l: "length (hs_operators c) \<le> 2 ^ 32" "length (hs_operators c) \<le> length (initial_active (br_operators s))"
    using bridge_invD(6,7) [OF inv] by force+
  have "create_withdrawal_assignment env intent blk s =
      Some (build_assignment env d intent (br_operator_fee s) (hs_operators c) (initial_active (br_operators s)) blk
        (br_assignments s))"
    using dep da c(1) bridge_invD(5) [OF inv]
    by (simp add: create_withdrawal_assignment_def oldest_deposit_def slice_get_def ot_nn_script_def)
  then show ?thesis
    using ae_create_spec [OF l, where env = env and d = d and w = intent and fee = "br_operator_fee s"
        and deadline = "calculate_deadline (br_assignments s) (l1_block_height blk)"
        and seed = "l1_block_blkid blk"] c(1)
    by (auto simp: build_assignment_def entry_ok_def ae_notary_set_def split: sum.splits)
qed

lemma insert_withdrawal_assignment_spec:
  assumes inv: "bridge_inv env s" and dep: "br_deposits s = d # ds"
    and a: "ae_deposit_entry a = d"
  shows "insert_withdrawal_assignment a s =
      Some (s\<lparr>br_deposits := ds, br_assignments := (br_assignments s)\<lparr>at_assignments :=
              sv_insert ae_deposit_idx a (at_assignments (br_assignments s))\<rparr>\<rparr>)"
proof -
  have k: "ae_deposit_idx a = de_deposit_idx d" using a by (simp add: ae_deposit_idx_def)
  have fresh: "\<forall>x\<in>set ds. de_deposit_idx x \<noteq> de_deposit_idx d"
    using bridge_invD(3) [OF inv] dep by (auto simp: keys_strict_Cons)
  then have "remove_deposit (de_deposit_idx d) (br_deposits s) = (ds, Some d)"
    using bridge_invD(3) [OF inv] get_deposit_iff [OF bridge_invD(3) [OF inv], of "de_deposit_idx d" d] dep
    by (simp add: remove_deposit_filter filter_id_conv)
  moreover have "get_assignment (de_deposit_idx d) (br_assignments s) = None"
    using inv dep assignments.get_None_iff [OF bridge_invD(4) [OF inv], of "de_deposit_idx d"]
    by (auto simp: bridge_inv_def)
  ultimately show ?thesis
    using k by (simp add: insert_withdrawal_assignment_def at_insert_def)
qed

lemma insert_withdrawal_assignment_inv:
  assumes inv: "bridge_inv env s" and dep: "br_deposits s = d # ds"
    and a: "ae_deposit_entry a = d" "entry_ok (ot_nn_scripts (br_operators s)) a"
      "wo_amt (ae_withdrawal_output a) = br_denomination s"
    and ins: "insert_withdrawal_assignment a s = Some s'"
  shows "bridge_inv env s'"
proof -
  let ?as = "at_assignments (br_assignments s)"
  have s': "s' = s\<lparr>br_deposits := ds, br_assignments := (br_assignments s)\<lparr>at_assignments :=
      sv_insert ae_deposit_idx a ?as\<rparr>\<rparr>"
    using insert_withdrawal_assignment_spec [OF inv dep a(1)] ins by simp
  have fresh: "ae_deposit_idx a \<notin> ae_deposit_idx ` set ?as"
    using inv dep a(1) by (auto simp: bridge_inv_def ae_deposit_idx_def)
  have "keys_strict ae_deposit_idx (sv_insert ae_deposit_idx a ?as)"
    using sv_insert_strict [OF bridge_invD(4) [OF inv] fresh] .
  then show ?thesis using inv dep a s'
    by (auto simp: bridge_inv_def keys_strict_Cons ae_deposit_idx_def)
qed

section \<open>Reassigning expired assignments\<close>

lemma br_reassign_cases:
  assumes inv: "bridge_inv env s"
  shows "\<exists>s' r. br_reassign_expired_assignments env blk s = Some (s', r)
    \<and> (case r of
        Err x \<Rightarrow> (\<exists>e\<in>set (at_assignments (br_assignments s)). \<exists>config.
            x = NoEligibleOperators (ae_deposit_idx e)
            \<and> ae_fulfillment_deadline e \<le> l1_block_height blk
            \<and> nnh_get (ot_nn_scripts (br_operators s)) (ae_notary_set e) = Some config
            \<and> (\<forall>i. \<not> (bm_is_active (hs_operators config) i \<and> bm_is_active (initial_active (br_operators s)) i)))
      | Ok l \<Rightarrow> s' = s\<lparr>br_assignments := (br_assignments s)\<lparr>at_assignments :=
            map (reassigned env (ot_nn_scripts (br_operators s)) (initial_active (br_operators s))
                   (l1_block_height blk) (l1_block_blkid blk)
                   (calculate_deadline (br_assignments s) (l1_block_height blk)))
              (at_assignments (br_assignments s))\<rparr>\<rparr>
          \<and> (\<forall>e\<in>set (at_assignments (br_assignments s)). ae_fulfillment_deadline e \<le> l1_block_height blk \<longrightarrow>
               snd (ae_reassign env (calculate_deadline (br_assignments s) (l1_block_height blk))
                 (l1_block_blkid blk) (hs_operators (the (nnh_get (ot_nn_scripts (br_operators s)) (ae_notary_set e))))
                 (initial_active (br_operators s)) e) = Ok ()))"
proof -
  let ?h = "ot_nn_scripts (br_operators s)" and ?a = "initial_active (br_operators s)"
  let ?nd = "calculate_deadline (br_assignments s) (l1_block_height blk)"
  let ?es = "at_assignments (br_assignments s)"
  have ok: "\<forall>e\<in>set ?es. entry_ok ?h e" using inv by (auto simp: bridge_inv_def)
  then have "\<forall>e\<in>set ?es. \<exists>c. nnh_get ?h (ae_notary_set e) = Some c" by (auto simp: entry_ok_def)
  then obtain es r where run: "reassign_loop env ?h ?a (l1_block_height blk) (l1_block_blkid blk) ?nd ?es = Some (es, r)"
    using reassign_loop_total [of ?es ?h env ?a "l1_block_height blk" "l1_block_blkid blk" ?nd] by auto
  then have br: "br_reassign_expired_assignments env blk s =
      Some (s\<lparr>br_assignments := (br_assignments s)\<lparr>at_assignments := es\<rparr>\<rparr>, r)"
    using bridge_invD(5) [OF inv] by (simp add: br_reassign_expired_assignments_def reassign_expired_assignments_def)
  show ?thesis
  proof (cases r)
    case (Inr l)
    then show ?thesis using br reassign_loop_OkD [OF run [unfolded Inr]] by auto
  next
    case (Inl x)
    obtain e c where e: "e \<in> set ?es" "ae_fulfillment_deadline e \<le> l1_block_height blk"
      "nnh_get ?h (ae_notary_set e) = Some c"
      "snd (ae_reassign env ?nd (l1_block_blkid blk) (hs_operators c) ?a e) = Err x"
      using reassign_loop_ErrD [OF run [unfolded Inl]] by blast
    have cur: "length (ae_previous_assignees e) = length (hs_operators c)"
      "unat (ae_current_assignee e) < length (hs_operators c)"
      using ok e(1,3) bm_is_active_lt by (auto simp: entry_ok_def)
    have "c \<in> set ?h" using e(3) by (auto simp: nnh_get_def slice_get_def split: if_splits)
    then have l: "length (hs_operators c) \<le> 2 ^ 32" "length (hs_operators c) \<le> length ?a"
      using bridge_invD(6,7) [OF inv] by force+
    obtain e' where "ae_reassign env ?nd (l1_block_blkid blk) (hs_operators c) ?a e = (e', Err x)"
      using e(4) by (cases "ae_reassign env ?nd (l1_block_blkid blk) (hs_operators c) ?a e") auto
    from ae_reassign_spec [OF l cur this] show ?thesis using br Inl e(1-3) by auto
  qed
qed

lemma reassigned_deposit [simp]:
  "ae_deposit_entry (reassigned env h a height seed nd e) = ae_deposit_entry e"
  "ae_withdrawal_output (reassigned env h a height seed nd e) = ae_withdrawal_output e"
  "ae_operator_fee (reassigned env h a height seed nd e) = ae_operator_fee e"
  "ae_deposit_idx (reassigned env h a height seed nd e) = ae_deposit_idx e"
  by (simp_all add: reassigned_def ae_reassign_frame)

lemma br_reassign_inv:
  assumes inv: "bridge_inv env s" and run: "br_reassign_expired_assignments env blk s = Some (s', Ok l)"
  shows "bridge_inv env s'"
proof -
  let ?h = "ot_nn_scripts (br_operators s)" and ?a = "initial_active (br_operators s)"
  let ?nd = "calculate_deadline (br_assignments s) (l1_block_height blk)"
  let ?f = "reassigned env ?h ?a (l1_block_height blk) (l1_block_blkid blk) ?nd"
  let ?es = "at_assignments (br_assignments s)"
  have s': "s' = s\<lparr>br_assignments := (br_assignments s)\<lparr>at_assignments := map ?f ?es\<rparr>\<rparr>"
    and ok: "\<forall>e\<in>set ?es. ae_fulfillment_deadline e \<le> l1_block_height blk \<longrightarrow>
      snd (ae_reassign env ?nd (l1_block_blkid blk) (hs_operators (the (nnh_get ?h (ae_notary_set e)))) ?a e) = Ok ()"
    using br_reassign_cases [OF inv, of blk] run by auto
  have "entry_ok ?h (?f e)" if e: "e \<in> set ?es" for e
  proof (cases "ae_fulfillment_deadline e \<le> l1_block_height blk")
    case True
    then show ?thesis
      using entry_ok_reassigned [OF _ bridge_invD(6,7) [OF inv] _ True] ok e inv by (auto simp: bridge_inv_def)
  next
    case False
    then show ?thesis using e inv by (auto simp: bridge_inv_def reassigned_def)
  qed
  moreover have "keys_strict ae_deposit_idx (map ?f ?es)"
    using bridge_invD(4) [OF inv] by (simp add: keys_strict_def comp_def)
  ultimately show ?thesis using inv s' by (auto simp: bridge_inv_def)
qed

section \<open>Properties\<close>

text \<open>A deposit is admitted exactly when its index is used by neither an unassigned deposit nor a
  live assignment, and each rejection names the table that holds the index.  An admitted deposit is
  bound to the latest N/N configuration; nothing else of the bridge changes, and no case panics.\<close>
theorem add_deposit_decides_index:
  assumes "bridge_inv env s"
  shows "\<exists>r. add_deposit info s = Some r \<and>
    (if di_deposit_idx info \<in> ae_deposit_idx ` set (at_assignments (br_assignments s))
     then r = Err (DepositIdxAssigned (di_deposit_idx info))
     else if di_deposit_idx info \<in> de_deposit_idx ` set (br_deposits s)
     then r = Err (DepositIdxAlreadyExists (di_deposit_idx info))
     else r = Ok (s\<lparr>br_deposits := sv_insert de_deposit_idx
            \<lparr>de_deposit_idx = di_deposit_idx info,
             de_notary_set = of_nat (length (ot_nn_scripts (br_operators s)) - 1),
             de_amt = di_amt info\<rparr> (br_deposits s)\<rparr>))"
  using assms by (rule add_deposit_cases)

definition sample_bridge :: bridge_state where
  "sample_bridge = \<lparr>br_operators = sample_table, br_deposits = [sample_deposit 4, sample_deposit 7],
     br_assignments = \<lparr>at_assignments = [sample_assignment 2], at_assignment_duration = 10\<rparr>,
     br_denomination = 100, br_operator_fee = 3, br_recovery_delay = 144,
     br_safe_harbor = \<lparr>sh_address = [1], sh_activated = False\<rparr>\<rparr>"

lemma sample_bridge_inv: "bridge_inv sample_tx_env sample_bridge"
proof -
  have "operator_table_inv sample_tx_env sample_table" by code_simp
  moreover have "bm_is_active [True, True] 0" by code_simp
  ultimately show ?thesis
    by (simp add: bridge_inv_def sample_bridge_def keys_strict_def sample_deposit_def sample_assignment_def
        entry_ok_def nnh_get_def slice_get_def ae_notary_set_def ae_deposit_idx_def sample_table_def
        sample_intent_def to_output_def)
qed

definition sample_deposit_info :: "u32 \<Rightarrow> deposit_info" where
  "sample_deposit_info i = \<lparr>di_deposit_idx = i, di_deposit_output = \<lparr>to_value = 100, to_script_pubkey = []\<rparr>,
     di_drt_inpoint = \<lparr>op_txid = [], op_vout = 0\<rparr>\<rparr>"

theorem add_deposit_decides_index_witness:
  "add_deposit (sample_deposit_info 2) sample_bridge = Some (Err (DepositIdxAssigned 2))
   \<and> (\<exists>s'. add_deposit (sample_deposit_info 5) sample_bridge = Some (Ok s'))"
  using add_deposit_decides_index [OF sample_bridge_inv, of "sample_deposit_info 2"]
    add_deposit_decides_index [OF sample_bridge_inv, of "sample_deposit_info 5"]
  by (simp add: sample_bridge_def sample_deposit_def sample_assignment_def ae_deposit_idx_def
      sample_deposit_info_def)

text \<open>C30: withdrawals are backed first in, first out.  For a withdrawal of the bridge's denomination
  and a non-empty deposit table, creating the assignment does not panic and takes the deposit with
  the smallest index, assigning it to an active member of that deposit's notary set under the
  bridge's fee and a fresh deadline; inserting it then cannot panic on either table: exactly that
  deposit leaves the deposit table, exactly that assignment is added, and the invariant is kept.
  The one failure left is a notary set none of whose members is active.\<close>
theorem dispatch_consumes_oldest_deposit:
  assumes "bridge_inv env s" and "br_deposits s = d # ds" and "wi_amt intent = br_denomination s"
  shows "(\<forall>x\<in>set ds. de_deposit_idx d < de_deposit_idx x)
    \<and> (create_withdrawal_assignment env intent blk s = Some (Err (NoEligibleOperators (de_deposit_idx d)))
      \<or> (\<exists>a s'. create_withdrawal_assignment env intent blk s = Some (Ok a)
          \<and> ae_deposit_entry a = d \<and> ae_withdrawal_output a = to_output intent
          \<and> ae_operator_fee a = br_operator_fee s
          \<and> ae_fulfillment_deadline a = calculate_deadline (br_assignments s) (l1_block_height blk)
          \<and> bm_is_active (initial_active (br_operators s)) (ae_current_assignee a)
          \<and> insert_withdrawal_assignment a s = Some s' \<and> bridge_inv env s'
          \<and> br_deposits s' = ds
          \<and> set (at_assignments (br_assignments s')) = insert a (set (at_assignments (br_assignments s)))))"
proof
  show "\<forall>x\<in>set ds. de_deposit_idx d < de_deposit_idx x"
    using bridge_invD(3) [OF assms(1)] assms(2) by (simp add: keys_strict_Cons)
next
  obtain r where r: "create_withdrawal_assignment env intent blk s = Some r"
    using create_withdrawal_assignment_cases [OF assms, of blk] by blast
  have err: "x = NoEligibleOperators (de_deposit_idx d)" if "r = Err x" for x
    using create_withdrawal_assignment_cases [OF assms, of blk] r that by auto
  have ok: "ae_deposit_entry a = d \<and> ae_withdrawal_output a = to_output intent
      \<and> ae_operator_fee a = br_operator_fee s
      \<and> ae_fulfillment_deadline a = calculate_deadline (br_assignments s) (l1_block_height blk)
      \<and> entry_ok (ot_nn_scripts (br_operators s)) a
      \<and> bm_is_active (initial_active (br_operators s)) (ae_current_assignee a)" if "r = Ok a" for a
    using create_withdrawal_assignment_cases [OF assms, of blk] r that by auto
  show "create_withdrawal_assignment env intent blk s = Some (Err (NoEligibleOperators (de_deposit_idx d)))
      \<or> (\<exists>a s'. create_withdrawal_assignment env intent blk s = Some (Ok a)
          \<and> ae_deposit_entry a = d \<and> ae_withdrawal_output a = to_output intent
          \<and> ae_operator_fee a = br_operator_fee s
          \<and> ae_fulfillment_deadline a = calculate_deadline (br_assignments s) (l1_block_height blk)
          \<and> bm_is_active (initial_active (br_operators s)) (ae_current_assignee a)
          \<and> insert_withdrawal_assignment a s = Some s' \<and> bridge_inv env s'
          \<and> br_deposits s' = ds
          \<and> set (at_assignments (br_assignments s')) = insert a (set (at_assignments (br_assignments s))))"
  proof (cases r)
    case (Inl x)
    then show ?thesis using r err by simp
  next
    case (Inr a)
    then have a: "ae_deposit_entry a = d" "entry_ok (ot_nn_scripts (br_operators s)) a"
      "wo_amt (ae_withdrawal_output a) = br_denomination s"
      using ok assms(3) by (auto simp: to_output_def)
    note ins = insert_withdrawal_assignment_spec [OF assms(1,2) a(1)]
    show ?thesis
      using r ok [OF Inr] Inr ins insert_withdrawal_assignment_inv [OF assms(1,2) a ins] by auto
  qed
qed

theorem dispatch_consumes_oldest_deposit_witness:
  "\<exists>a s'. create_withdrawal_assignment sample_tx_env sample_intent sample_block sample_bridge = Some (Ok a)
     \<and> ae_deposit_entry a = sample_deposit 4 \<and> insert_withdrawal_assignment a sample_bridge = Some s'
     \<and> bridge_inv sample_tx_env s' \<and> br_deposits s' = [sample_deposit 7]"
proof -
  have "create_withdrawal_assignment sample_tx_env sample_intent sample_block sample_bridge
      \<noteq> Some (Err (NoEligibleOperators 4))" by code_simp
  moreover have "br_deposits sample_bridge = sample_deposit 4 # [sample_deposit 7]"
    "wi_amt sample_intent = br_denomination sample_bridge" "de_deposit_idx (sample_deposit 4) = 4"
    by (simp_all add: sample_bridge_def sample_intent_def sample_deposit_def)
  ultimately show ?thesis
    using dispatch_consumes_oldest_deposit [OF sample_bridge_inv, where intent = sample_intent
        and blk = sample_block and d = "sample_deposit 4" and ds = "[sample_deposit 7]"]
    by auto
qed

text \<open>C29: reassignment at a block never panics and never loses or adds an assignment.  When it
  succeeds, an assignment whose deadline has not passed is untouched, and one whose deadline has
  passed is now held by an active member of its notary set with the block's fresh deadline, so that
  no assignment is expired afterwards if the duration is positive and the deadline does not wrap.
  It fails only because an expired assignment's notary set has no active member.\<close>
theorem reassignment_leaves_nothing_expired:
  assumes "bridge_inv env s"
  shows "\<exists>s' r. br_reassign_expired_assignments env blk s = Some (s', r)
    \<and> (case r of
        Err x \<Rightarrow> (\<exists>e\<in>set (at_assignments (br_assignments s)). \<exists>config.
            x = NoEligibleOperators (ae_deposit_idx e)
            \<and> ae_fulfillment_deadline e \<le> l1_block_height blk
            \<and> nnh_get (ot_nn_scripts (br_operators s)) (ae_notary_set e) = Some config
            \<and> (\<forall>i. \<not> (bm_is_active (hs_operators config) i \<and> bm_is_active (initial_active (br_operators s)) i)))
      | Ok _ \<Rightarrow> bridge_inv env s'
          \<and> list_all2 (\<lambda>e e'.
               ae_deposit_entry e' = ae_deposit_entry e
               \<and> ae_withdrawal_output e' = ae_withdrawal_output e \<and> ae_operator_fee e' = ae_operator_fee e
               \<and> (if ae_fulfillment_deadline e \<le> l1_block_height blk
                  then ae_fulfillment_deadline e' = calculate_deadline (br_assignments s) (l1_block_height blk)
                    \<and> bm_is_active (initial_active (br_operators s)) (ae_current_assignee e')
                  else e' = e))
             (at_assignments (br_assignments s)) (at_assignments (br_assignments s'))
          \<and> (l1_block_height blk < calculate_deadline (br_assignments s) (l1_block_height blk) \<longrightarrow>
               (\<forall>e'\<in>set (at_assignments (br_assignments s')). l1_block_height blk < ae_fulfillment_deadline e')))"
proof -
  let ?h = "ot_nn_scripts (br_operators s)" and ?a = "initial_active (br_operators s)"
  let ?nd = "calculate_deadline (br_assignments s) (l1_block_height blk)"
  let ?f = "reassigned env ?h ?a (l1_block_height blk) (l1_block_blkid blk) ?nd"
  let ?es = "at_assignments (br_assignments s)"
  obtain s' r where run: "br_reassign_expired_assignments env blk s = Some (s', r)"
    using br_reassign_cases [OF assms, of blk] by blast
  show ?thesis
  proof (cases r)
    case (Inl x)
    then show ?thesis using br_reassign_cases [OF assms, of blk] run by auto
  next
    case (Inr l)
    have s': "s' = s\<lparr>br_assignments := (br_assignments s)\<lparr>at_assignments := map ?f ?es\<rparr>\<rparr>"
      and ok: "\<forall>e\<in>set ?es. ae_fulfillment_deadline e \<le> l1_block_height blk \<longrightarrow>
        snd (ae_reassign env ?nd (l1_block_blkid blk) (hs_operators (the (nnh_get ?h (ae_notary_set e)))) ?a e) = Ok ()"
      using br_reassign_cases [OF assms, of blk] run Inr by auto
    have exp: "ae_fulfillment_deadline (?f e) = ?nd \<and> bm_is_active ?a (ae_current_assignee (?f e))"
      if "e \<in> set ?es" "ae_fulfillment_deadline e \<le> l1_block_height blk" for e
      using entry_ok_reassigned [OF _ bridge_invD(6,7) [OF assms] _ that(2)] ok that assms
      by (auto simp: bridge_inv_def)
    have live: "?f e = e" if "\<not> ae_fulfillment_deadline e \<le> l1_block_height blk" for e
      using that by (simp add: reassigned_def)
    have late: "l1_block_height blk < ae_fulfillment_deadline (?f e)"
      if "e \<in> set ?es" "l1_block_height blk < ?nd" for e
      using exp [OF that(1)] live [of e] that(2) by (cases "ae_fulfillment_deadline e \<le> l1_block_height blk") auto
    have "list_all2 (\<lambda>e e'. ae_deposit_entry e' = ae_deposit_entry e
           \<and> ae_withdrawal_output e' = ae_withdrawal_output e \<and> ae_operator_fee e' = ae_operator_fee e
           \<and> (if ae_fulfillment_deadline e \<le> l1_block_height blk
              then ae_fulfillment_deadline e' = ?nd \<and> bm_is_active ?a (ae_current_assignee e')
              else e' = e)) ?es (map ?f ?es)"
      unfolding list_all2_map2 using exp live by (intro list.rel_refl_strong) auto
    then show ?thesis
      using br_reassign_inv [OF assms] run Inr s' late by auto
  qed
qed

theorem reassignment_leaves_nothing_expired_witness:
  "\<exists>s' l. br_reassign_expired_assignments sample_tx_env sample_block sample_bridge = Some (s', Ok l)
     \<and> bridge_inv sample_tx_env s'
     \<and> (\<forall>e'\<in>set (at_assignments (br_assignments s')). 50 < ae_fulfillment_deadline e')"
proof -
  have ok: "case br_reassign_expired_assignments sample_tx_env sample_block sample_bridge of
      Some (_, r) \<Rightarrow> is_ok r | None \<Rightarrow> False" by code_simp
  have h: "l1_block_height sample_block = 50"
    "calculate_deadline (br_assignments sample_bridge) (l1_block_height sample_block) = 60" by code_simp+
  obtain s' r where "br_reassign_expired_assignments sample_tx_env sample_block sample_bridge = Some (s', r)"
    using ok by (auto split: option.splits)
  then show ?thesis
    using reassignment_leaves_nothing_expired [OF sample_bridge_inv, of sample_block] ok h by (cases r) auto
qed

end
