(* ===== verification/Bridge_Subprotocol.thy ===== *)
theory Bridge_Subprotocol
  imports Bridge_State Asm_Common Header_Verification
begin

text \<open>
  The bridge subprotocol, \<open>crates/subprotocols/bridge/subprotocol/src\<close>: validation of parsed
  transactions (\<open>validation/\<close>), the handler of one transaction (\<open>handler.rs\<close>), the export leaf of
  a claim version (\<open>claim.rs\<close>) and the subprotocol's entry points (\<open>subprotocol.rs\<close>).
  A panic is \<open>None\<close>; a handler returns the state and the relayer next to its result, so what an
  error leaves behind is part of the model.
\<close>

section \<open>Errors\<close>

datatype withdrawal_validation_error =
    NoAssignmentFound u32
  | AmountMismatch u64 u64
  | DestinationMismatch script script

datatype slash_validation_error =
    InvalidStakeConnectorScript
  | SlashOperatorNotInMultisig operator_idx script

datatype unstake_validation_error =
    UnknownNnKey
  | StakeConnectorMismatch
  | UnstakeOperatorNotInMultisig operator_idx script

datatype bridge_subprotocol_error =
    DepositTxProcess deposit_validation_error
  | WithdrawalTxProcess withdrawal_validation_error
  | SlashTxValidation slash_validation_error
  | UnstakeTxValidation unstake_validation_error

section \<open>Export leaf\<close>

datatype claim_version = ClaimV0 | ClaimV1

definition export_leaf ::
  "'e bridge_env_scheme \<Rightarrow> claim_version \<Rightarrow> operator_table \<Rightarrow> u32 \<Rightarrow> operator_idx \<Rightarrow> buf32 option" where
  "export_leaf env version operators deposit_idx assignee =
     (case version of
        ClaimV0 \<Rightarrow> Some (claim_v0_hash env \<lparr>ocv0_deposit_idx = deposit_idx, ocv0_operator_idx = assignee\<rparr>)
      | ClaimV1 \<Rightarrow>
          do {
            op \<leftarrow> get_operator operators assignee;
            Some (claim_v1_hash env \<lparr>ocv1_deposit_idx = deposit_idx, ocv1_operator_pubkey = oe_musig2_pk op\<rparr>)
          })"

section \<open>Validation\<close>

definition validate_deposit_info ::
  "'e bridge_env_scheme \<Rightarrow> bridge_state \<Rightarrow> deposit_info \<Rightarrow> deposit_request_info
     \<Rightarrow> (deposit_validation_error, unit) result option" where
  "validate_deposit_info env s info drt_info =
     do {
       current \<leftarrow> current_nn_script (br_operators s);
       let expected_script = hs_script current;
           expected_drt_script = create_deposit_request_locking_script env
             (drt_recovery_pk (dri_header_aux drt_info)) (ot_agg_key (br_operators s)) (br_recovery_delay s);
           actual_script = to_script_pubkey (dri_output drt_info)
       in Some
         (if di_locked_script info \<noteq> expected_script
          then Err (WrongOutputLock expected_script (di_locked_script info))
          else if actual_script \<noteq> expected_drt_script
          then Err (DrtOutputScriptMismatch expected_drt_script actual_script)
          else if di_amt info \<noteq> br_denomination s
          then Err (MismatchDepositAmount (br_denomination s) (di_amt info))
          else Ok ())
     }"

definition validate_withdrawal_fulfillment_info ::
  "'e bridge_env_scheme \<Rightarrow> bridge_state \<Rightarrow> withdrawal_fulfillment_info
     \<Rightarrow> (withdrawal_validation_error, unit) result" where
  "validate_withdrawal_fulfillment_info env s info =
     (case get_assignment (wfi_deposit_idx info) (br_assignments s) of
        None \<Rightarrow> Err (NoAssignmentFound (wfi_deposit_idx info))
      | Some assignment \<Rightarrow>
          let expected_amount = net_amount assignment;
              expected_destination = descriptor_to_script env (wo_destination (ae_withdrawal_output assignment))
          in if expected_amount \<noteq> wfi_amount info
             then Err (AmountMismatch expected_amount (wfi_amount info))
             else if expected_destination \<noteq> wfi_destination info
             then Err (DestinationMismatch expected_destination (wfi_destination info))
             else Ok ())"

definition validate_slash_stake_connector ::
  "bridge_state \<Rightarrow> operator_idx \<Rightarrow> script \<Rightarrow> (slash_validation_error, unit) result" where
  "validate_slash_stake_connector s operator_idx connector_script =
     (case find (\<lambda>config. hs_script config = connector_script) (ot_nn_scripts (br_operators s)) of
        None \<Rightarrow> Err InvalidStakeConnectorScript
      | Some config \<Rightarrow>
          if \<not> bm_is_active (hs_operators config) operator_idx
          then Err (SlashOperatorNotInMultisig operator_idx (hs_script config))
          else Ok ())"

definition validate_unstake_info ::
  "'e bridge_env_scheme \<Rightarrow> bridge_state \<Rightarrow> unstake_info \<Rightarrow> script \<Rightarrow> (unstake_validation_error, unit) result" where
  "validate_unstake_info env s info connector_script =
     (let nn_keypath_script = build_nn_script env (ui_witness_pushed_pubkey info) in
      case find (\<lambda>config. hs_script config = nn_keypath_script) (ot_nn_scripts (br_operators s)) of
        None \<Rightarrow> Err UnknownNnKey
      | Some config \<Rightarrow>
          if \<not> bm_is_active (hs_operators config) (ui_operator_idx info)
          then Err (UnstakeOperatorNotInMultisig (ui_operator_idx info) (hs_script config))
          else if connector_script
               \<noteq> expected_stake_connector_script_pubkey env (ui_stake_hash info) (ui_witness_pushed_pubkey info)
          then Err StakeConnectorMismatch
          else Ok ())"

section \<open>Handlers\<close>

type_synonym bridge_step = "(bridge_state \<times> relayer) \<times> (bridge_subprotocol_error, unit) result"

definition handle_deposit ::
  "'e bridge_env_scheme \<Rightarrow> verified_aux_data \<Rightarrow> deposit_info \<Rightarrow> bridge_state \<Rightarrow> relayer \<Rightarrow> bridge_step option" where
  "handle_deposit env aux info s r =
     (case get_bitcoin_tx aux (op_txid (di_drt_inpoint info)) of
        Err _ \<Rightarrow> None
      | Ok drt_tx \<Rightarrow>
     (case parse_drt env drt_tx of
        Err e \<Rightarrow> Some ((s, r), Err (DepositTxProcess (DrtParseError e)))
      | Ok drt_info \<Rightarrow>
          do {
            valid \<leftarrow> validate_deposit_info env s info drt_info;
            (case valid of
               Err e \<Rightarrow> Some ((s, r), Err (DepositTxProcess e))
             | Ok _ \<Rightarrow>
                 do {
                   added \<leftarrow> add_deposit info s;
                   Some (case added of
                       Err e \<Rightarrow> ((s, r), Err (DepositTxProcess e))
                     | Ok s' \<Rightarrow>
                         ((s', emit_log (DepositLog (drt_destination (dri_header_aux drt_info)) (di_amt info))
                                 (relay_msg (CheckpointMsg (DepositProcessed (di_amt info))) r)), Ok ()))
                 })
          }))"

definition handle_withdrawal_fulfillment ::
  "'e bridge_env_scheme \<Rightarrow> claim_version \<Rightarrow> withdrawal_fulfillment_info \<Rightarrow> bridge_state \<Rightarrow> relayer
     \<Rightarrow> bridge_step option" where
  "handle_withdrawal_fulfillment env version info s r =
     (case validate_withdrawal_fulfillment_info env s info of
        Err e \<Rightarrow> Some ((s, r), Err (WithdrawalTxProcess e))
      | Ok _ \<Rightarrow>
          (let deposit_idx = wfi_deposit_idx info; removed = br_remove_assignment deposit_idx s; s' = fst removed in
           do {
             fulfilled \<leftarrow> snd removed;
             leaf \<leftarrow> export_leaf env version (br_operators s') deposit_idx (ae_current_assignee fulfilled);
             Some ((s', emit_log (NewExportEntry bridge_subprotocol_id leaf) r), Ok ())
           }))"

definition handle_slash ::
  "'e bridge_env_scheme \<Rightarrow> verified_aux_data \<Rightarrow> slash_info \<Rightarrow> bridge_state \<Rightarrow> relayer \<Rightarrow> bridge_step option" where
  "handle_slash env aux info s r =
     (case get_bitcoin_txout aux (si_stake_inpoint info) of
        Err _ \<Rightarrow> None
      | Ok connector \<Rightarrow>
     (case validate_slash_stake_connector s (si_operator_idx info) (to_script_pubkey connector) of
        Err e \<Rightarrow> Some ((s, r), Err (SlashTxValidation e))
      | Ok _ \<Rightarrow>
          do { s' \<leftarrow> remove_operator env (si_operator_idx info) s; Some ((s', r), Ok ()) }))"

definition handle_unstake ::
  "'e bridge_env_scheme \<Rightarrow> verified_aux_data \<Rightarrow> unstake_info \<Rightarrow> bridge_state \<Rightarrow> relayer \<Rightarrow> bridge_step option" where
  "handle_unstake env aux info s r =
     (case get_bitcoin_txout aux (ui_stake_inpoint info) of
        Err _ \<Rightarrow> None
      | Ok connector \<Rightarrow>
     (case validate_unstake_info env s info (to_script_pubkey connector) of
        Err e \<Rightarrow> Some ((s, r), Err (UnstakeTxValidation e))
      | Ok _ \<Rightarrow>
          do { s' \<leftarrow> remove_operator env (ui_operator_idx info) s; Some ((s', r), Ok ()) }))"

definition handle_parsed_tx ::
  "'e bridge_env_scheme \<Rightarrow> claim_version \<Rightarrow> verified_aux_data \<Rightarrow> parsed_tx \<Rightarrow> bridge_state \<Rightarrow> relayer
     \<Rightarrow> bridge_step option" where
  "handle_parsed_tx env version aux parsed s r =
     (case parsed of
        ParsedDeposit info \<Rightarrow> handle_deposit env aux info s r
      | ParsedWithdrawalFulfillment info \<Rightarrow> handle_withdrawal_fulfillment env version info s r
      | ParsedSlash info \<Rightarrow> handle_slash env aux info s r
      | ParsedUnstake info \<Rightarrow> handle_unstake env aux info s r)"

definition preprocess_parsed_tx :: "parsed_tx \<Rightarrow> aux_request_collector \<Rightarrow> aux_request_collector" where
  "preprocess_parsed_tx parsed c =
     (case parsed of
        ParsedDeposit info \<Rightarrow> request_bitcoin_tx (op_txid (di_drt_inpoint info)) c
      | ParsedWithdrawalFulfillment _ \<Rightarrow> c
      | ParsedSlash info \<Rightarrow> request_bitcoin_tx (op_txid (si_stake_inpoint info)) c
      | ParsedUnstake info \<Rightarrow> request_bitcoin_tx (op_txid (ui_stake_inpoint info)) c)"

section \<open>Entry points\<close>

fun bridge_pre_process_txs ::
  "'e bridge_env_scheme \<Rightarrow> tx_input_ref list \<Rightarrow> aux_request_collector \<Rightarrow> aux_request_collector" where
  "bridge_pre_process_txs env [] c = c"
| "bridge_pre_process_txs env (tx # txs) c =
     bridge_pre_process_txs env txs
       (case bridge_parse_tx env tx of Some parsed \<Rightarrow> preprocess_parsed_tx parsed c | None \<Rightarrow> c)"

fun bridge_handle_txs ::
  "'e bridge_env_scheme \<Rightarrow> claim_version \<Rightarrow> verified_aux_data \<Rightarrow> tx_input_ref list \<Rightarrow> bridge_state \<Rightarrow> relayer
     \<Rightarrow> (bridge_state \<times> relayer) option" where
  "bridge_handle_txs env version aux [] s r = Some (s, r)"
| "bridge_handle_txs env version aux (tx # txs) s r =
     (case bridge_parse_tx env tx of
        None \<Rightarrow> bridge_handle_txs env version aux txs s r
      | Some parsed \<Rightarrow>
          (case handle_parsed_tx env version aux parsed s r of
             None \<Rightarrow> None
           | Some ((s', r'), _) \<Rightarrow> bridge_handle_txs env version aux txs s' r'))"

definition bridge_process_txs ::
  "'b btc_env_scheme \<Rightarrow> 'e bridge_env_scheme \<Rightarrow> claim_version \<Rightarrow> header_verification_state \<Rightarrow> verified_aux_data
     \<Rightarrow> tx_input_ref list \<Rightarrow> bridge_state \<Rightarrow> relayer \<Rightarrow> (bridge_state \<times> relayer) option" where
  "bridge_process_txs benv env version header_vs aux txs s r =
     do {
       (s1, r1) \<leftarrow> bridge_handle_txs env version aux txs s r;
       (s2, reassigned_entries) \<leftarrow> br_reassign_expired_assignments env (hvs_last_verified_block header_vs) s1;
       (case reassigned_entries of
          Err _ \<Rightarrow> None
        | Ok _ \<Rightarrow>
            Some (s2, emit_log (ExportExtraDataUpdate bridge_subprotocol_id
                          (work_to_le_bytes benv (hvs_total_accumulated_pow header_vs))) r1))
     }"

fun dispatch_intents ::
  "'e bridge_env_scheme \<Rightarrow> l1_block_commitment \<Rightarrow> withdrawal_intent list \<Rightarrow> bridge_state
     \<Rightarrow> (withdrawal_assignment_error, bridge_state) result option" where
  "dispatch_intents env l1ref [] s = Some (Ok s)"
| "dispatch_intents env l1ref (intent # intents) s =
     (case create_withdrawal_assignment env intent l1ref s of
        None \<Rightarrow> None
      | Some (Err e) \<Rightarrow> Some (Err e)
      | Some (Ok assignment) \<Rightarrow>
          (case insert_withdrawal_assignment assignment s of
             None \<Rightarrow> None
           | Some s' \<Rightarrow> dispatch_intents env l1ref intents s'))"

definition dispatch_withdrawal ::
  "'e bridge_env_scheme \<Rightarrow> l1_block_commitment \<Rightarrow> withdrawal_intent \<Rightarrow> bridge_state \<Rightarrow> bridge_state option" where
  "dispatch_withdrawal env l1ref payload s =
     (case decompose payload (br_denomination s) of
        None \<Rightarrow> None
      | Some intents \<Rightarrow>
          (case dispatch_intents env l1ref intents s of
             Some (Ok s') \<Rightarrow> Some s'
           | _ \<Rightarrow> None))"

definition bridge_process_msg ::
  "'e bridge_env_scheme \<Rightarrow> l1_block_commitment \<Rightarrow> bridge_incoming_msg \<Rightarrow> bridge_state \<Rightarrow> bridge_state option" where
  "bridge_process_msg env l1ref msg s =
     (case msg of
        DispatchWithdrawal payload \<Rightarrow> dispatch_withdrawal env l1ref payload s
      | UpdateOperatorSet add_members remove_members \<Rightarrow>
          apply_operator_set_update env add_members remove_members s
      | UpdateSafeHarborAddress address \<Rightarrow> Some (fst (update_safe_harbor_address address s))
      | Defcon \<Rightarrow> Some (activate_safe_harbor s))"

fun bridge_process_msgs ::
  "'e bridge_env_scheme \<Rightarrow> l1_block_commitment \<Rightarrow> bridge_incoming_msg list \<Rightarrow> bridge_state
     \<Rightarrow> bridge_state option" where
  "bridge_process_msgs env l1ref [] s = Some s"
| "bridge_process_msgs env l1ref (msg # msgs) s =
     do { s' \<leftarrow> bridge_process_msg env l1ref msg s; bridge_process_msgs env l1ref msgs s' }"

section \<open>Effects of the handlers\<close>

abbreviation nn_count :: "bridge_state \<Rightarrow> nat" where
  "nn_count s \<equiv> length (ot_nn_scripts (br_operators s))"

lemma handle_deposit_OkD:
  assumes inv: "bridge_inv env s" and run: "handle_deposit env aux info s r = Some ((s', r'), Ok ())"
  shows "add_deposit info s = Some (Ok s')" and "di_amt info = br_denomination s"
    and "di_locked_script info = hs_script (last (ot_nn_scripts (br_operators s)))"
    and "\<exists>drt_tx drt. get_bitcoin_tx aux (op_txid (di_drt_inpoint info)) = Ok drt_tx \<and> parse_drt env drt_tx = Ok drt
      \<and> to_script_pubkey (dri_output drt) = create_deposit_request_locking_script env
          (drt_recovery_pk (dri_header_aux drt)) (ot_agg_key (br_operators s)) (br_recovery_delay s)
      \<and> rl_msgs r' = rl_msgs r @ [CheckpointMsg (DepositProcessed (br_denomination s))]
      \<and> rl_logs r' = rl_logs r @ [DepositLog (drt_destination (dri_header_aux drt)) (br_denomination s)]"
proof -
  have cur: "current_nn_script (br_operators s) = Some (last (ot_nn_scripts (br_operators s)))"
    using bridge_invD(2) [OF inv] by (simp add: current_nn_script_def nnh_current_def)
  show "add_deposit info s = Some (Ok s')" "di_amt info = br_denomination s"
    "di_locked_script info = hs_script (last (ot_nn_scripts (br_operators s)))"
    "\<exists>drt_tx drt. get_bitcoin_tx aux (op_txid (di_drt_inpoint info)) = Ok drt_tx \<and> parse_drt env drt_tx = Ok drt
      \<and> to_script_pubkey (dri_output drt) = create_deposit_request_locking_script env
          (drt_recovery_pk (dri_header_aux drt)) (ot_agg_key (br_operators s)) (br_recovery_delay s)
      \<and> rl_msgs r' = rl_msgs r @ [CheckpointMsg (DepositProcessed (br_denomination s))]
      \<and> rl_logs r' = rl_logs r @ [DepositLog (drt_destination (dri_header_aux drt)) (br_denomination s)]"
    using run cur
    by (auto simp: handle_deposit_def validate_deposit_info_def Let_def split: sum.splits bind_splits if_splits)
qed

lemma assignee_registered:
  assumes inv: "bridge_inv env s" and a: "a \<in> set (at_assignments (br_assignments s))"
  shows "get_operator (br_operators s) (ae_current_assignee a) \<noteq> None"
proof -
  obtain c where c: "nnh_get (ot_nn_scripts (br_operators s)) (ae_notary_set a) = Some c"
    "bm_is_active (hs_operators c) (ae_current_assignee a)"
    using inv a by (auto simp: bridge_inv_def entry_ok_def)
  have "c \<in> set (ot_nn_scripts (br_operators s))"
    using c(1) by (auto simp: nnh_get_def slice_get_def split: if_splits)
  then have "length (hs_operators c) \<le> unat (ot_next_idx (br_operators s))"
    using bridge_invD(1) [OF inv] by (auto simp: operator_table_inv_def config_ok_def)
  then have "ae_current_assignee a < ot_next_idx (br_operators s)"
    using bm_is_active_lt [OF c(2)] by (simp add: word_less_nat_alt)
  then show ?thesis
    using bridge_invD(1) [OF inv] by (simp add: operator_table_inv_def get_operator_registry)
qed

lemma handle_withdrawal_fulfillment_cases:
  assumes inv: "bridge_inv env s"
  shows "(\<exists>e. handle_withdrawal_fulfillment env version info s r = Some ((s, r), Err (WithdrawalTxProcess e)))
    \<or> (\<exists>a leaf. get_assignment (wfi_deposit_idx info) (br_assignments s) = Some a
        \<and> wfi_amount info = net_amount a
        \<and> wfi_destination info = descriptor_to_script env (wo_destination (ae_withdrawal_output a))
        \<and> export_leaf env version (br_operators s) (wfi_deposit_idx info) (ae_current_assignee a) = Some leaf
        \<and> handle_withdrawal_fulfillment env version info s r =
            Some ((fst (br_remove_assignment (wfi_deposit_idx info) s),
                   emit_log (NewExportEntry bridge_subprotocol_id leaf) r), Ok ()))"
proof (cases "validate_withdrawal_fulfillment_info env s info")
  case (Inl e)
  then show ?thesis by (simp add: handle_withdrawal_fulfillment_def)
next
  case (Inr u)
  then obtain a where a: "get_assignment (wfi_deposit_idx info) (br_assignments s) = Some a"
    "wfi_amount info = net_amount a"
    "wfi_destination info = descriptor_to_script env (wo_destination (ae_withdrawal_output a))"
    by (auto simp: validate_withdrawal_fulfillment_info_def Let_def split: option.splits if_splits)
  then have "a \<in> set (at_assignments (br_assignments s))"
    using get_assignment_iff [OF bridge_invD(4) [OF inv]] by auto
  then obtain op where op: "get_operator (br_operators s) (ae_current_assignee a) = Some op"
    using assignee_registered [OF inv] by blast
  then obtain leaf where leaf:
    "export_leaf env version (br_operators s) (wfi_deposit_idx info) (ae_current_assignee a) = Some leaf"
    by (cases version) (auto simp: export_leaf_def)
  have "br_operators (fst (br_remove_assignment (wfi_deposit_idx info) s)) = br_operators s"
    by (simp add: br_remove_assignment_def Let_def)
  then show ?thesis using Inr a leaf br_remove_assignment_spec(1) [OF inv, of "wfi_deposit_idx info"]
    by (auto simp: handle_withdrawal_fulfillment_def Let_def)
qed

lemma remove_operator_frame:
  assumes inv: "bridge_inv env s" and run: "remove_operator env i s = Some s'"
  shows "\<exists>t. s' = s\<lparr>br_operators := t\<rparr> \<and> length (ot_nn_scripts t) \<le> Suc (nn_count s)
    \<and> (\<forall>j. bm_is_active (initial_active t) j \<longleftrightarrow> bm_is_active (initial_active (br_operators s)) j \<and> j \<noteq> i)"
proof -
  obtain t where t: "apply_membership_changes env [] [i] (br_operators s) = Some t" "s' = s\<lparr>br_operators := t\<rparr>"
    using run by (auto simp: remove_operator_def)
  note S = apply_membership_changes_spec [OF bridge_invD(1) [OF inv] t(1)]
  have reg: "registry_inv t" "registry_inv (br_operators s)"
    "oe_musig2_pk ` set (ot_operators t) = oe_musig2_pk ` set (ot_operators (br_operators s))"
    using S bridge_invD(1) [OF inv] by (auto simp: operator_table_inv_def)
  have card: "card (oe_musig2_pk ` set (ot_operators x)) = unat (ot_next_idx x)" if "registry_inv x" for x
    using registry_length [OF that] that distinct_card [of "map oe_musig2_pk (ot_operators x)"]
    by (simp add: registry_inv_def)
  have "ot_next_idx t = ot_next_idx (br_operators s)"
    using card [OF reg(1)] card [OF reg(2)] reg(3) by (simp add: word_unat_eq_iff)
  then have act: "\<forall>j. bm_is_active (initial_active t) j \<longleftrightarrow> bm_is_active (initial_active (br_operators s)) j \<and> j \<noteq> i"
    using S by auto
  obtain rec where "ot_nn_scripts t = ot_nn_scripts (br_operators s) @ rec" "length rec \<le> 1" using S by blast
  then show ?thesis using t(2) act by auto
qed

lemma handle_slash_OkD:
  assumes "handle_slash env aux info s r = Some ((s', r'), res)"
  shows "(if res = Ok () then remove_operator env (si_operator_idx info) s = Some s' else s' = s) \<and> r' = r"
proof (cases "get_bitcoin_txout aux (si_stake_inpoint info)")
  case (Inl e)
  then show ?thesis using assms by (simp add: handle_slash_def)
next
  case (Inr out)
  then show ?thesis using assms
    by (cases "validate_slash_stake_connector s (si_operator_idx info) (to_script_pubkey out)";
        cases "remove_operator env (si_operator_idx info) s") (auto simp: handle_slash_def)
qed

lemma handle_unstake_OkD:
  assumes "handle_unstake env aux info s r = Some ((s', r'), res)"
  shows "(if res = Ok () then remove_operator env (ui_operator_idx info) s = Some s' else s' = s) \<and> r' = r"
proof (cases "get_bitcoin_txout aux (ui_stake_inpoint info)")
  case (Inl e)
  then show ?thesis using assms by (simp add: handle_unstake_def)
next
  case (Inr out)
  then show ?thesis using assms
    by (cases "validate_unstake_info env s info (to_script_pubkey out)";
        cases "remove_operator env (ui_operator_idx info) s") (auto simp: handle_unstake_def)
qed

lemmas handle_removal_OkD = handle_slash_OkD handle_unstake_OkD

lemma handle_deposit_ErrD:
  "handle_deposit env aux info s r = Some ((s', r'), Err e) \<Longrightarrow> s' = s \<and> r' = r"
  by (auto simp: handle_deposit_def split: sum.splits bind_splits)

lemma handle_parsed_tx_ErrD:
  assumes inv: "bridge_inv env s" and run: "handle_parsed_tx env version aux parsed s r = Some ((s', r'), Err e)"
  shows "s' = s \<and> r' = r"
proof (cases parsed)
  case (ParsedDeposit info)
  then show ?thesis using run by (intro handle_deposit_ErrD) (simp add: handle_parsed_tx_def)
next
  case (ParsedWithdrawalFulfillment info)
  then have h: "handle_withdrawal_fulfillment env version info s r = Some ((s', r'), Err e)"
    using run by (simp add: handle_parsed_tx_def)
  then show ?thesis using handle_withdrawal_fulfillment_cases [OF inv, of version info r] by auto
next
  case (ParsedSlash info)
  then show ?thesis using run handle_removal_OkD(1) [of env aux info s r s' r' "Err e"]
    by (simp add: handle_parsed_tx_def)
next
  case (ParsedUnstake info)
  then show ?thesis using run handle_removal_OkD(2) [of env aux info s r s' r' "Err e"]
    by (simp add: handle_parsed_tx_def)
qed

lemma add_deposit_frame: "bridge_inv env s \<Longrightarrow> add_deposit info s = Some (Ok s') \<Longrightarrow>
    br_operators s' = br_operators s \<and> br_denomination s' = br_denomination s
    \<and> br_assignments s' = br_assignments s \<and> length (br_deposits s') = Suc (length (br_deposits s))"
  using add_deposit_cases [of env s info] by (auto split: if_splits)

lemma handle_parsed_tx_inv:
  assumes inv: "bridge_inv env s" and room: "nn_count s < 2 ^ 32"
    and run: "handle_parsed_tx env version aux parsed s r = Some ((s', r'), res)"
  shows "bridge_inv env s' \<and> nn_count s' \<le> Suc (nn_count s) \<and> br_denomination s' = br_denomination s"
proof (cases res)
  case (Inl e)
  then show ?thesis using handle_parsed_tx_ErrD [OF inv run [unfolded Inl]] inv by simp
next
  case (Inr u)
  have rem: "?thesis" if rm: "remove_operator env i s = Some s'" for i
  proof -
    obtain t where "s' = s\<lparr>br_operators := t\<rparr>" "length (ot_nn_scripts t) \<le> Suc (nn_count s)"
      using remove_operator_frame [OF inv rm] by blast
    then show ?thesis using remove_operator_inv [OF inv room rm] by simp
  qed
  show ?thesis
  proof (cases parsed)
    case (ParsedDeposit info)
    then have "handle_deposit env aux info s r = Some ((s', r'), Ok ())"
      using run Inr by (simp add: handle_parsed_tx_def)
    note D = handle_deposit_OkD(1,2) [OF inv this]
    show ?thesis using add_deposit_inv [OF inv D] add_deposit_frame [OF inv D(1)] by simp
  next
    case (ParsedWithdrawalFulfillment info)
    then have h: "handle_withdrawal_fulfillment env version info s r = Some ((s', r'), Ok ())"
      using run Inr by (simp add: handle_parsed_tx_def)
    then have "s' = fst (br_remove_assignment (wfi_deposit_idx info) s)"
      using handle_withdrawal_fulfillment_cases [OF inv, of version info r] by auto
    then show ?thesis using br_remove_assignment_spec [OF inv, of "wfi_deposit_idx info"] by simp
  next
    case (ParsedSlash info)
    then have "remove_operator env (si_operator_idx info) s = Some s'"
      using run Inr handle_removal_OkD(1) [of env aux info s r s' r' res] by (simp add: handle_parsed_tx_def)
    then show ?thesis by (rule rem)
  next
    case (ParsedUnstake info)
    then have "remove_operator env (ui_operator_idx info) s = Some s'"
      using run Inr handle_removal_OkD(2) [of env aux info s r s' r' res] by (simp add: handle_parsed_tx_def)
    then show ?thesis by (rule rem)
  qed
qed

lemma bridge_handle_txs_inv:
  "bridge_inv env s \<Longrightarrow> nn_count s + length txs \<le> 2 ^ 32 \<Longrightarrow>
     bridge_handle_txs env version aux txs s r = Some (s', r') \<Longrightarrow>
     bridge_inv env s' \<and> nn_count s' \<le> nn_count s + length txs \<and> br_denomination s' = br_denomination s"
proof (induction txs arbitrary: s r)
  case (Cons tx txs)
  show ?case
  proof (cases "bridge_parse_tx env tx")
    case None
    then show ?thesis using Cons.IH [of s r] Cons.prems by auto
  next
    case (Some parsed)
    then obtain s1 r1 res where h: "handle_parsed_tx env version aux parsed s r = Some ((s1, r1), res)"
      "bridge_handle_txs env version aux txs s1 r1 = Some (s', r')"
      using Cons.prems(3) by (auto split: option.splits)
    have room: "nn_count s < 2 ^ 32" using Cons.prems(2) by simp
    note S = handle_parsed_tx_inv [OF Cons.prems(1) room h(1)]
    have "bridge_inv env s' \<and> nn_count s' \<le> nn_count s1 + length txs \<and> br_denomination s' = br_denomination s1"
      using Cons.IH [OF conjunct1 [OF S] _ h(2)] S Cons.prems(2) by simp
    then show ?thesis using S by simp
  qed
qed simp

lemma bridge_process_txs_inv:
  assumes inv: "bridge_inv env s" and room: "nn_count s + length txs \<le> 2 ^ 32"
    and run: "bridge_process_txs benv env version hv aux txs s r = Some (s', r')"
  shows "bridge_inv env s' \<and> br_denomination s' = br_denomination s \<and> nn_count s' \<le> nn_count s + length txs"
proof -
  obtain s1 r1 l where h: "bridge_handle_txs env version aux txs s r = Some (s1, r1)"
    "br_reassign_expired_assignments env (hvs_last_verified_block hv) s1 = Some (s', Ok l)"
    using run by (auto simp: bridge_process_txs_def split: bind_splits sum.splits)
  note S = bridge_handle_txs_inv [OF inv room h(1)]
  then show ?thesis
    using br_reassign_inv [OF conjunct1 [OF S] h(2)] br_reassign_cases [OF conjunct1 [OF S], of "hvs_last_verified_block hv"] h(2)
    by auto
qed

section \<open>Dispatching withdrawals\<close>

definition deposit_serviceable :: "bridge_state \<Rightarrow> deposit_entry \<Rightarrow> bool" where
  "deposit_serviceable s d \<longleftrightarrow>
     (\<exists>config i. nnh_get (ot_nn_scripts (br_operators s)) (de_notary_set d) = Some config
        \<and> bm_is_active (hs_operators config) i \<and> bm_is_active (initial_active (br_operators s)) i)"

lemma dispatch_intents_nil:
  "br_deposits s = [] \<Longrightarrow> dispatch_intents env blk (w # ws) s = Some (Err NoUnassignedDeposits)"
  by (simp add: create_withdrawal_assignment_def oldest_deposit_def slice_get_def)

lemma dispatch_intents_cons:
  assumes inv: "bridge_inv env s" and dep: "br_deposits s = d # ds" and amt: "wi_amt w = br_denomination s"
  shows "(\<not> deposit_serviceable s d \<and> (\<exists>x. dispatch_intents env blk (w # ws) s = Some (Err x)))
    \<or> (\<exists>a. dispatch_intents env blk (w # ws) s = dispatch_intents env blk ws
          (s\<lparr>br_deposits := ds, br_assignments := (br_assignments s)\<lparr>at_assignments :=
              sv_insert ae_deposit_idx a (at_assignments (br_assignments s))\<rparr>\<rparr>)
        \<and> bridge_inv env (s\<lparr>br_deposits := ds, br_assignments := (br_assignments s)\<lparr>at_assignments :=
              sv_insert ae_deposit_idx a (at_assignments (br_assignments s))\<rparr>\<rparr>))"
proof -
  note C = create_withdrawal_assignment_cases [OF inv dep amt, of blk]
  obtain r where r: "create_withdrawal_assignment env w blk s = Some r" using C by blast
  show ?thesis
  proof (cases r)
    case (Inl x)
    have "\<not> deposit_serviceable s d" using C r Inl by (auto simp: deposit_serviceable_def)
    then show ?thesis using r Inl by simp
  next
    case (Inr a)
    have a: "ae_deposit_entry a = d" "entry_ok (ot_nn_scripts (br_operators s)) a"
      "wo_amt (ae_withdrawal_output a) = br_denomination s"
      using C r Inr amt by (auto simp: to_output_def)
    note ins = insert_withdrawal_assignment_spec [OF inv dep a(1)]
    show ?thesis
      using r Inr ins insert_withdrawal_assignment_inv [OF inv dep a ins]
      by (intro disjI2 exI [of _ a]) simp
  qed
qed

lemma dispatch_intents_OkD:
  "bridge_inv env s \<Longrightarrow> \<forall>w\<in>set ws. wi_amt w = br_denomination s \<Longrightarrow>
     dispatch_intents env blk ws s = Some (Ok s') \<Longrightarrow>
     bridge_inv env s' \<and> br_operators s' = br_operators s \<and> br_denomination s' = br_denomination s
      \<and> length ws \<le> length (br_deposits s) \<and> br_deposits s' = drop (length ws) (br_deposits s)
      \<and> length (at_assignments (br_assignments s')) = length (at_assignments (br_assignments s)) + length ws"
proof (induction ws arbitrary: s)
  case (Cons w ws)
  note IH = Cons.IH and inv = Cons.prems(1) and amt = Cons.prems(2) and run = Cons.prems(3)
  obtain d ds where dep: "br_deposits s = d # ds"
    using run dispatch_intents_nil [of s env blk w ws] by (cases "br_deposits s") auto
  obtain a where a: "dispatch_intents env blk ws (s\<lparr>br_deposits := ds, br_assignments :=
      (br_assignments s)\<lparr>at_assignments := sv_insert ae_deposit_idx a (at_assignments (br_assignments s))\<rparr>\<rparr>) = Some (Ok s')"
    "bridge_inv env (s\<lparr>br_deposits := ds, br_assignments := (br_assignments s)\<lparr>at_assignments :=
              sv_insert ae_deposit_idx a (at_assignments (br_assignments s))\<rparr>\<rparr>)"
    using dispatch_intents_cons [OF inv dep, of w blk ws] amt run by auto
  from IH [OF a(2) _ a(1)] show ?case using amt dep by simp
qed simp

lemma dispatch_intents_succeeds:
  "bridge_inv env s \<Longrightarrow> \<forall>w\<in>set ws. wi_amt w = br_denomination s \<Longrightarrow> length ws \<le> length (br_deposits s) \<Longrightarrow>
     \<forall>d\<in>set (br_deposits s). deposit_serviceable s d \<Longrightarrow> \<exists>s'. dispatch_intents env blk ws s = Some (Ok s')"
proof (induction ws arbitrary: s)
  case (Cons w ws)
  note IH = Cons.IH and inv = Cons.prems(1) and amt = Cons.prems(2) and srv = Cons.prems(4)
  obtain d ds where dep: "br_deposits s = d # ds" using Cons.prems(3) by (cases "br_deposits s") auto
  obtain s1 where s1: "dispatch_intents env blk (w # ws) s = dispatch_intents env blk ws s1" "bridge_inv env s1"
    "br_deposits s1 = ds" "br_denomination s1 = br_denomination s" "br_operators s1 = br_operators s"
    using dispatch_intents_cons [OF inv dep, of w blk ws] amt srv dep by fastforce
  have "\<forall>d\<in>set (br_deposits s1). deposit_serviceable s1 d"
    using srv s1(3,5) dep by (simp add: deposit_serviceable_def)
  then show ?case unfolding s1(1) using IH [OF s1(2)] amt s1(3,4) dep Cons.prems(3) by simp
qed simp

lemma decompose_eq:
  "decompose w d = map_option (\<lambda>n. replicate (unat n) (w\<lparr>wi_amt := d\<rparr>)) (denomination_units w d)"
  by (cases "denomination_units w d") (simp_all add: decompose_def)

lemma decompose_SomeD:
  "decompose w d = Some ws \<Longrightarrow> \<exists>n. denomination_units w d = Some n \<and> ws = replicate (unat n) (w\<lparr>wi_amt := d\<rparr>)"
  by (auto simp: decompose_eq)

lemma dispatch_withdrawal_OkD:
  assumes inv: "bridge_inv env s" and run: "dispatch_withdrawal env blk w s = Some s'"
  shows "\<exists>n. denomination_units w (br_denomination s) = Some n
    \<and> bridge_inv env s' \<and> br_operators s' = br_operators s \<and> br_denomination s' = br_denomination s
    \<and> unat n \<le> length (br_deposits s) \<and> br_deposits s' = drop (unat n) (br_deposits s)
    \<and> length (at_assignments (br_assignments s')) = length (at_assignments (br_assignments s)) + unat n"
proof -
  obtain ws where ws: "decompose w (br_denomination s) = Some ws" "dispatch_intents env blk ws s = Some (Ok s')"
    using run by (auto simp: dispatch_withdrawal_def split: option.splits sum.splits)
  obtain n where n: "denomination_units w (br_denomination s) = Some n"
    "ws = replicate (unat n) (w\<lparr>wi_amt := br_denomination s\<rparr>)"
    using decompose_SomeD [OF ws(1)] by blast
  have "\<forall>x\<in>set ws. wi_amt x = br_denomination s" using n(2) by simp
  from dispatch_intents_OkD [OF inv this ws(2)] show ?thesis using n by simp
qed

lemma dispatch_withdrawal_succeeds:
  assumes inv: "bridge_inv env s" and n: "denomination_units w (br_denomination s) = Some n"
    and enough: "unat n \<le> length (br_deposits s)" and srv: "\<forall>d\<in>set (br_deposits s). deposit_serviceable s d"
  shows "\<exists>s'. dispatch_withdrawal env blk w s = Some s'"
proof -
  let ?ws = "replicate (unat n) (w\<lparr>wi_amt := br_denomination s\<rparr>)"
  have "\<forall>x\<in>set ?ws. wi_amt x = br_denomination s" by simp
  from dispatch_intents_succeeds [OF inv this _ srv] enough
  obtain s' where "dispatch_intents env blk ?ws s = Some (Ok s')" by auto
  then show ?thesis using n by (simp add: dispatch_withdrawal_def decompose_eq)
qed

lemma apply_update_frame:
  assumes inv: "bridge_inv env s" and run: "apply_operator_set_update env add rem s = Some s'"
  shows "\<exists>t. s' = s\<lparr>br_operators := t\<rparr> \<and> length (ot_nn_scripts t) \<le> Suc (nn_count s)"
proof -
  obtain t where t: "apply_membership_changes env add rem (br_operators s) = Some t" "s' = s\<lparr>br_operators := t\<rparr>"
    using run by (auto simp: apply_operator_set_update_def)
  obtain rec where "ot_nn_scripts t = ot_nn_scripts (br_operators s) @ rec" "length rec \<le> 1"
    using apply_membership_changes_spec [OF bridge_invD(1) [OF inv] t(1)] by blast
  then show ?thesis using t(2) by auto
qed

lemma bridge_process_msg_inv:
  assumes inv: "bridge_inv env s" and room: "nn_count s < 2 ^ 32"
    and run: "bridge_process_msg env blk msg s = Some s'"
  shows "bridge_inv env s' \<and> nn_count s' \<le> Suc (nn_count s) \<and> br_denomination s' = br_denomination s"
proof (cases msg)
  case (DispatchWithdrawal w)
  then have "dispatch_withdrawal env blk w s = Some s'" using run by (simp add: bridge_process_msg_def)
  from dispatch_withdrawal_OkD [OF inv this] show ?thesis by auto
next
  case (UpdateOperatorSet add rem)
  then have u: "apply_operator_set_update env add rem s = Some s'" using run by (simp add: bridge_process_msg_def)
  show ?thesis using apply_update_frame [OF inv u] apply_operator_set_update_inv [OF inv room u] by auto
next
  case (UpdateSafeHarborAddress a)
  then have "s' = fst (update_safe_harbor_address a s)" using run by (simp add: bridge_process_msg_def)
  then show ?thesis using safe_harbor_ops_inv(2) [OF inv, of a]
    by (simp add: update_safe_harbor_address_def Let_def split: if_splits)
next
  case Defcon
  then have "s' = activate_safe_harbor s" using run by (simp add: bridge_process_msg_def)
  then show ?thesis using safe_harbor_ops_inv(1) [OF inv] by (simp add: activate_safe_harbor_def)
qed

lemma bridge_process_msgs_inv:
  "bridge_inv env s \<Longrightarrow> nn_count s + length msgs \<le> 2 ^ 32 \<Longrightarrow> bridge_process_msgs env blk msgs s = Some s' \<Longrightarrow>
     bridge_inv env s' \<and> nn_count s' \<le> nn_count s + length msgs \<and> br_denomination s' = br_denomination s"
proof (induction msgs arbitrary: s)
  case (Cons msg msgs)
  obtain s1 where s1: "bridge_process_msg env blk msg s = Some s1" "bridge_process_msgs env blk msgs s1 = Some s'"
    using Cons.prems(3) by (auto split: bind_splits)
  note S = bridge_process_msg_inv [OF Cons.prems(1) _ s1(1)]
  have "bridge_inv env s1 \<and> nn_count s1 \<le> Suc (nn_count s) \<and> br_denomination s1 = br_denomination s"
    using S Cons.prems(2) by simp
  then show ?case using Cons.IH [OF _ _ s1(2)] Cons.prems(2) by simp
qed simp

section \<open>Requested auxiliary data suffices\<close>

lemma get_bitcoin_tx_present: "vad_txs aux t \<noteq> None \<Longrightarrow> \<exists>tx. get_bitcoin_tx aux t = Ok tx"
  by (auto simp: get_bitcoin_tx_def ok_or_def)

lemma handle_deposit_total:
  assumes inv: "bridge_inv env s" and aux: "vad_txs aux (op_txid (di_drt_inpoint info)) \<noteq> None"
  shows "handle_deposit env aux info s r \<noteq> None"
proof -
  obtain tx where tx: "get_bitcoin_tx aux (op_txid (di_drt_inpoint info)) = Ok tx"
    using get_bitcoin_tx_present [OF aux] by blast
  have cur: "current_nn_script (br_operators s) \<noteq> None"
    using bridge_invD(2) [OF inv] by (simp add: current_nn_script_def nnh_current_def)
  obtain a where a: "add_deposit info s = Some a" using add_deposit_cases [OF inv, of info] by blast
  show ?thesis
  proof (cases "parse_drt env tx")
    case (Inl e)
    then show ?thesis using tx by (simp add: handle_deposit_def)
  next
    case (Inr drt)
    obtain v where "validate_deposit_info env s info drt = Some v"
      using cur by (auto simp: validate_deposit_info_def Let_def)
    then show ?thesis using tx Inr a by (cases v) (simp_all add: handle_deposit_def)
  qed
qed

lemma handle_removal_None:
  assumes inv: "bridge_inv env s" and agg: "\<And>ks. ks \<noteq> [] \<Longrightarrow> aggregate_schnorr_keys env ks \<noteq> None"
    and none: "remove_operator env i s = None"
  shows "{j. bm_is_active (initial_active (br_operators s)) j} = {i}"
proof -
  have sub: "{j. bm_is_active (initial_active (br_operators s)) j} \<subseteq> {i}"
    using none removal_only [OF bridge_invD(1) [OF inv] agg bridge_invD(2) [OF inv], of "[i]"]
    by (simp add: remove_operator_def)
  let ?c = "last (ot_nn_scripts (br_operators s))"
  have "?c \<in> set (ot_nn_scripts (br_operators s))" using bridge_invD(2) [OF inv] by simp
  then have "config_ok env (br_operators s) ?c" using bridge_invD(1) [OF inv] by (simp add: operator_table_inv_def)
  then have k: "active_keys (br_operators s) (hs_operators ?c) \<noteq> []"
    "length (hs_operators ?c) \<le> unat (ot_next_idx (br_operators s))" by (simp_all add: config_ok_def)
  have reg: "registry_inv (br_operators s)" using bridge_invD(1) [OF inv] by (simp add: operator_table_inv_def)
  have "initial_active (br_operators s) = hs_operators ?c"
    using bridge_invD(2) [OF inv] by (simp add: initial_active_def)
  then have "\<exists>j. bm_is_active (initial_active (br_operators s)) j"
    using k(1) active_keys_nonempty [OF reg k(2)] by simp
  then show ?thesis using sub by blast
qed

abbreviation recorded_member :: "bridge_state \<Rightarrow> script \<Rightarrow> operator_idx \<Rightarrow> bool" where
  "recorded_member s spk i \<equiv>
     \<exists>c \<in> set (ot_nn_scripts (br_operators s)). hs_script c = spk \<and> bm_is_active (hs_operators c) i"

lemma find_SomeD: "find P xs = Some x \<Longrightarrow> x \<in> set xs \<and> P x"
  by (induction xs) (auto split: if_splits)

lemma removal_frame:
  assumes "bridge_inv env s" and "remove_operator env i s = Some s'"
  shows "bm_is_active (initial_active (br_operators s')) j \<longleftrightarrow> bm_is_active (initial_active (br_operators s)) j \<and> j \<noteq> i"
    and "br_deposits s' = br_deposits s" and "br_assignments s' = br_assignments s"
proof -
  obtain t where t: "s' = s\<lparr>br_operators := t\<rparr>"
    "\<forall>j. bm_is_active (initial_active t) j \<longleftrightarrow> bm_is_active (initial_active (br_operators s)) j \<and> j \<noteq> i"
    using remove_operator_frame [OF assms] by (elim exE conjE)
  show "bm_is_active (initial_active (br_operators s')) j \<longleftrightarrow> bm_is_active (initial_active (br_operators s)) j \<and> j \<noteq> i"
    using spec [OF t(2), of j] t(1) by simp
  show "br_deposits s' = br_deposits s" "br_assignments s' = br_assignments s" using t(1) by simp_all
qed

lemma handle_slash_Ok:
  assumes "handle_slash env aux info s r = Some ((s', r'), Ok ())"
  shows "\<exists>out. get_bitcoin_txout aux (si_stake_inpoint info) = Ok out
    \<and> recorded_member s (to_script_pubkey out) (si_operator_idx info)"
proof (cases "get_bitcoin_txout aux (si_stake_inpoint info)")
  case (Inr out)
  then have "validate_slash_stake_connector s (si_operator_idx info) (to_script_pubkey out) = Ok ()"
    using assms by (cases "validate_slash_stake_connector s (si_operator_idx info) (to_script_pubkey out)")
      (auto simp: handle_slash_def)
  then obtain c where "find (\<lambda>c. hs_script c = to_script_pubkey out) (ot_nn_scripts (br_operators s)) = Some c"
    "bm_is_active (hs_operators c) (si_operator_idx info)"
    by (cases "find (\<lambda>c. hs_script c = to_script_pubkey out) (ot_nn_scripts (br_operators s))")
      (simp_all add: validate_slash_stake_connector_def split: if_splits)
  then show ?thesis using Inr find_SomeD by fastforce
qed (use assms in \<open>simp add: handle_slash_def\<close>)

lemma handle_unstake_Ok:
  assumes "handle_unstake env aux info s r = Some ((s', r'), Ok ())"
  shows "\<exists>out. get_bitcoin_txout aux (ui_stake_inpoint info) = Ok out
    \<and> recorded_member s (build_nn_script env (ui_witness_pushed_pubkey info)) (ui_operator_idx info)
    \<and> to_script_pubkey out
        = expected_stake_connector_script_pubkey env (ui_stake_hash info) (ui_witness_pushed_pubkey info)"
proof (cases "get_bitcoin_txout aux (ui_stake_inpoint info)")
  case (Inr out)
  then have "validate_unstake_info env s info (to_script_pubkey out) = Ok ()"
    using assms by (cases "validate_unstake_info env s info (to_script_pubkey out)") (auto simp: handle_unstake_def)
  moreover from this obtain c where
    "find (\<lambda>c. hs_script c = build_nn_script env (ui_witness_pushed_pubkey info)) (ot_nn_scripts (br_operators s)) = Some c"
    "bm_is_active (hs_operators c) (ui_operator_idx info)"
    by (cases "find (\<lambda>c. hs_script c = build_nn_script env (ui_witness_pushed_pubkey info)) (ot_nn_scripts (br_operators s))")
      (simp_all add: validate_unstake_info_def Let_def split: if_splits)
  ultimately show ?thesis using Inr find_SomeD by (fastforce simp: validate_unstake_info_def Let_def split: if_splits)
qed (use assms in \<open>simp add: handle_unstake_def\<close>)

lemma handle_slash_None:
  assumes "handle_slash env aux info s r = None"
  shows "(\<exists>e. get_bitcoin_txout aux (si_stake_inpoint info) = Err e) \<or> remove_operator env (si_operator_idx info) s = None"
proof (cases "get_bitcoin_txout aux (si_stake_inpoint info)")
  case (Inr out)
  then show ?thesis using assms
    by (cases "validate_slash_stake_connector s (si_operator_idx info) (to_script_pubkey out)";
        cases "remove_operator env (si_operator_idx info) s") (auto simp: handle_slash_def)
qed simp

lemma handle_unstake_None:
  assumes "handle_unstake env aux info s r = None"
  shows "(\<exists>e. get_bitcoin_txout aux (ui_stake_inpoint info) = Err e) \<or> remove_operator env (ui_operator_idx info) s = None"
proof (cases "get_bitcoin_txout aux (ui_stake_inpoint info)")
  case (Inr out)
  then show ?thesis using assms
    by (cases "validate_unstake_info env s info (to_script_pubkey out)";
        cases "remove_operator env (ui_operator_idx info) s") (auto simp: handle_unstake_def)
qed simp

section \<open>Properties\<close>

text \<open>C12: the bridge's invariant survives every block.  Processing the transactions of a block
  (deposits, fulfillments, slashes, unstakes, then the reassignment of expired assignments) and
  processing the messages of the other subprotocols both keep it, as does the initial state have it:
  deposit and assignment indices stay unique and disjoint, everything refers to recorded N/N
  configurations and is worth exactly the denomination, and the operator table stays consistent.
  The bound says that the 32-bit index of the N/N history is not exhausted.\<close>
theorem bridge_blocks_keep_invariant:
  assumes "bridge_inv env s" and "length (ot_nn_scripts (br_operators s)) + length txs + length msgs \<le> 2 ^ 32"
  shows "(bridge_process_txs benv env version header_vs aux txs s r = Some (s', r') \<longrightarrow>
      bridge_inv env s' \<and> br_denomination s' = br_denomination s
      \<and> (bridge_process_msgs env l1ref msgs s' = Some s'' \<longrightarrow>
          bridge_inv env s'' \<and> br_denomination s'' = br_denomination s))
    \<and> (br_new env config = Some s0 \<longrightarrow> bridge_inv env s0)"
proof -
  have "bridge_inv env s' \<and> br_denomination s' = br_denomination s
      \<and> (bridge_process_msgs env l1ref msgs s' = Some s'' \<longrightarrow>
          bridge_inv env s'' \<and> br_denomination s'' = br_denomination s)"
    if run: "bridge_process_txs benv env version header_vs aux txs s r = Some (s', r')"
  proof -
    have T: "bridge_inv env s' \<and> br_denomination s' = br_denomination s \<and> nn_count s' \<le> nn_count s + length txs"
      using bridge_process_txs_inv [OF assms(1) _ run] assms(2) by simp
    then have "nn_count s' + length msgs \<le> 2 ^ 32" using assms(2) by linarith
    then show ?thesis using T bridge_process_msgs_inv [of env s' msgs l1ref s''] by auto
  qed
  then show ?thesis using br_new_inv [of env config s0] by blast
qed

definition no_aux :: verified_aux_data where
  "no_aux = \<lparr>vad_txs = Map.empty, vad_manifest_hashes = Map.empty\<rparr>"

definition idle :: relayer where
  "idle = \<lparr>rl_msgs = [], rl_logs = []\<rparr>"

theorem bridge_blocks_keep_invariant_witness:
  "\<exists>s' r' s''. bridge_process_txs sample_btc_env sample_tx_env ClaimV1 sample_hvs no_aux [] sample_bridge idle
       = Some (s', r')
     \<and> bridge_process_msgs sample_tx_env sample_block [Defcon, DispatchWithdrawal sample_intent] s' = Some s''
     \<and> bridge_inv sample_tx_env s''"
proof -
  let ?run = "bridge_process_txs sample_btc_env sample_tx_env ClaimV1 sample_hvs no_aux [] sample_bridge idle"
  let ?msgs = "[Defcon, DispatchWithdrawal sample_intent]"
  have "(case ?run of Some (s', _) \<Rightarrow> bridge_process_msgs sample_tx_env sample_block ?msgs s' \<noteq> None | None \<Rightarrow> False)"
    by code_simp
  then obtain s' r' s'' where r: "?run = Some (s', r')"
    "bridge_process_msgs sample_tx_env sample_block ?msgs s' = Some s''"
    by (auto split: option.splits)
  have "length (ot_nn_scripts (br_operators sample_bridge)) + length ([] :: tx_input_ref list) + length ?msgs \<le> 2 ^ 32"
    by (simp add: sample_bridge_def sample_table_def)
  from bridge_blocks_keep_invariant [OF sample_bridge_inv this, of sample_btc_env ClaimV1 sample_hvs no_aux idle s' r'
      sample_block s''] r
  show ?thesis by blast
qed

text \<open>C7: an accepted deposit is real, exclusive and announced once.  The deposit output is locked to the
  latest N/N script and carries exactly the denomination; the request it spends, taken from verified
  auxiliary data, is locked to the script its own recovery data and the current aggregated key
  determine.  Exactly one unassigned deposit is added, under an index no deposit and no assignment
  had, and exactly one message to the checkpoint subprotocol and one log are emitted.  A rejected
  transaction of any kind leaves state, messages and logs as they were.\<close>
theorem accepted_deposit_is_backed:
  assumes "bridge_inv env s"
  shows "(handle_deposit env aux info s r = Some ((s', r'), Ok ()) \<longrightarrow>
      di_locked_script info = hs_script (last (ot_nn_scripts (br_operators s)))
      \<and> di_amt info = br_denomination s
      \<and> di_deposit_idx info \<notin> de_deposit_idx ` set (br_deposits s)
      \<and> di_deposit_idx info \<notin> ae_deposit_idx ` set (at_assignments (br_assignments s))
      \<and> mset (br_deposits s') = add_mset \<lparr>de_deposit_idx = di_deposit_idx info,
           de_notary_set = of_nat (length (ot_nn_scripts (br_operators s)) - 1), de_amt = br_denomination s\<rparr>
           (mset (br_deposits s))
      \<and> br_assignments s' = br_assignments s \<and> br_operators s' = br_operators s
      \<and> (\<exists>drt_tx drt. get_bitcoin_tx aux (op_txid (di_drt_inpoint info)) = Ok drt_tx \<and> parse_drt env drt_tx = Ok drt
          \<and> to_script_pubkey (dri_output drt) = create_deposit_request_locking_script env
              (drt_recovery_pk (dri_header_aux drt)) (ot_agg_key (br_operators s)) (br_recovery_delay s)
          \<and> rl_msgs r' = rl_msgs r @ [CheckpointMsg (DepositProcessed (br_denomination s))]
          \<and> rl_logs r' = rl_logs r @ [DepositLog (drt_destination (dri_header_aux drt)) (br_denomination s)]))
    \<and> (handle_parsed_tx env version aux parsed s r = Some ((s', r'), Err e) \<longrightarrow> s' = s \<and> r' = r)"
proof (intro conjI impI)
  assume run: "handle_deposit env aux info s r = Some ((s', r'), Ok ())"
  note D = handle_deposit_OkD [OF assms run]
  have add: "di_deposit_idx info \<notin> de_deposit_idx ` set (br_deposits s)"
    "di_deposit_idx info \<notin> ae_deposit_idx ` set (at_assignments (br_assignments s))"
    "s' = s\<lparr>br_deposits := sv_insert de_deposit_idx \<lparr>de_deposit_idx = di_deposit_idx info,
         de_notary_set = of_nat (nn_count s - 1), de_amt = di_amt info\<rparr> (br_deposits s)\<rparr>"
    using add_deposit_cases [OF assms, of info] D(1) by (auto split: if_splits)
  show "di_locked_script info = hs_script (last (ot_nn_scripts (br_operators s)))" by (rule D(3))
  show "di_amt info = br_denomination s" by (rule D(2))
  show "di_deposit_idx info \<notin> de_deposit_idx ` set (br_deposits s)"
    "di_deposit_idx info \<notin> ae_deposit_idx ` set (at_assignments (br_assignments s))" by (rule add)+
  show "mset (br_deposits s') = add_mset \<lparr>de_deposit_idx = di_deposit_idx info,
           de_notary_set = of_nat (nn_count s - 1), de_amt = br_denomination s\<rparr> (mset (br_deposits s))"
    using add(3) D(2) by simp
  show "br_assignments s' = br_assignments s" "br_operators s' = br_operators s" using add(3) by simp_all
  show "\<exists>drt_tx drt. get_bitcoin_tx aux (op_txid (di_drt_inpoint info)) = Ok drt_tx \<and> parse_drt env drt_tx = Ok drt
          \<and> to_script_pubkey (dri_output drt) = create_deposit_request_locking_script env
              (drt_recovery_pk (dri_header_aux drt)) (ot_agg_key (br_operators s)) (br_recovery_delay s)
          \<and> rl_msgs r' = rl_msgs r @ [CheckpointMsg (DepositProcessed (br_denomination s))]
          \<and> rl_logs r' = rl_logs r @ [DepositLog (drt_destination (dri_header_aux drt)) (br_denomination s)]"
    by (rule D(4))
next
  assume "handle_parsed_tx env version aux parsed s r = Some ((s', r'), Err e)"
  from handle_parsed_tx_ErrD [OF assms this] show "s' = s" "r' = r" by auto
qed

definition sample_drt_tx :: transaction where
  "sample_drt_tx = \<lparr>tx_input = [], tx_output = [\<lparr>to_value = 0, to_script_pubkey = replicate 32 5 @ [9]\<rparr>,
     \<lparr>to_value = 100, to_script_pubkey = create_deposit_request_locking_script sample_tx_env
        (replicate 32 5) [10, 11] 144\<rparr>]\<rparr>"

definition sample_aux :: verified_aux_data where
  "sample_aux = \<lparr>vad_txs = [[77] \<mapsto> sample_drt_tx, [78] \<mapsto> \<lparr>tx_input = [],
       tx_output = [\<lparr>to_value = 1, to_script_pubkey = [81, 32, 10, 11]\<rparr>, \<lparr>to_value = 1, to_script_pubkey = [81, 32, 12]\<rparr>]\<rparr>],
     vad_manifest_hashes = Map.empty\<rparr>"

theorem accepted_deposit_is_backed_witness:
  "\<exists>s' r'. handle_deposit sample_tx_env sample_aux
      \<lparr>di_deposit_idx = 5, di_deposit_output = \<lparr>to_value = 100, to_script_pubkey = [81, 32, 10, 11]\<rparr>,
       di_drt_inpoint = \<lparr>op_txid = [77], op_vout = 1\<rparr>\<rparr> sample_bridge idle = Some ((s', r'), Ok ())
     \<and> rl_msgs r' = rl_msgs idle @ [CheckpointMsg (DepositProcessed (br_denomination sample_bridge))]"
proof -
  let ?i = "\<lparr>di_deposit_idx = 5, di_deposit_output = \<lparr>to_value = 100, to_script_pubkey = [81, 32, 10, 11]\<rparr>,
       di_drt_inpoint = \<lparr>op_txid = [77], op_vout = 1\<rparr>\<rparr>"
  have "case handle_deposit sample_tx_env sample_aux ?i sample_bridge idle of
      Some (_, res) \<Rightarrow> is_ok res | None \<Rightarrow> False" by code_simp
  then obtain s' r' where "handle_deposit sample_tx_env sample_aux ?i sample_bridge idle = Some ((s', r'), Ok ())"
    by (cases "handle_deposit sample_tx_env sample_aux ?i sample_bridge idle")
      (auto simp: is_ok_def split: sum.splits)
  then show ?thesis using accepted_deposit_is_backed [OF sample_bridge_inv] by blast
qed

text \<open>C8: a withdrawal is fulfilled at most once, and only by paying what was assigned.  Handling a
  fulfillment never panics: either the transaction is rejected and nothing changes, or it pays the
  assignment's net amount to the assignment's destination, exactly that assignment is removed, one
  export entry naming its current assignee is logged, and the same fulfillment presented again is
  rejected because no assignment is left.\<close>
theorem fulfillment_exactly_once:
  assumes "bridge_inv env s"
  shows "(\<exists>e. handle_withdrawal_fulfillment env version info s r = Some ((s, r), Err (WithdrawalTxProcess e)))
    \<or> (\<exists>a leaf s' r'. handle_withdrawal_fulfillment env version info s r = Some ((s', r'), Ok ())
        \<and> a \<in> set (at_assignments (br_assignments s)) \<and> ae_deposit_idx a = wfi_deposit_idx info
        \<and> wfi_amount info = net_amount a
        \<and> wfi_destination info = descriptor_to_script env (wo_destination (ae_withdrawal_output a))
        \<and> export_leaf env version (br_operators s) (wfi_deposit_idx info) (ae_current_assignee a) = Some leaf
        \<and> rl_logs r' = rl_logs r @ [NewExportEntry 2 leaf] \<and> rl_msgs r' = rl_msgs r
        \<and> bridge_inv env s' \<and> br_deposits s' = br_deposits s \<and> br_operators s' = br_operators s
        \<and> set (at_assignments (br_assignments s')) = set (at_assignments (br_assignments s)) - {a}
        \<and> handle_withdrawal_fulfillment env version info s' r' =
            Some ((s', r'), Err (WithdrawalTxProcess (NoAssignmentFound (wfi_deposit_idx info)))))"
proof (cases "\<exists>e. handle_withdrawal_fulfillment env version info s r = Some ((s, r), Err (WithdrawalTxProcess e))")
  case False
  let ?k = "wfi_deposit_idx info" and ?as = "at_assignments (br_assignments s)"
  obtain a leaf where a: "get_assignment ?k (br_assignments s) = Some a" "wfi_amount info = net_amount a"
    "wfi_destination info = descriptor_to_script env (wo_destination (ae_withdrawal_output a))"
    "export_leaf env version (br_operators s) ?k (ae_current_assignee a) = Some leaf"
    "handle_withdrawal_fulfillment env version info s r =
       Some ((fst (br_remove_assignment ?k s), emit_log (NewExportEntry bridge_subprotocol_id leaf) r), Ok ())"
  proof -
    from handle_withdrawal_fulfillment_cases [OF assms, of version info r] show thesis
    proof (rule disjE)
      assume "\<exists>e. handle_withdrawal_fulfillment env version info s r = Some ((s, r), Err (WithdrawalTxProcess e))"
      with False show thesis by (rule notE)
    qed (elim exE conjE, rule that)
  qed
  define s' where "s' = fst (br_remove_assignment ?k s)"
  have s': "s' = s\<lparr>br_assignments := (br_assignments s)\<lparr>at_assignments := filter (\<lambda>e. ae_deposit_idx e \<noteq> ?k) ?as\<rparr>\<rparr>"
    using br_remove_assignment_spec(1) [OF assms, of ?k] by (simp add: s'_def)
  have inv': "bridge_inv env s'" using br_remove_assignment_spec(2) [OF assms] by (simp add: s'_def)
  have mem: "a \<in> set ?as" "ae_deposit_idx a = ?k" using a(1) get_assignment_iff [OF bridge_invD(4) [OF assms]] by auto
  have uniq: "e = a" if "e \<in> set ?as" "ae_deposit_idx e = ?k" for e
    using that a(1) get_assignment_iff [OF bridge_invD(4) [OF assms], of ?k e] by simp
  have "{e \<in> set ?as. ae_deposit_idx e \<noteq> ?k} = set ?as - {a}" using uniq mem(2) by blast
  then have "set (at_assignments (br_assignments s')) = set ?as - {a}" by (simp add: s')
  moreover have "get_assignment ?k (br_assignments s') = None"
    using assignments.get_None_iff [OF bridge_invD(4) [OF inv'], of ?k] s' by auto
  then have "handle_withdrawal_fulfillment env version info s' x =
      Some ((s', x), Err (WithdrawalTxProcess (NoAssignmentFound ?k)))" for x
    by (simp add: handle_withdrawal_fulfillment_def validate_withdrawal_fulfillment_info_def)
  moreover have "handle_withdrawal_fulfillment env version info s r = Some ((s', emit_log (NewExportEntry 2 leaf) r), Ok ())"
    using a(5) by (simp add: s'_def bridge_subprotocol_id_def)
  moreover have "br_deposits s' = br_deposits s" "br_operators s' = br_operators s" using s' by simp_all
  ultimately have "handle_withdrawal_fulfillment env version info s r = Some ((s', emit_log (NewExportEntry 2 leaf) r), Ok ())
        \<and> a \<in> set ?as \<and> ae_deposit_idx a = ?k \<and> wfi_amount info = net_amount a
        \<and> wfi_destination info = descriptor_to_script env (wo_destination (ae_withdrawal_output a))
        \<and> export_leaf env version (br_operators s) ?k (ae_current_assignee a) = Some leaf
        \<and> rl_logs (emit_log (NewExportEntry 2 leaf) r) = rl_logs r @ [NewExportEntry 2 leaf]
        \<and> rl_msgs (emit_log (NewExportEntry 2 leaf) r) = rl_msgs r
        \<and> bridge_inv env s' \<and> br_deposits s' = br_deposits s \<and> br_operators s' = br_operators s
        \<and> set (at_assignments (br_assignments s')) = set ?as - {a}
        \<and> handle_withdrawal_fulfillment env version info s' (emit_log (NewExportEntry 2 leaf) r) =
            Some ((s', emit_log (NewExportEntry 2 leaf) r), Err (WithdrawalTxProcess (NoAssignmentFound ?k)))"
    using a(2-4) mem inv' by (simp add: relay_simps)
  then show ?thesis by (intro disjI2 exI)
qed simp

theorem fulfillment_exactly_once_witness:
  "\<exists>s' r'. handle_withdrawal_fulfillment sample_tx_env ClaimV1
      \<lparr>wfi_deposit_idx = 2, wfi_destination = [1, 2], wfi_amount = 97\<rparr> sample_bridge idle = Some ((s', r'), Ok ())
     \<and> bridge_inv sample_tx_env s'"
proof -
  let ?i = "\<lparr>wfi_deposit_idx = 2, wfi_destination = [1, 2], wfi_amount = 97\<rparr>"
  have g: "get_assignment 2 (br_assignments sample_bridge) = Some (sample_assignment 2)"
    using get_assignment_iff [OF bridge_invD(4) [OF sample_bridge_inv], of 2 "sample_assignment 2"]
    by (simp add: sample_bridge_def sample_assignment_def ae_deposit_idx_def sample_deposit_def)
  have n: "net_amount (sample_assignment 2) = 97" by code_simp
  have d: "descriptor_to_script sample_tx_env (wo_destination (ae_withdrawal_output (sample_assignment 2))) = [1, 2]"
    by (simp add: sample_assignment_def to_output_def sample_intent_def sample_tx_env_def)
  have "validate_withdrawal_fulfillment_info sample_tx_env sample_bridge ?i = Ok ()"
    using d by (simp add: validate_withdrawal_fulfillment_info_def g n Let_def)
  then have "handle_withdrawal_fulfillment sample_tx_env ClaimV1 ?i sample_bridge idle \<noteq> Some (x, Err e)" for x e
    by (simp add: handle_withdrawal_fulfillment_def Let_def split: Option.bind_splits)
  then show ?thesis
    using fulfillment_exactly_once [OF sample_bridge_inv, of ClaimV1 ?i idle] by blast
qed

text \<open>C22: an operator leaves the multisig only through a proof tied to a recorded configuration.  A
  slash that takes effect spends an output locked to the script of a recorded N/N configuration of
  which the operator is a member; an unstake that takes effect names, through its witness key, such a
  configuration and spends the stake connector derived from that key.  The operator is then inactive,
  every other operator keeps its status, and deposits, assignments, messages and logs are untouched.\<close>
theorem operator_exit_is_authorised:
  assumes "bridge_inv env s"
  shows "(handle_slash env aux sinfo s r = Some ((s', r'), Ok ()) \<longrightarrow>
      (\<exists>out. get_bitcoin_txout aux (si_stake_inpoint sinfo) = Ok out
        \<and> (\<exists>c \<in> set (ot_nn_scripts (br_operators s)). hs_script c = to_script_pubkey out
            \<and> bm_is_active (hs_operators c) (si_operator_idx sinfo)))
      \<and> (\<forall>j. bm_is_active (initial_active (br_operators s')) j
            \<longleftrightarrow> bm_is_active (initial_active (br_operators s)) j \<and> j \<noteq> si_operator_idx sinfo)
      \<and> br_deposits s' = br_deposits s \<and> br_assignments s' = br_assignments s \<and> r' = r)
    \<and> (handle_unstake env aux uinfo s r = Some ((s', r'), Ok ()) \<longrightarrow>
      (\<exists>out. get_bitcoin_txout aux (ui_stake_inpoint uinfo) = Ok out
        \<and> (\<exists>c \<in> set (ot_nn_scripts (br_operators s)). hs_script c = build_nn_script env (ui_witness_pushed_pubkey uinfo)
            \<and> bm_is_active (hs_operators c) (ui_operator_idx uinfo))
        \<and> to_script_pubkey out
            = expected_stake_connector_script_pubkey env (ui_stake_hash uinfo) (ui_witness_pushed_pubkey uinfo))
      \<and> (\<forall>j. bm_is_active (initial_active (br_operators s')) j
            \<longleftrightarrow> bm_is_active (initial_active (br_operators s)) j \<and> j \<noteq> ui_operator_idx uinfo)
      \<and> br_deposits s' = br_deposits s \<and> br_assignments s' = br_assignments s \<and> r' = r)"
proof (intro conjI [where Q = "_ \<longrightarrow> _"] impI)
  assume run: "handle_slash env aux sinfo s r = Some ((s', r'), Ok ())"
  have rm: "remove_operator env (si_operator_idx sinfo) s = Some s'" "r' = r"
    using handle_slash_OkD [OF run] by simp_all
  note F = removal_frame [OF assms rm(1)]
  show "(\<exists>out. get_bitcoin_txout aux (si_stake_inpoint sinfo) = Ok out
        \<and> recorded_member s (to_script_pubkey out) (si_operator_idx sinfo))
      \<and> (\<forall>j. bm_is_active (initial_active (br_operators s')) j
            \<longleftrightarrow> bm_is_active (initial_active (br_operators s)) j \<and> j \<noteq> si_operator_idx sinfo)
      \<and> br_deposits s' = br_deposits s \<and> br_assignments s' = br_assignments s \<and> r' = r"
    by (intro conjI allI handle_slash_Ok [OF run] F rm)
next
  assume run: "handle_unstake env aux uinfo s r = Some ((s', r'), Ok ())"
  have rm: "remove_operator env (ui_operator_idx uinfo) s = Some s'" "r' = r"
    using handle_unstake_OkD [OF run] by simp_all
  note F = removal_frame [OF assms rm(1)]
  show "(\<exists>out. get_bitcoin_txout aux (ui_stake_inpoint uinfo) = Ok out
        \<and> recorded_member s (build_nn_script env (ui_witness_pushed_pubkey uinfo)) (ui_operator_idx uinfo)
        \<and> to_script_pubkey out
            = expected_stake_connector_script_pubkey env (ui_stake_hash uinfo) (ui_witness_pushed_pubkey uinfo))
      \<and> (\<forall>j. bm_is_active (initial_active (br_operators s')) j
            \<longleftrightarrow> bm_is_active (initial_active (br_operators s)) j \<and> j \<noteq> ui_operator_idx uinfo)
      \<and> br_deposits s' = br_deposits s \<and> br_assignments s' = br_assignments s \<and> r' = r"
    by (intro conjI allI handle_unstake_Ok [OF run] F rm)
qed

theorem operator_exit_is_authorised_witness:
  "\<exists>s' r'. handle_slash sample_tx_env sample_aux
      \<lparr>si_operator_idx = 1, si_stake_inpoint = \<lparr>op_txid = [78], op_vout = 0\<rparr>\<rparr> sample_bridge idle = Some ((s', r'), Ok ())
     \<and> \<not> bm_is_active (initial_active (br_operators s')) 1"
proof -
  let ?r = "handle_slash sample_tx_env sample_aux
      \<lparr>si_operator_idx = 1, si_stake_inpoint = \<lparr>op_txid = [78], op_vout = 0\<rparr>\<rparr> sample_bridge idle"
  have "case ?r of Some (_, res) \<Rightarrow> is_ok res | None \<Rightarrow> False" by code_simp
  then obtain s' r' where run: "?r = Some ((s', r'), Ok ())"
    by (cases ?r) (auto simp: is_ok_def split: sum.splits)
  note E = mp [OF conjunct1 [OF operator_exit_is_authorised [OF sample_bridge_inv]] run]
  have "\<not> bm_is_active (initial_active (br_operators s')) 1"
    using spec [OF conjunct1 [OF conjunct2 [OF E]], of 1] by simp
  then show ?thesis using run by (intro exI conjI)
qed

text \<open>C23: the only way a parsed bridge transaction can stop the transition.  When every Bitcoin
  transaction that pre-processing requested for it is available, handling it panics only if it is a
  slash or an unstake whose stake input does not exist in the spent transaction (which Bitcoin
  consensus excludes) or which would remove the last active operator.  Deposits and fulfillments
  always return.  Key aggregation is taken to succeed on a non-empty key list.\<close>
theorem bridge_tx_panics_only_on_last_operator:
  assumes "bridge_inv env s"
    and "\<And>ks. ks \<noteq> [] \<Longrightarrow> aggregate_schnorr_keys env ks \<noteq> None"
    and "\<forall>t \<in> set (ar_bitcoin_txs (arc_requests (preprocess_parsed_tx parsed (arc_new bound)))). vad_txs aux t \<noteq> None"
    and "handle_parsed_tx env version aux parsed s r = None"
  shows "\<exists>i inpoint. ((\<exists>info. parsed = ParsedSlash info \<and> i = si_operator_idx info \<and> inpoint = si_stake_inpoint info)
        \<or> (\<exists>info. parsed = ParsedUnstake info \<and> i = ui_operator_idx info \<and> inpoint = ui_stake_inpoint info))
      \<and> (get_bitcoin_txout aux inpoint = Err (BitcoinTxOutNotFound (op_txid inpoint) (op_vout inpoint))
        \<or> {j. bm_is_active (initial_active (br_operators s)) j} = {i})"
proof -
  have last: "{j. bm_is_active (initial_active (br_operators s)) j} = {i}" if "remove_operator env i s = None" for i
    by (rule handle_removal_None [OF assms(1,2) that])
  have out: "get_bitcoin_txout aux op = Err (BitcoinTxOutNotFound (op_txid op) (op_vout op))"
    if "vad_txs aux (op_txid op) \<noteq> None" "get_bitcoin_txout aux op = Err e" for op e
    using that get_bitcoin_tx_present [OF that(1)]
    by (auto simp: get_bitcoin_txout_def ok_or_def split: option.splits)
  show ?thesis
  proof (cases parsed)
    case (ParsedDeposit info)
    then show ?thesis using assms(3,4) handle_deposit_total [OF assms(1)]
      by (simp add: handle_parsed_tx_def preprocess_parsed_tx_def request_simps arc_new_def)
  next
    case (ParsedWithdrawalFulfillment info)
    then have "handle_withdrawal_fulfillment env version info s r = None"
      using assms(4) by (simp add: handle_parsed_tx_def)
    then show ?thesis using handle_withdrawal_fulfillment_cases [OF assms(1), of version info r] by simp
  next
    case (ParsedSlash info)
    then have "handle_slash env aux info s r = None" "vad_txs aux (op_txid (si_stake_inpoint info)) \<noteq> None"
      using assms(3,4) by (simp_all add: handle_parsed_tx_def preprocess_parsed_tx_def request_simps arc_new_def)
    then have "get_bitcoin_txout aux (si_stake_inpoint info)
          = Err (BitcoinTxOutNotFound (op_txid (si_stake_inpoint info)) (op_vout (si_stake_inpoint info)))
        \<or> {j. bm_is_active (initial_active (br_operators s)) j} = {si_operator_idx info}"
      using handle_slash_None [of env aux info s r] out [of "si_stake_inpoint info"] last [of "si_operator_idx info"] by metis
    then show ?thesis using ParsedSlash by (intro exI [of _ "si_operator_idx info"] exI [of _ "si_stake_inpoint info"]) simp
  next
    case (ParsedUnstake info)
    then have "handle_unstake env aux info s r = None" "vad_txs aux (op_txid (ui_stake_inpoint info)) \<noteq> None"
      using assms(3,4) by (simp_all add: handle_parsed_tx_def preprocess_parsed_tx_def request_simps arc_new_def)
    then have "get_bitcoin_txout aux (ui_stake_inpoint info)
          = Err (BitcoinTxOutNotFound (op_txid (ui_stake_inpoint info)) (op_vout (ui_stake_inpoint info)))
        \<or> {j. bm_is_active (initial_active (br_operators s)) j} = {ui_operator_idx info}"
      using handle_unstake_None [of env aux info s r] out [of "ui_stake_inpoint info"] last [of "ui_operator_idx info"] by metis
    then show ?thesis using ParsedUnstake by (intro exI [of _ "ui_operator_idx info"] exI [of _ "ui_stake_inpoint info"]) simp
  qed
qed

definition single_operator :: bridge_init_config where
  "single_operator = \<lparr>bic_operators = [[12]], bic_denomination = 100, bic_assignment_duration = 10,
     bic_operator_fee = 3, bic_recovery_delay = 144, bic_safe_harbor_address = [1]\<rparr>"

theorem bridge_tx_panics_only_on_last_operator_witness:
  "\<exists>s. br_new sample_tx_env single_operator = Some s
     \<and> handle_parsed_tx sample_tx_env ClaimV1 sample_aux
         (ParsedSlash \<lparr>si_operator_idx = 0, si_stake_inpoint = \<lparr>op_txid = [78], op_vout = 1\<rparr>\<rparr>) s idle = None
     \<and> {j. bm_is_active (initial_active (br_operators s)) j} = {0}"
proof -
  let ?tx = "ParsedSlash \<lparr>si_operator_idx = 0, si_stake_inpoint = \<lparr>op_txid = [78], op_vout = 1\<rparr>\<rparr>"
  let ?op = "\<lparr>op_txid = [78], op_vout = 1\<rparr>"
  have "case br_new sample_tx_env single_operator of
      Some s \<Rightarrow> handle_parsed_tx sample_tx_env ClaimV1 sample_aux ?tx s idle = None | None \<Rightarrow> False" by code_simp
  then obtain s where s: "br_new sample_tx_env single_operator = Some s"
    "handle_parsed_tx sample_tx_env ClaimV1 sample_aux ?tx s idle = None" by (auto split: option.splits)
  have "aggregate_schnorr_keys sample_tx_env ks \<noteq> None" if "ks \<noteq> []" for ks
    using that by (simp add: sample_tx_env_def)
  moreover have "\<forall>t \<in> set (ar_bitcoin_txs (arc_requests (preprocess_parsed_tx ?tx (arc_new 0)))). vad_txs sample_aux t \<noteq> None"
    by code_simp
  ultimately obtain i inpoint where "i = 0" "inpoint = ?op"
    "get_bitcoin_txout sample_aux inpoint = Err (BitcoinTxOutNotFound (op_txid inpoint) (op_vout inpoint))
      \<or> {j. bm_is_active (initial_active (br_operators s)) j} = {i}"
    using bridge_tx_panics_only_on_last_operator [OF br_new_inv [OF s(1)] _ _ s(2)] by auto
  moreover have "is_ok (get_bitcoin_txout sample_aux ?op)" by code_simp
  ultimately have "{j. bm_is_active (initial_active (br_operators s)) j} = {0}" by auto
  then show ?thesis using s by (intro exI conjI)
qed

end
