(* ===== verification/Merkle_Tree.thy ===== *)
theory Merkle_Tree
  imports Header_Verification
begin

text \<open>
  Bitcoin's Merkle tree as \<open>crates/btc-verification/src/utils_btc.rs\<close> computes it: the first level is
  hashed while copying, the others in place in one buffer that is read ahead of where it is
  written.  The recursion on the shrinking prefix does not end on an empty slice, so it is a partial
  function whose \<^term>\<open>None\<close> is not returning.  The reference definition hashes level by level.
\<close>

definition hash_pair :: "'e btc_env_scheme \<Rightarrow> buf32 \<Rightarrow> buf32 \<Rightarrow> buf32" where
  "hash_pair env h1 h2 = sha256d env (h1 @ h2)"

definition merge_step :: "'e btc_env_scheme \<Rightarrow> nat \<Rightarrow> buf32 list \<Rightarrow> buf32 list" where
  "merge_step env idx hashes =
     (let idx1 = 2 * idx; idx2 = min (idx1 + 1) (length hashes - 1)
      in hashes[idx := hash_pair env (hashes ! idx1) (hashes ! idx2)])"

definition merge_in_place :: "'e btc_env_scheme \<Rightarrow> buf32 list \<Rightarrow> buf32 list" where
  "merge_in_place env hashes = fold (merge_step env) [0..<(length hashes + 1) div 2] hashes"

partial_function (option) merkle_root_r :: "'e btc_env_scheme \<Rightarrow> buf32 list \<Rightarrow> buf32 option" where
  "merkle_root_r env hashes =
     (if length hashes = 1 then Some (hashes ! 0)
      else merkle_root_r env (take (length hashes div 2 + length hashes mod 2) (merge_in_place env hashes)))"

fun first_level :: "('a \<Rightarrow> 'a \<Rightarrow> 'a) \<Rightarrow> 'a list \<Rightarrow> 'a list" where
  "first_level h [] = []"
| "first_level h [hash1] = [h hash1 hash1]"
| "first_level h (hash1 # hash2 # hashes) = h hash1 hash2 # first_level h hashes"

text \<open>The outer \<^term>\<open>None\<close> is not returning, the inner one the source's \<open>None\<close>.\<close>

definition calculate_root :: "'e btc_env_scheme \<Rightarrow> buf32 list \<Rightarrow> buf32 option option" where
  "calculate_root env hashes =
     (case hashes of
        [] \<Rightarrow> Some None
      | [hash] \<Rightarrow> Some (Some hash)
      | _ \<Rightarrow> map_option Some (merkle_root_r env (first_level (hash_pair env) hashes)))"

section \<open>The reference definition\<close>

lemma length_first_level [simp]: "length (first_level h xs) = (length xs + 1) div 2"
  by (induction h xs rule: first_level.induct) simp_all

function level_root :: "('a \<Rightarrow> 'a \<Rightarrow> 'a) \<Rightarrow> 'a list \<Rightarrow> 'a" where
  "level_root h xs = (if length xs \<le> 1 then hd xs else level_root h (first_level h xs))"
  by auto
termination by (relation "measure (\<lambda>(h, xs). length xs)") auto

declare level_root.simps [simp del]

fun tree_depth :: "nat \<Rightarrow> nat" where
  "tree_depth n = (if n \<le> 1 then 0 else Suc (tree_depth ((n + 1) div 2)))"

declare tree_depth.simps [simp del]

text \<open>The pairs a level hashes, and all pairs of a tree.\<close>

fun level_pairs :: "'a list \<Rightarrow> ('a \<times> 'a) list" where
  "level_pairs [] = []"
| "level_pairs [x] = [(x, x)]"
| "level_pairs (x # y # xs) = (x, y) # level_pairs xs"

lemma first_level_pairs: "first_level h xs = map (\<lambda>(a, b). h a b) (level_pairs xs)"
  by (induction h xs rule: first_level.induct) simp_all

function tree_pairs :: "('a \<Rightarrow> 'a \<Rightarrow> 'a) \<Rightarrow> 'a list \<Rightarrow> ('a \<times> 'a) list" where
  "tree_pairs h xs = (if length xs \<le> 1 then [] else level_pairs xs @ tree_pairs h (first_level h xs))"
  by auto
termination by (relation "measure (\<lambda>(h, xs). length xs)") auto

declare tree_pairs.simps [simp del]

lemma first_level_nth:
  "i < (length xs + 1) div 2 \<Longrightarrow> first_level h xs ! i = h (xs ! (2 * i)) (xs ! min (2 * i + 1) (length xs - 1))"
proof (induction h xs arbitrary: i rule: first_level.induct)
  case (3 h x y xs)
  show ?case
  proof (cases i)
    case (Suc j)
    then have "j < (length xs + 1) div 2" using 3(2) by simp
    moreover from this have "2 * j < length xs" by auto
    then have "min (2 * i + 1) (length (x # y # xs) - 1) = Suc (Suc (min (2 * j + 1) (length xs - 1)))"
      using Suc by auto
    ultimately show ?thesis using 3(1) [of j] Suc by simp
  qed simp
qed simp_all

section \<open>The in-place computation\<close>

lemma merge_prefix:
  assumes "k \<le> (length xs + 1) div 2"
  shows "length (fold (merge_step env) [0..<k] xs) = length xs
    \<and> (\<forall>j < length xs. fold (merge_step env) [0..<k] xs ! j = (if j < k then first_level (hash_pair env) xs ! j else xs ! j))"
  using assms
proof (induction k)
  case (Suc k)
  let ?p = "fold (merge_step env) [0..<k] xs"
  have IH: "length ?p = length xs" "\<And>j. j < length xs \<Longrightarrow> ?p ! j = (if j < k then first_level (hash_pair env) xs ! j else xs ! j)"
    using Suc by auto
  have k: "2 * k < length xs" "k \<le> min (2 * k + 1) (length xs - 1)" "min (2 * k + 1) (length xs - 1) < length xs"
    using Suc.prems by auto
  have "\<not> min (2 * k + 1) (length xs - 1) < k" using k(2) by (rule leD)
  then have "?p ! min (2 * k + 1) (length xs - 1) = xs ! min (2 * k + 1) (length xs - 1)"
    using IH(2) [OF k(3)] by (simp only: if_False)
  moreover have "?p ! (2 * k) = xs ! (2 * k)" using IH(2) [OF k(1)] by simp
  ultimately have "hash_pair env (?p ! (2 * k)) (?p ! min (2 * k + 1) (length xs - 1)) = first_level (hash_pair env) xs ! k"
    using Suc.prems by (simp only: first_level_nth Suc_le_eq)
  then have "merge_step env k ?p = ?p[k := first_level (hash_pair env) xs ! k]"
    by (simp add: merge_step_def IH(1))
  then show ?case using IH k by (auto simp: nth_list_update less_Suc_eq)
qed simp

lemma merge_in_place_eq:
  "take (length xs div 2 + length xs mod 2) (merge_in_place env xs) = first_level (hash_pair env) xs"
proof (rule nth_equalityI)
  have half: "length xs div 2 + length xs mod 2 = (length xs + 1) div 2" by (cases "even (length xs)") (auto elim: evenE oddE)
  note M = merge_prefix [of "(length xs + 1) div 2" xs env, OF order_refl, folded merge_in_place_def]
  show "length (take (length xs div 2 + length xs mod 2) (merge_in_place env xs)) = length (first_level (hash_pair env) xs)"
    using M half by simp
  fix i assume "i < length (take (length xs div 2 + length xs mod 2) (merge_in_place env xs))"
  then show "take (length xs div 2 + length xs mod 2) (merge_in_place env xs) ! i = first_level (hash_pair env) xs ! i"
    using M half by auto
qed

lemma merkle_root_r_eq:
  "xs \<noteq> [] \<Longrightarrow> merkle_root_r env xs = Some (level_root (hash_pair env) xs)"
proof (induction "length xs" arbitrary: xs rule: less_induct)
  case less
  show ?case
  proof (cases "length xs = 1")
    case True
    then show ?thesis using less.prems by (simp add: merkle_root_r.simps level_root.simps hd_conv_nth)
  next
    case False
    then have two: "2 \<le> length xs" using less.prems by (cases xs) (auto simp: Suc_le_eq)
    let ?ys = "first_level (hash_pair env) xs"
    have "length ?ys < length xs" using two by simp
    moreover have "?ys \<noteq> []"
    proof
      assume "?ys = []"
      then have "length ?ys = 0" by simp
      then show False using two by simp
    qed
    ultimately have "merkle_root_r env ?ys = Some (level_root (hash_pair env) ?ys)" by (rule less.hyps)
    then show ?thesis
      using False two by (simp add: merkle_root_r.simps [of env xs] merge_in_place_eq level_root.simps [of _ xs])
  qed
qed

lemma merkle_root_r_empty: "merkle_root_r env [] = None"
proof -
  have "xs \<noteq> []" if "merkle_root_r env xs = Some y" for xs y
    by (rule merkle_root_r.raw_induct [OF _ that, where P = "\<lambda>_ xs _. xs \<noteq> []"])
      (fastforce simp: merge_in_place_def split: if_splits)
  then show ?thesis by (cases "merkle_root_r env []") auto
qed

lemma calculate_root_eq:
  "calculate_root env xs = Some (if xs = [] then None else Some (level_root (hash_pair env) xs))"
proof (cases xs)
  case (Cons x ys)
  show ?thesis
  proof (cases ys)
    case Nil
    then show ?thesis using Cons by (simp add: calculate_root_def level_root.simps)
  next
    case (Cons y zs)
    then have "first_level (hash_pair env) xs \<noteq> []" using \<open>xs = x # ys\<close> by simp
    then have "merkle_root_r env (first_level (hash_pair env) xs)
        = Some (level_root (hash_pair env) (first_level (hash_pair env) xs))" by (rule merkle_root_r_eq)
    moreover have "level_root (hash_pair env) (first_level (hash_pair env) xs) = level_root (hash_pair env) xs"
      using Cons \<open>xs = x # ys\<close> by (simp add: level_root.simps [of "hash_pair env" "x # y # zs"])
    ultimately show ?thesis using Cons \<open>xs = x # ys\<close> by (simp add: calculate_root_def)
  qed
qed (simp add: calculate_root_def)

section \<open>Depth\<close>

lemma tree_depth_bounds:
  assumes "1 \<le> n"
  shows "n \<le> 2 ^ tree_depth n" and "1 < n \<Longrightarrow> 2 ^ (tree_depth n - 1) < n"
proof -
  have "n \<le> 2 ^ tree_depth n \<and> (1 < n \<longrightarrow> 2 ^ (tree_depth n - 1) < n)" using assms
  proof (induction n rule: less_induct)
    case (less n)
    show ?case
    proof (cases "n \<le> 1")
      case True
      then show ?thesis by (simp add: tree_depth.simps)
    next
      case False
      let ?m = "(n + 1) div 2"
      have IH: "?m \<le> 2 ^ tree_depth ?m" "1 < ?m \<longrightarrow> 2 ^ (tree_depth ?m - 1) < ?m"
        using less.IH [of ?m] False by auto
      have d: "tree_depth n = Suc (tree_depth ?m)" using False by (simp add: tree_depth.simps [of n])
      have "n \<le> 2 * ?m" by simp
      then have up: "n \<le> 2 ^ tree_depth n" using IH(1) d by simp
      have "2 ^ tree_depth ?m < n"
      proof (cases "1 < ?m")
        case True
        then have e: "tree_depth ?m = Suc (tree_depth ((?m + 1) div 2))" by (subst tree_depth.simps) simp
        define e where "e = tree_depth ((?m + 1) div 2)"
        with e have e: "tree_depth ?m = Suc e" by simp
        then have "2 ^ e < ?m" using IH(2) True by simp
        then have "2 * 2 ^ e + 1 < 2 * ?m" by (cases "2 ^ e :: nat") auto
        then show ?thesis using e by simp
      next
        case False
        then have "tree_depth ?m = 0" by (subst tree_depth.simps) simp
        then show ?thesis using \<open>\<not> n \<le> 1\<close> by simp
      qed
      then show ?thesis using up d by simp
    qed
  qed
  then show "n \<le> 2 ^ tree_depth n" and "1 < n \<Longrightarrow> 2 ^ (tree_depth n - 1) < n" by auto
qed

lemma tree_depth_unique:
  assumes "1 < n" and "n \<le> 2 ^ k" and "2 ^ (k - 1) < n" and "0 < k"
  shows "tree_depth n = k"
proof -
  note B = tree_depth_bounds [of n]
  have d: "0 < tree_depth n" using assms(1) by (simp add: tree_depth.simps)
  have "(2::nat) ^ (tree_depth n - 1) < 2 ^ k" using B(2) assms(1,2) by (meson less_le_trans less_imp_le)
  then have "tree_depth n - 1 < k" by (simp add: power_less_imp_less_exp)
  moreover have "(2::nat) ^ (k - 1) < 2 ^ tree_depth n" using B(1) assms(1,3) by (meson less_le_trans less_imp_le)
  then have "k - 1 < tree_depth n" by (simp add: power_less_imp_less_exp)
  ultimately show ?thesis using d assms(4) by linarith
qed

section \<open>What a root commits to\<close>

abbreviation collision_free :: "('a \<Rightarrow> 'a \<Rightarrow> 'a) \<Rightarrow> ('a \<times> 'a) set \<Rightarrow> bool" where
  "collision_free h A \<equiv> inj_on (\<lambda>(a, b). h a b) A"

lemma level_pairs_set: "p \<in> set (level_pairs xs) \<Longrightarrow> fst p \<in> set xs \<and> snd p \<in> set xs"
  by (induction xs rule: level_pairs.induct) auto

lemma distinct_level_pairs: "distinct xs \<Longrightarrow> distinct (level_pairs xs)"
proof (induction xs rule: level_pairs.induct)
  case (3 x y xs)
  then show ?case using level_pairs_set [of "(x, y)" xs] by auto
qed simp_all

lemma level_pairs_inj: "distinct xs \<Longrightarrow> distinct ys \<Longrightarrow> level_pairs xs = level_pairs ys \<Longrightarrow> xs = ys"
proof (induction xs arbitrary: ys rule: level_pairs.induct)
  case 1
  then show ?case by (cases ys rule: level_pairs.cases) auto
next
  case (2 x)
  then show ?case by (cases ys rule: level_pairs.cases) auto
next
  case (3 x y xs)
  then show ?case by (cases ys rule: level_pairs.cases) auto
qed

lemma root_binds_leaves:
  assumes "distinct xs" "distinct ys" "xs \<noteq> []" "ys \<noteq> []" "tree_depth (length xs) = tree_depth (length ys)"
    and "collision_free h (set (tree_pairs h xs) \<union> set (tree_pairs h ys))"
    and "level_root h xs = level_root h ys"
  shows "xs = ys"
  using assms
proof (induction h xs arbitrary: ys rule: level_root.induct)
  case (1 h xs)
  show ?case
  proof (cases "length xs \<le> 1")
    case True
    then have "length ys \<le> 1" using 1(6) by (auto simp: tree_depth.simps split: if_splits)
    then show ?thesis using True 1(4,5,8) by (cases xs; cases ys) (auto simp: level_root.simps)
  next
    case False
    then have ys: "\<not> length ys \<le> 1" using 1(6) by (auto simp: tree_depth.simps split: if_splits)
    have px: "tree_pairs h xs = level_pairs xs @ tree_pairs h (first_level h xs)"
      "tree_pairs h ys = level_pairs ys @ tree_pairs h (first_level h ys)"
      using False ys by (simp_all add: tree_pairs.simps [of h xs] tree_pairs.simps [of h ys])
    have inj: "collision_free h (set (level_pairs xs) \<union> set (level_pairs ys))"
      using 1(7) unfolding px by (rule inj_on_subset) auto
    have dx: "distinct (first_level h xs)" "distinct (first_level h ys)"
      using distinct_level_pairs [OF 1(2)] distinct_level_pairs [OF 1(3)] inj
      by (auto simp: first_level_pairs distinct_map intro: inj_on_subset)
    have ne: "first_level h xs \<noteq> []" "first_level h ys \<noteq> []"
      using 1(4,5) by (cases xs rule: level_pairs.cases; cases ys rule: level_pairs.cases; simp)+
    have depth: "tree_depth (length (first_level h xs)) = tree_depth (length (first_level h ys))"
      using 1(6) False ys by (simp add: tree_depth.simps [of "length xs"] tree_depth.simps [of "length ys"])
    have sub: "collision_free h (set (tree_pairs h (first_level h xs)) \<union> set (tree_pairs h (first_level h ys)))"
      using 1(7) unfolding px by (rule inj_on_subset) auto
    have "level_root h (first_level h xs) = level_root h (first_level h ys)"
      using 1(8) False ys by (simp add: level_root.simps [of h xs] level_root.simps [of h ys])
    from 1(1) [OF False dx ne depth sub this]
    have "map (\<lambda>(a, b). h a b) (level_pairs xs) = map (\<lambda>(a, b). h a b) (level_pairs ys)"
      by (simp add: first_level_pairs)
    then have "level_pairs xs = level_pairs ys" using inj by (simp add: inj_on_map_eq_map)
    then show ?thesis by (rule level_pairs_inj [OF 1(2,3)])
  qed
qed

section \<open>Properties\<close>

text \<open>C24: the optimised Merkle root is Bitcoin's.  Hashing in place, in a buffer that is overwritten while
  it is read, gives the root of the level-by-level definition, on lists of every length, odd levels
  included; the recursion returns on every non-empty slice and on no empty one, which the caller never
  passes; and the root of no hashes is the source's \<open>None\<close>.\<close>
theorem merkle_root_equals_reference:
  "calculate_root env hashes = Some (if hashes = [] then None else Some (level_root (hash_pair env) hashes))
   \<and> merkle_root_r env hashes = (if hashes = [] then None else Some (level_root (hash_pair env) hashes))"
  by (simp add: calculate_root_eq merkle_root_r_eq merkle_root_r_empty)

end
