(* ===== verification/Block_Body.thy ===== *)
theory Block_Body
  imports Merkle_Tree "HOL-Library.List_Lexorder"
begin

unbundle bit_operations_syntax

text \<open>
  Block bodies: Merkle inclusion proofs (\<open>crates/btc-verification/src/inclusion_proof.rs\<close>), transaction
  identifiers (\<open>utils_btc.rs\<close>) and the integrity check of a block against its header
  (\<open>body_verification.rs\<close>).  The consensus encodings are library code, fields of \<open>body_env\<close>.
  Lengths (\<open>usize\<close>) are natural numbers below \<open>2 ^ 64\<close>; positions stay 32-bit words.
\<close>

record body_env = btc_env +
  encode_version :: "transaction \<Rightarrow> bytes"
  encode_inputs :: "transaction \<Rightarrow> bytes"
  encode_outputs :: "transaction \<Rightarrow> bytes"
  encode_lock_time :: "transaction \<Rightarrow> bytes"
  encode_transaction :: "transaction \<Rightarrow> bytes"
  is_coinbase :: "transaction \<Rightarrow> bool"

record block =
  bl_header :: header
  bl_txdata :: "transaction list"

datatype l1_body_error =
    EmptyBlock | NotCoinbase | DuplicateTransaction | MissingInclusionProof | InvalidCoinbaseWitness
  | WitnessCommitmentMismatch | InvalidInclusionProof | MerkleRootMismatch | UncommittedWitnessData

definition btc_compute_txid :: "'e body_env_scheme \<Rightarrow> transaction \<Rightarrow> txid" where
  "btc_compute_txid env tx =
     sha256d env (encode_version env tx @ encode_inputs env tx @ encode_outputs env tx @ encode_lock_time env tx)"

definition compute_wtxid :: "'e body_env_scheme \<Rightarrow> transaction \<Rightarrow> buf32" where
  "compute_wtxid env tx = sha256d env (encode_transaction env tx)"

section \<open>Inclusion proofs\<close>

record txid_inclusion_proof =
  tip_position :: u32
  tip_siblings :: "buf32 list"

fun chunk_hashes :: "'e btc_env_scheme \<Rightarrow> buf32 list \<Rightarrow> buf32 list option" where
  "chunk_hashes env [] = Some []"
| "chunk_hashes env [a] = None"
| "chunk_hashes env (a # b # rest) = map_option ((#) (sha256d env (a @ b))) (chunk_hashes env rest)"

lemma chunk_hashes_length: "chunk_hashes env xs = Some ys \<Longrightarrow> 2 * length ys = length xs"
  by (induction env xs arbitrary: ys rule: chunk_hashes.induct) auto

function generate_loop :: "'e btc_env_scheme \<Rightarrow> buf32 list \<Rightarrow> u32 \<Rightarrow> buf32 list option" where
  "generate_loop env curr_level curr_index =
     (if length curr_level \<le> 1 then Some []
      else
        let len = length curr_level;
            level = (if len mod 2 \<noteq> 0 then curr_level @ [curr_level ! (len - 1)] else curr_level);
            sibling_index = (if curr_index mod 2 = 0 then curr_index + 1 else curr_index - 1)
        in case slice_get level (unat sibling_index) of
             None \<Rightarrow> None
           | Some sibling \<Rightarrow>
               (case chunk_hashes env level of
                  None \<Rightarrow> None
                | Some next_level \<Rightarrow>
                    map_option ((#) sibling) (generate_loop env next_level (drop_bit 1 curr_index))))"
  by auto
termination
proof (relation "measure (\<lambda>(env, level, i). length level)")
  fix env :: "'e btc_env_scheme" and curr_level x xa xb and curr_index :: u32 and x2 x2a
  assume "\<not> length curr_level \<le> 1" "x = length curr_level"
    "xa = (if x mod 2 \<noteq> 0 then curr_level @ [curr_level ! (x - 1)] else curr_level)"
    "chunk_hashes env xa = Some x2a"
  then have "2 * length x2a \<le> length curr_level + 1 \<and> (2 * length x2a = length curr_level + 1 \<longrightarrow> length curr_level mod 2 \<noteq> 0)"
    using chunk_hashes_length [of env xa x2a] by (auto split: if_splits)
  then show "((env, x2a, drop_bit 1 curr_index), env, curr_level, curr_index) \<in> measure (\<lambda>(env, level, i). length level)"
    using \<open>\<not> length curr_level \<le> 1\<close> by simp
qed simp

declare generate_loop.simps [simp del]

text \<open>The outer \<^term>\<open>None\<close> is a panic (a missing sibling or an odd chunk), the inner one the source's \<open>None\<close>.\<close>

definition generate ::
  "'e body_env_scheme \<Rightarrow> transaction list \<Rightarrow> u32 \<Rightarrow> txid_inclusion_proof option option" where
  "generate env transactions idx =
     (if length transactions \<le> unat idx then Some None
      else map_option (\<lambda>siblings. Some \<lparr>tip_position = idx, tip_siblings = siblings\<rparr>)
             (generate_loop env (map (btc_compute_txid env) transactions) idx))"

fun compute_root_loop :: "'e btc_env_scheme \<Rightarrow> buf32 \<Rightarrow> u32 \<Rightarrow> buf32 list \<Rightarrow> buf32" where
  "compute_root_loop env cur_hash pos [] = cur_hash"
| "compute_root_loop env cur_hash pos (sibling # siblings) =
     compute_root_loop env
       (if pos AND 1 = 0 then sha256d env (cur_hash @ sibling) else sha256d env (sibling @ cur_hash))
       (drop_bit 1 pos) siblings"

definition compute_root :: "'e body_env_scheme \<Rightarrow> txid_inclusion_proof \<Rightarrow> transaction \<Rightarrow> buf32" where
  "compute_root env self tx = compute_root_loop env (btc_compute_txid env tx) (tip_position self) (tip_siblings self)"

definition leading_zeros :: "u64 \<Rightarrow> nat" where
  "leading_zeros n = length (takeWhile (\<lambda>i. \<not> bit n i) (rev [0..<64]))"

definition merkle_tree_depth :: "nat \<Rightarrow> nat" where
  "merkle_tree_depth tx_count = (if tx_count \<le> 1 then 0 else 64 - leading_zeros (of_nat (tx_count - 1)))"

definition verify_inclusion ::
  "'e body_env_scheme \<Rightarrow> txid_inclusion_proof \<Rightarrow> transaction \<Rightarrow> buf32 \<Rightarrow> nat \<Rightarrow> bool" where
  "verify_inclusion env self tx root tx_count =
     (if tx_count = 0 \<or> tx_count \<le> unat (tip_position self) then False
      else if length (tip_siblings self) \<noteq> merkle_tree_depth tx_count then False
      else compute_root env self tx = root)"

section \<open>Body verification\<close>

fun adjacent_equal :: "'a list \<Rightarrow> bool" where
  "adjacent_equal (x # y # xs) = (x = y \<or> adjacent_equal (y # xs))"
| "adjacent_equal _ = False"

definition calculate_root_no_dups ::
  "'e btc_env_scheme \<Rightarrow> buf32 list \<Rightarrow> (l1_body_error, buf32) result option" where
  "calculate_root_no_dups env hashes =
     do {
       root \<leftarrow> calculate_root env hashes;
       Some (res_bind (ok_or EmptyBlock root) (\<lambda>root.
         if adjacent_equal (sort hashes) then Err DuplicateTransaction else Ok root))
     }"

definition compute_merkle_root :: "'e body_env_scheme \<Rightarrow> block \<Rightarrow> (l1_body_error, buf32) result option" where
  "compute_merkle_root env block = calculate_root_no_dups env (map (btc_compute_txid env) (bl_txdata block))"

definition witness_leaves :: "'e body_env_scheme \<Rightarrow> transaction list \<Rightarrow> buf32 list" where
  "witness_leaves env transactions =
     map (\<lambda>(i, t). if i = 0 then replicate 32 0 else compute_wtxid env t) (List.enumerate 0 transactions)"

definition compute_witness_root ::
  "'e body_env_scheme \<Rightarrow> transaction list \<Rightarrow> (l1_body_error, buf32) result option" where
  "compute_witness_root env transactions = calculate_root_no_dups env (witness_leaves env transactions)"

definition witness_magic :: bytes where
  "witness_magic = [0x6a, 0x24, 0xaa, 0x21, 0xa9, 0xed]"

definition witness_commitment_from_coinbase :: "transaction \<Rightarrow> buf32 option" where
  "witness_commitment_from_coinbase coinbase =
     map_option (\<lambda>o'. take 32 (drop 6 (to_script_pubkey o')))
       (find (\<lambda>o'. 38 \<le> length (to_script_pubkey o') \<and> take 6 (to_script_pubkey o') = witness_magic)
         (rev (tx_output coinbase)))"

definition check_block_integrity ::
  "'e body_env_scheme \<Rightarrow> block \<Rightarrow> txid_inclusion_proof option \<Rightarrow> (l1_body_error, buf32) result option" where
  "check_block_integrity env block coinbase_inclusion_proof =
     (case bl_txdata block of
        [] \<Rightarrow> Some (Err EmptyBlock)
      | coinbase # _ \<Rightarrow>
          if \<not> is_coinbase env coinbase then Some (Err NotCoinbase)
          else case witness_commitment_from_coinbase coinbase of
            Some commitment \<Rightarrow>
              (case coinbase_inclusion_proof of
                 None \<Rightarrow> Some (Err MissingInclusionProof)
               | Some pf \<Rightarrow>
              (case tx_input coinbase of
                 [] \<Rightarrow> None
               | txin # _ \<Rightarrow>
              (case ti_witness txin of
                 [witness] \<Rightarrow>
                   if length witness \<noteq> 32 then Some (Err InvalidCoinbaseWitness)
                   else
                     do {
                       witness_root \<leftarrow> compute_witness_root env (bl_txdata block);
                       Some (res_bind witness_root (\<lambda>witness_root.
                         let computed_commitment = sha256d env (witness_root @ witness)
                         in if commitment \<noteq> computed_commitment then Err WitnessCommitmentMismatch
                            else if \<not> verify_inclusion env pf coinbase (hd_merkle_root (bl_header block))
                                        (length (bl_txdata block))
                            then Err InvalidInclusionProof
                            else Ok witness_root))
                     }
               | _ \<Rightarrow> Some (Err InvalidCoinbaseWitness))))
          | None \<Rightarrow>
              if \<exists>tx \<in> set (bl_txdata block). \<exists>txin \<in> set (tx_input tx). ti_witness txin \<noteq> []
              then Some (Err UncommittedWitnessData)
              else
                do {
                  root \<leftarrow> compute_merkle_root env block;
                  Some (res_bind root (\<lambda>root.
                    if root \<noteq> hd_merkle_root (bl_header block) then Err MerkleRootMismatch
                    else Ok (hd_merkle_root (bl_header block))))
                })"

section \<open>Laws of inclusion proofs\<close>

lemma sha256d_pair: "sha256d env (a @ b) = hash_pair env a b"
  by (simp add: hash_pair_def)

lemma and_one_u32: "(pos AND 1 = 0) \<longleftrightarrow> even (unat pos)" for pos :: u32
  by (simp add: and_one_eq word_unat_eq_iff unat_mod even_iff_mod_2_eq_zero)

lemma unat_half: "unat (drop_bit 1 pos) = unat pos div 2" "unat (drop_bit (Suc 0) pos) = unat pos div 2" for pos :: u32
  by (simp_all add: drop_bit_eq_div unat_div)

lemma chunk_hashes_even: "even (length xs) \<Longrightarrow> chunk_hashes env xs = Some (first_level (hash_pair env) xs)"
  by (induction env xs rule: chunk_hashes.induct) (simp_all add: sha256d_pair)

lemma first_level_pad:
  "odd (length xs) \<Longrightarrow> first_level h (xs @ [last xs]) = first_level h xs"
  by (induction h xs rule: first_level.induct) (auto split: if_splits)

lemma mod_two_u32: "(i mod 2 = 0) \<longleftrightarrow> even (unat i)" for i :: u32
  by (simp add: word_unat_eq_iff unat_mod even_iff_mod_2_eq_zero)

definition sibling_of :: "nat \<Rightarrow> nat" where
  "sibling_of i = (if even i then i + 1 else i - 1)"

lemma unat_sibling: "unat (if i mod 2 = 0 then i + 1 else i - 1) = sibling_of (unat i)" for i :: u32
proof (cases "even (unat i)")
  case True
  then have "unat i \<noteq> 4294967295" by (metis even_numeral odd_add odd_one numeral_plus_one semiring_norm(5))
  then have "i \<noteq> 4294967295" by auto
  then show ?thesis using True by (simp add: mod_two_u32 sibling_of_def unat_add_one_u32)
next
  case False
  then have "1 \<le> i" by (cases "i = 0") (auto simp: word_le_nat_alt Suc_le_eq unat_gt_0)
  then show ?thesis using False by (simp add: mod_two_u32 sibling_of_def unat_sub)
qed

definition padded :: "'a list \<Rightarrow> 'a list" where
  "padded xs = (if length xs mod 2 \<noteq> 0 then xs @ [xs ! (length xs - 1)] else xs)"

lemma padded_props:
  assumes "xs \<noteq> []" and "i < length xs"
  shows "even (length (padded xs))" and "first_level h (padded xs) = first_level h xs"
    and "sibling_of i < length (padded xs)"
    and "even i \<Longrightarrow> h (xs ! i) (padded xs ! sibling_of i) = first_level h xs ! (i div 2)"
    and "odd i \<Longrightarrow> h (padded xs ! sibling_of i) (xs ! i) = first_level h xs ! (i div 2)"
proof -
  have last: "xs ! (length xs - 1) = last xs" using assms(1) by (simp add: last_conv_nth)
  show e: "even (length (padded xs))" by (auto simp: padded_def even_iff_mod_2_eq_zero mod_Suc)
  show "first_level h (padded xs) = first_level h xs"
    unfolding padded_def last by (simp add: first_level_pad odd_iff_mod_2_eq_one)
  have half: "i div 2 < (length xs + 1) div 2" using assms(2) by linarith
  note N = first_level_nth [OF half, of h]
  show sib: "sibling_of i < length (padded xs)"
    using assms(2) e by (auto simp: sibling_of_def padded_def split: if_splits elim!: evenE oddE)
  show "h (xs ! i) (padded xs ! sibling_of i) = first_level h xs ! (i div 2)" if "even i"
  proof -
    have "2 * (i div 2) = i" using that by simp
    moreover have "padded xs ! sibling_of i = xs ! min (i + 1) (length xs - 1)"
      using that assms(2) sib by (auto simp: padded_def sibling_of_def nth_append min_def split: if_splits)
    ultimately show ?thesis using N by simp
  qed
  show "h (padded xs ! sibling_of i) (xs ! i) = first_level h xs ! (i div 2)" if "odd i"
  proof -
    have "2 * (i div 2) = i - 1" "min (2 * (i div 2) + 1) (length xs - 1) = i" using that assms(2) by (auto elim!: oddE)
    moreover have "padded xs ! sibling_of i = xs ! (i - 1)"
      using that assms(2) by (auto simp: padded_def sibling_of_def nth_append)
    ultimately show ?thesis using N by simp
  qed
qed

lemma first_level_nonempty: "xs \<noteq> [] \<Longrightarrow> first_level h xs \<noteq> []"
  by (cases xs rule: level_pairs.cases) simp_all

lemma generate_loop_complete:
  "xs \<noteq> [] \<Longrightarrow> unat i < length xs \<Longrightarrow> \<exists>sibs. generate_loop env xs i = Some sibs
     \<and> length sibs = tree_depth (length xs)
     \<and> compute_root_loop env (xs ! unat i) i sibs = level_root (hash_pair env) xs"
proof (induction "length xs" arbitrary: xs i rule: less_induct)
  case less
  show ?case
  proof (cases "length xs \<le> 1")
    case True
    then have "unat i = 0" using less.prems by simp
    then have "xs ! unat i = hd xs" using less.prems(1) by (metis hd_conv_nth)
    then show ?thesis using True by (simp add: generate_loop.simps tree_depth.simps level_root.simps)
  next
    case False
    note P = padded_props(1) [OF less.prems] padded_props(2) [OF less.prems, of "hash_pair env"]
      padded_props(3) [OF less.prems] padded_props(4,5) [OF less.prems, of "hash_pair env"]
    let ?ys = "first_level (hash_pair env) xs"
    have len: "length ?ys < length xs" using False by simp
    have ne: "?ys \<noteq> []" using less.prems(1) by (rule first_level_nonempty)
    have idx: "unat (drop_bit 1 i) < length ?ys" using less.prems(2) by (simp add: unat_half)
    from less.hyps [OF len ne idx] obtain sibs where IH: "generate_loop env ?ys (drop_bit 1 i) = Some sibs"
      "length sibs = tree_depth (length ?ys)"
      "compute_root_loop env (?ys ! unat (drop_bit 1 i)) (drop_bit 1 i) sibs = level_root (hash_pair env) ?ys" by blast
    let ?s = "padded xs ! sibling_of (unat i)"
    have ch: "chunk_hashes env (padded xs) = Some ?ys" using chunk_hashes_even [OF P(1), of env] P(2) by simp
    have g: "generate_loop env xs i = Some (?s # sibs)"
      unfolding generate_loop.simps [of env xs] Let_def padded_def [symmetric] unat_sibling slice_get_def
      using False IH(1) ch P(3) by simp
    have "(if i AND 1 = 0 then sha256d env (xs ! unat i @ ?s) else sha256d env (?s @ xs ! unat i)) = ?ys ! unat (drop_bit 1 i)"
      using P(4,5) by (simp add: and_one_u32 sha256d_pair unat_half)
    then have "compute_root_loop env (xs ! unat i) i (?s # sibs) = level_root (hash_pair env) xs"
      using IH(3) False by (simp add: level_root.simps [of _ xs])
    moreover have "length (?s # sibs) = tree_depth (length xs)"
      using IH(2) False by (simp add: tree_depth.simps [of "length xs"])
    ultimately show ?thesis using g by blast
  qed
qed

lemma length_level_pairs: "length (level_pairs xs) = (length xs + 1) div 2"
  by (induction xs rule: level_pairs.induct) simp_all

lemma level_pairs_nth:
  "i < (length xs + 1) div 2 \<Longrightarrow> level_pairs xs ! i = (xs ! (2 * i), xs ! min (2 * i + 1) (length xs - 1))"
proof (induction xs arbitrary: i rule: level_pairs.induct)
  case (3 x y xs)
  show ?case
  proof (cases i)
    case (Suc j)
    then have j: "j < (length xs + 1) div 2" using 3(2) by simp
    then have "2 * j < length xs" by auto
    then have "min (2 * i + 1) (length (x # y # xs) - 1) = Suc (Suc (min (2 * j + 1) (length xs - 1)))"
      using Suc by auto
    then show ?thesis using 3(1) [OF j] Suc by simp
  qed simp
qed simp_all

text \<open>The pairs hashed along a proof's path.\<close>

fun path_pairs :: "'e btc_env_scheme \<Rightarrow> buf32 \<Rightarrow> u32 \<Rightarrow> buf32 list \<Rightarrow> (buf32 \<times> buf32) list" where
  "path_pairs env cur pos [] = []"
| "path_pairs env cur pos (s # sibs) =
     (if pos AND 1 = 0 then (cur, s) else (s, cur))
     # path_pairs env (if pos AND 1 = 0 then sha256d env (cur @ s) else sha256d env (s @ cur)) (drop_bit 1 pos) sibs"

lemma compute_root_loop_sound:
  "xs \<noteq> [] \<Longrightarrow> unat pos < length xs \<Longrightarrow> length sibs = tree_depth (length xs) \<Longrightarrow>
     compute_root_loop env cur pos sibs = level_root (hash_pair env) xs \<Longrightarrow>
     collision_free (hash_pair env) (set (tree_pairs (hash_pair env) xs) \<union> set (path_pairs env cur pos sibs)) \<Longrightarrow>
     cur = xs ! unat pos"
proof (induction sibs arbitrary: xs cur pos)
  case Nil
  then have "length xs \<le> 1" by (auto simp: tree_depth.simps split: if_splits)
  moreover from this have "unat pos = 0" using Nil.prems(1,2) by simp
  then have "xs ! unat pos = hd xs" using Nil.prems(1) by (metis hd_conv_nth)
  ultimately show ?case using Nil.prems(4) by (simp add: level_root.simps)
next
  case (Cons s sibs)
  let ?h = "hash_pair env" and ?i = "unat pos"
  let ?ys = "first_level ?h xs"
  let ?cur = "if pos AND 1 = 0 then sha256d env (cur @ s) else sha256d env (s @ cur)"
  have long: "\<not> length xs \<le> 1" using Cons.prems(3) by (auto simp: tree_depth.simps split: if_splits)
  have tp: "tree_pairs ?h xs = level_pairs xs @ tree_pairs ?h ?ys" using long by (simp add: tree_pairs.simps [of _ xs])
  have "?cur = ?ys ! unat (drop_bit 1 pos)"
  proof (rule Cons.IH)
    show "?ys \<noteq> []" using Cons.prems(1) by (rule first_level_nonempty)
    show "unat (drop_bit 1 pos) < length ?ys" using Cons.prems(2) by (simp add: unat_half)
    show "length sibs = tree_depth (length ?ys)"
      using Cons.prems(3) long by (simp add: tree_depth.simps [of "length xs"])
    show "compute_root_loop env ?cur (drop_bit 1 pos) sibs = level_root ?h ?ys"
      using Cons.prems(4) long by (simp add: level_root.simps [of _ xs])
    show "collision_free ?h (set (tree_pairs ?h ?ys) \<union> set (path_pairs env ?cur (drop_bit 1 pos) sibs))"
      using Cons.prems(5) by (rule inj_on_subset) (auto simp: tp)
  qed
  then have root: "?cur = ?h (xs ! (2 * (?i div 2))) (xs ! min (2 * (?i div 2) + 1) (length xs - 1))"
    using Cons.prems(2) by (simp add: unat_half first_level_nth)
  let ?p = "(xs ! (2 * (?i div 2)), xs ! min (2 * (?i div 2) + 1) (length xs - 1))"
  have "level_pairs xs ! (?i div 2) = ?p"
    by (rule level_pairs_nth) (use Cons.prems(2) in linarith)
  moreover have "?i div 2 < length (level_pairs xs)" using Cons.prems(2) by (simp add: length_level_pairs)
  ultimately have mem: "?p \<in> set (tree_pairs ?h xs)" unfolding tp by (metis Un_iff nth_mem set_append)
  have inj: "(a, b) = ?p" if "?h a b = ?h (fst ?p) (snd ?p)" "(a, b) \<in> set (path_pairs env cur pos (s # sibs))" for a b
  proof -
    have "(case (a, b) of (a, b) \<Rightarrow> ?h a b) = (case ?p of (a, b) \<Rightarrow> ?h a b)"
      using that(1) by (simp only: prod.case fst_conv snd_conv)
    from inj_onD [OF Cons.prems(5) this UnI2 [OF that(2)] UnI1 [OF mem]] show ?thesis .
  qed
  show ?case
  proof (cases "even ?i")
    case True
    then have "(cur, s) = ?p" using root by (intro inj) (simp_all add: and_one_u32 sha256d_pair)
    then show ?thesis using True by simp
  next
    case False
    then have "(s, cur) = ?p" using root by (intro inj) (simp_all add: and_one_u32 sha256d_pair)
    moreover have "min (2 * (?i div 2) + 1) (length xs - 1) = ?i" using False Cons.prems(2) by (auto elim!: oddE)
    ultimately show ?thesis by simp
  qed
qed

section \<open>Depth of the tree\<close>

lemma unat_bound_bits: "(\<forall>i \<ge> k. \<not> bit w i) \<Longrightarrow> unat w < 2 ^ k" for w :: u64
proof -
  assume "\<forall>i \<ge> k. \<not> bit w i"
  then have "take_bit k w = w" by (intro bit_eqI) (metis bit_take_bit_iff not_le)
  then have "unat w = take_bit k (unat w)" by (metis unsigned_take_bit_eq)
  then show ?thesis by (metis take_bit_nat_less_exp)
qed

lemma bit_bound: "bit w k \<Longrightarrow> 2 ^ k \<le> unat w" for w :: u64
proof (rule ccontr)
  assume b: "bit w k" and "\<not> 2 ^ k \<le> unat w"
  then have "take_bit k (unat w) = unat w" by (simp add: take_bit_nat_eq_self)
  moreover have "bit (unat w) k" using b by (simp add: bit_unsigned_iff)
  ultimately show False by (metis bit_take_bit_iff less_irrefl)
qed

lemma unat_of_nat_u64: "m < 2 ^ 64 \<Longrightarrow> unat (of_nat m :: u64) = m"
  by (simp add: unat_of_nat)

lemma length_takeWhile_less: "x \<in> set xs \<Longrightarrow> \<not> P x \<Longrightarrow> length (takeWhile P xs) < length xs"
  by (induction xs) auto

lemma leading_zeros_spec:
  fixes w :: u64
  assumes "w \<noteq> 0"
  shows "unat w < 2 ^ (64 - leading_zeros w)" and "2 ^ (64 - leading_zeros w - 1) \<le> unat w" and "0 < 64 - leading_zeros w"
proof -
  let ?z = "leading_zeros w" and ?L = "rev [0..<64::nat]"
  obtain i where i: "bit w i" using assms by (metis bit_0_eq bit_eqI bot2E bot_apply)
  have i64: "i < 64" using i bit_imp_le_length [of w i] by simp
  have "i \<in> set ?L" using i64 by simp
  then have z: "?z < 64" using i length_takeWhile_less [of i ?L "\<lambda>i. \<not> bit w i"] by (simp add: leading_zeros_def)
  have nth: "?L ! j = 63 - j" if "j < 64" for j using that by (simp add: rev_nth)
  have "bit w (?L ! ?z)" using nth_length_takeWhile [of "\<lambda>i. \<not> bit w i" ?L] z
    by (simp add: leading_zeros_def)
  then have top: "bit w (63 - ?z)" using nth [OF z] by simp
  have "\<not> bit w j" if j: "64 - ?z \<le> j" for j
  proof (cases "j < 64")
    case True
    then have "63 - j < ?z" using j by linarith
    then have "\<not> bit w (?L ! (63 - j))"
      using takeWhile_nth [of "63 - j" "\<lambda>i. \<not> bit w i" ?L] nth_mem [of "63 - j" "takeWhile (\<lambda>i. \<not> bit w i) ?L"]
      by (metis leading_zeros_def set_takeWhileD)
    then show ?thesis using nth [of "63 - j"] True by simp
  qed (use bit_imp_le_length [of w j] in auto)
  then show "unat w < 2 ^ (64 - ?z)" by (intro unat_bound_bits) blast
  show "2 ^ (64 - ?z - 1) \<le> unat w" using bit_bound [OF top] z by (simp add: numeral_eq_Suc)
  show "0 < 64 - ?z" using z by simp
qed

lemma merkle_tree_depth_eq:
  assumes "1 \<le> n" and "n < 2 ^ 64"
  shows "merkle_tree_depth n = tree_depth n"
proof (cases "n = 1")
  case True
  then show ?thesis by (simp add: merkle_tree_depth_def tree_depth.simps)
next
  case False
  let ?w = "of_nat (n - 1) :: u64"
  have u: "unat ?w = n - 1" using assms by (intro unat_of_nat_u64) linarith
  then have "?w \<noteq> 0" using False assms by (metis diff_is_0_eq le_antisym unat_0)
  note L = leading_zeros_spec [OF this]
  have "tree_depth n = 64 - leading_zeros ?w"
    by (rule tree_depth_unique) (use L u False assms in auto)
  then show ?thesis using False assms by (simp add: merkle_tree_depth_def)
qed

section \<open>Laws of body verification\<close>

lemma adjacent_equal_sorted: "sorted xs \<Longrightarrow> adjacent_equal xs \<longleftrightarrow> \<not> distinct xs"
proof (induction xs rule: adjacent_equal.induct)
  case (1 x y xs)
  have "x \<notin> set xs" if "x \<noteq> y" using 1(2) that by auto
  then show ?case using 1 by auto
qed simp_all

lemma calculate_root_no_dups_eq:
  "calculate_root_no_dups env xs = Some (if xs = [] then Err EmptyBlock
     else if distinct xs then Ok (level_root (hash_pair env) xs) else Err DuplicateTransaction)"
  by (simp add: calculate_root_no_dups_def calculate_root_eq adjacent_equal_sorted)

lemma length_witness_leaves [simp]: "length (witness_leaves env txs) = length txs"
  by (simp add: witness_leaves_def)

section \<open>Properties\<close>

definition sample_body_env :: body_env where
  "sample_body_env = btc_env.extend sample_btc_env (body_env.fields
     (\<lambda>t. []) (\<lambda>t. []) (\<lambda>t. map (ucast \<circ> to_value) (tx_output t)) (\<lambda>t. [1])
     (\<lambda>t. concat (map (concat \<circ> ti_witness) (tx_input t))) (\<lambda>t. tx_input t \<noteq> []))"

definition sample_body_tx :: "u64 \<Rightarrow> transaction" where
  "sample_body_tx v = \<lparr>tx_input = [], tx_output = [\<lparr>to_value = v, to_script_pubkey = []\<rparr>]\<rparr>"

text \<open>C27: a generated inclusion proof verifies.  For every transaction of a block, generation returns a
  proof without panicking, and the proof is accepted for that transaction against the block's Merkle
  root and transaction count; outside the block it returns no proof.\<close>
theorem generated_inclusion_proof_verifies:
  assumes "length txs < 2 ^ 64"
  shows "(if unat idx < length txs
     then \<exists>pf. generate env txs idx = Some (Some pf) \<and> tip_position pf = idx
       \<and> verify_inclusion env pf (txs ! unat idx)
           (level_root (hash_pair env) (map (btc_compute_txid env) txs)) (length txs)
     else generate env txs idx = Some None)"
proof (cases "unat idx < length txs")
  case True
  let ?xs = "map (btc_compute_txid env) txs"
  have "?xs \<noteq> []" "unat idx < length ?xs" using True by auto
  from generate_loop_complete [OF this, of env] obtain sibs where s: "generate_loop env ?xs idx = Some sibs"
    "length sibs = tree_depth (length txs)" "compute_root_loop env (?xs ! unat idx) idx sibs = level_root (hash_pair env) ?xs"
    by auto
  have "length sibs = merkle_tree_depth (length txs)"
    using s(2) merkle_tree_depth_eq [of "length txs"] assms True by simp
  moreover have "txs \<noteq> []" using True by auto
  ultimately show ?thesis using True s(1,3)
    by (simp add: generate_def verify_inclusion_def compute_root_def)
qed (simp add: generate_def)

theorem generated_inclusion_proof_verifies_witness:
  "\<exists>pf. generate sample_body_env [sample_body_tx 1, sample_body_tx 2, sample_body_tx 3] 2 = Some (Some pf)
     \<and> verify_inclusion sample_body_env pf (sample_body_tx 3)
         (level_root (hash_pair sample_body_env) (map (btc_compute_txid sample_body_env)
            [sample_body_tx 1, sample_body_tx 2, sample_body_tx 3])) (length [sample_body_tx 1, sample_body_tx 2, sample_body_tx 3])"
  using generated_inclusion_proof_verifies [of "[sample_body_tx 1, sample_body_tx 2, sample_body_tx 3]" 2 sample_body_env]
  by auto

text \<open>C18: an accepted inclusion proof shows inclusion.  If a proof verifies for a transaction against the
  root of a block's transactions, with that block's count, then the transaction at the proof's position
  has the same identifier.  An inner node cannot be passed off as a leaf.  The hash is taken to be free of
  collisions among the pairs actually hashed, by the tree and along the proof.\<close>
theorem inclusion_proof_is_sound:
  assumes "leaves \<noteq> []" and "length leaves < 2 ^ 64"
    and "verify_inclusion env pf tx (level_root (hash_pair env) leaves) (length leaves)"
    and "collision_free (hash_pair env) (set (tree_pairs (hash_pair env) leaves)
           \<union> set (path_pairs env (btc_compute_txid env tx) (tip_position pf) (tip_siblings pf)))"
  shows "unat (tip_position pf) < length leaves \<and> btc_compute_txid env tx = leaves ! unat (tip_position pf)"
proof -
  have len: "1 \<le> length leaves" using assms(1) by (simp add: Suc_le_eq)
  have v: "unat (tip_position pf) < length leaves" "length (tip_siblings pf) = tree_depth (length leaves)"
    "compute_root_loop env (btc_compute_txid env tx) (tip_position pf) (tip_siblings pf) = level_root (hash_pair env) leaves"
    using assms(3) merkle_tree_depth_eq [OF len assms(2)]
    by (auto simp: verify_inclusion_def compute_root_def split: if_splits)
  from compute_root_loop_sound [OF assms(1) v assms(4)] show ?thesis using v(1) by simp
qed

theorem inclusion_proof_is_sound_witness:
  "btc_compute_txid sample_body_env (sample_body_tx 2) = [[7, 1, 1], [7, 2, 1], [7, 3, 1]] ! 1"
proof -
  let ?pf = "\<lparr>tip_position = 1, tip_siblings = [[7, 1, 1], hash_pair sample_body_env [7, 3, 1] [7, 3, 1]]\<rparr>"
  let ?xs = "[[7, 1, 1], [7, 2, 1], [7, 3, 1]] :: buf32 list"
  have "verify_inclusion sample_body_env ?pf (sample_body_tx 2) (level_root (hash_pair sample_body_env) ?xs) (length ?xs)"
    by code_simp
  moreover have "collision_free (hash_pair sample_body_env) (set (tree_pairs (hash_pair sample_body_env) ?xs)
           \<union> set (path_pairs sample_body_env (btc_compute_txid sample_body_env (sample_body_tx 2))
               (tip_position ?pf) (tip_siblings ?pf)))"
    by code_simp
  ultimately show ?thesis using inclusion_proof_is_sound [of ?xs sample_body_env ?pf "sample_body_tx 2"] by simp
qed

text \<open>C17: a root without duplicates binds the transaction list.  If two lists of identifiers both pass the
  duplicate check, give the same root and need trees of the same depth, they are the same list; so
  rejecting equal leaves alone excludes, on every level, the mutation of repeating a trailing subtree.
  The hash is taken to be free of collisions among the pairs the two trees hash.\<close>
theorem root_without_duplicates_binds_body:
  assumes "calculate_root_no_dups env xs = Some (Ok root)" and "calculate_root_no_dups env ys = Some (Ok root)"
    and "merkle_tree_depth (length xs) = merkle_tree_depth (length ys)" and "length xs < 2 ^ 64" and "length ys < 2 ^ 64"
    and "collision_free (hash_pair env) (set (tree_pairs (hash_pair env) xs) \<union> set (tree_pairs (hash_pair env) ys))"
  shows "xs = ys"
proof -
  have x: "xs \<noteq> []" "distinct xs" "root = level_root (hash_pair env) xs"
    using assms(1) by (auto simp: calculate_root_no_dups_eq split: if_splits)
  have y: "ys \<noteq> []" "distinct ys" "root = level_root (hash_pair env) ys"
    using assms(2) by (auto simp: calculate_root_no_dups_eq split: if_splits)
  have "tree_depth (length xs) = tree_depth (length ys)"
    using assms(3) merkle_tree_depth_eq [OF _ assms(4)] merkle_tree_depth_eq [OF _ assms(5)] x(1) y(1)
    by (simp add: Suc_le_eq)
  then show ?thesis using root_binds_leaves [OF x(2) y(2) x(1) y(1) _ assms(6)] x(3) y(3) by simp
qed

theorem root_without_duplicates_binds_body_witness:
  "\<exists>root. calculate_root_no_dups sample_body_env [[1], [2], [3]] = Some (Ok root)
     \<and> calculate_root_no_dups sample_body_env (rev [[3], [2], [1]]) = Some (Ok root)
     \<and> [[1], [2], [3]] = (rev [[3], [2], [1]] :: buf32 list)"
proof -
  let ?xs = "[[1], [2], [3]] :: buf32 list" and ?ys = "rev [[3], [2], [1]] :: buf32 list"
  let ?r = "level_root (hash_pair sample_body_env) ?xs"
  have x: "calculate_root_no_dups sample_body_env ?xs = Some (Ok ?r)" by (simp add: calculate_root_no_dups_eq)
  have y: "calculate_root_no_dups sample_body_env ?ys = Some (Ok ?r)" by (simp add: calculate_root_no_dups_eq)
  have "collision_free (hash_pair sample_body_env) (set (tree_pairs (hash_pair sample_body_env) ?xs)
      \<union> set (tree_pairs (hash_pair sample_body_env) ?ys))" by code_simp
  with root_without_duplicates_binds_body [OF x y] have "?xs = ?ys" by simp
  then show ?thesis using x y by blast
qed

text \<open>What the header commits to, for a block with the coinbase first: with a commitment in the coinbase, the
  witness identifiers, through the commitment and the coinbase's only witness item, and the coinbase;
  without one, all the identifiers, and there is no witness data.\<close>

definition body_committed :: "'e body_env_scheme \<Rightarrow> block \<Rightarrow> txid_inclusion_proof option \<Rightarrow> buf32 \<Rightarrow> bool" where
  "body_committed env block proof_opt root \<longleftrightarrow>
     (\<exists>coinbase rest. bl_txdata block = coinbase # rest \<and> is_coinbase env coinbase
    \<and> (case witness_commitment_from_coinbase coinbase of
         Some commitment \<Rightarrow> \<exists>pf txin ins reserved. proof_opt = Some pf
           \<and> tx_input coinbase = txin # ins \<and> ti_witness txin = [reserved] \<and> length reserved = 32
           \<and> distinct (witness_leaves env (bl_txdata block))
           \<and> root = level_root (hash_pair env) (witness_leaves env (bl_txdata block))
           \<and> commitment = sha256d env (root @ reserved)
           \<and> verify_inclusion env pf coinbase (hd_merkle_root (bl_header block)) (length (bl_txdata block))
       | None \<Rightarrow> (\<forall>tx \<in> set (bl_txdata block). \<forall>txin \<in> set (tx_input tx). ti_witness txin = [])
           \<and> distinct (map (btc_compute_txid env) (bl_txdata block))
           \<and> root = level_root (hash_pair env) (map (btc_compute_txid env) (bl_txdata block))
           \<and> root = hd_merkle_root (bl_header block)))"

lemma check_block_integrity_iff:
  "check_block_integrity env block proof_opt = Some (Ok root) \<longleftrightarrow> body_committed env block proof_opt root"
proof (cases "bl_txdata block")
  case Nil
  then show ?thesis by (simp add: check_block_integrity_def body_committed_def)
next
  case (Cons coinbase rest)
  have ne: "witness_leaves env (coinbase # rest) \<noteq> []" by (simp add: witness_leaves_def)
  show ?thesis
  proof (cases "witness_commitment_from_coinbase coinbase")
    case None
    then show ?thesis using Cons
      by (auto simp: check_block_integrity_def body_committed_def compute_merkle_root_def calculate_root_no_dups_eq)
  next
    case (Some commitment)
    show ?thesis
    proof (cases "\<exists>pf txin ins reserved. proof_opt = Some pf \<and> tx_input coinbase = txin # ins
        \<and> ti_witness txin = [reserved] \<and> length reserved = 32")
      case True
      then obtain pf txin ins reserved where w: "proof_opt = Some pf" "tx_input coinbase = txin # ins"
        "ti_witness txin = [reserved]" "length reserved = 32" by blast
      show ?thesis using Cons Some w ne
        by (auto simp: check_block_integrity_def body_committed_def compute_witness_root_def calculate_root_no_dups_eq Let_def)
    next
      case False
      then show ?thesis using Cons Some
        by (auto simp: check_block_integrity_def body_committed_def split: option.splits list.splits if_splits)
    qed
  qed
qed

text \<open>The pairs hashed for the witness commitment of a block: those of the tree and the root with the
  coinbase's witness item.\<close>

definition commitment_pairs :: "'e body_env_scheme \<Rightarrow> transaction list \<Rightarrow> (buf32 \<times> buf32) set" where
  "commitment_pairs env txs =
     set (tree_pairs (hash_pair env) (witness_leaves env txs))
   \<union> {(level_root (hash_pair env) (witness_leaves env txs), hd (ti_witness (hd (tx_input (hd txs)))))}"

lemma commitment_binds_witnesses:
  assumes "body_committed env b pf root" and "body_committed env b' pf' root'"
    and "witness_commitment_from_coinbase (hd (bl_txdata b)) = Some c"
    and "witness_commitment_from_coinbase (hd (bl_txdata b')) = Some c"
    and "merkle_tree_depth (length (bl_txdata b)) = merkle_tree_depth (length (bl_txdata b'))"
    and "length (bl_txdata b) < 2 ^ 64" and "length (bl_txdata b') < 2 ^ 64"
    and "collision_free (hash_pair env) (commitment_pairs env (bl_txdata b) \<union> commitment_pairs env (bl_txdata b'))"
  shows "root = root' \<and> witness_leaves env (bl_txdata b) = witness_leaves env (bl_txdata b')"
proof -
  let ?l = "witness_leaves env (bl_txdata b)" and ?l' = "witness_leaves env (bl_txdata b')"
  let ?w = "hd (ti_witness (hd (tx_input (hd (bl_txdata b)))))" and ?w' = "hd (ti_witness (hd (tx_input (hd (bl_txdata b')))))"
  have B: "bl_txdata b \<noteq> []" "distinct ?l" "root = level_root (hash_pair env) ?l" "c = hash_pair env root ?w"
    using assms(1,3) by (auto simp: body_committed_def sha256d_pair)
  have B': "bl_txdata b' \<noteq> []" "distinct ?l'" "root' = level_root (hash_pair env) ?l'" "c = hash_pair env root' ?w'"
    using assms(2,4) by (auto simp: body_committed_def sha256d_pair)
  have "(root, ?w) \<in> commitment_pairs env (bl_txdata b)" "(root', ?w') \<in> commitment_pairs env (bl_txdata b')"
    using B(3) B'(3) by (simp_all add: commitment_pairs_def)
  then have eq: "root = root'" using inj_onD [OF assms(8), of "(root, ?w)" "(root', ?w')"] B(4) B'(4) by simp
  have "collision_free (hash_pair env) (set (tree_pairs (hash_pair env) ?l) \<union> set (tree_pairs (hash_pair env) ?l'))"
    by (rule inj_on_subset [OF assms(8)]) (auto simp: commitment_pairs_def)
  moreover have "tree_depth (length ?l) = tree_depth (length ?l')"
    using assms(5) merkle_tree_depth_eq [OF _ assms(6)] merkle_tree_depth_eq [OF _ assms(7)] B(1) B'(1)
    by (simp add: Suc_le_eq)
  moreover have "?l \<noteq> []" "?l' \<noteq> []" using B(1) B'(1) by (metis length_0_conv length_witness_leaves)+
  ultimately show ?thesis using root_binds_leaves [OF B(2) B'(2)] B(3) B'(3) eq by metis
qed

text \<open>C26: exactly the committed blocks are accepted, and the commitment binds.  A block is accepted with a root
  if and only if it starts with a coinbase and, when the coinbase has a witness commitment, the commitment
  is the hash of that root, of the pairwise distinct witness identifiers with a zero leaf for the coinbase,
  followed by the 32 bytes that are the coinbase's only witness item, and the coinbase is proved included
  under the header's root; when it has none, no transaction carries a witness and the root is the header's,
  of the pairwise distinct identifiers.  Two accepted blocks with the same commitment and trees of one depth
  have the same root and the same witness identifiers, absent collisions among the pairs hashed.\<close>
theorem accepted_block_is_committed:
  "(check_block_integrity env b pf = Some (Ok root) \<longleftrightarrow> body_committed env b pf root)
   \<and> (check_block_integrity env b pf = Some (Ok root) \<and> check_block_integrity env b' pf' = Some (Ok root')
      \<and> witness_commitment_from_coinbase (hd (bl_txdata b)) = Some c
      \<and> witness_commitment_from_coinbase (hd (bl_txdata b')) = Some c
      \<and> merkle_tree_depth (length (bl_txdata b)) = merkle_tree_depth (length (bl_txdata b'))
      \<and> length (bl_txdata b) < 2 ^ 64 \<and> length (bl_txdata b') < 2 ^ 64
      \<and> collision_free (hash_pair env) (commitment_pairs env (bl_txdata b) \<union> commitment_pairs env (bl_txdata b'))
      \<longrightarrow> root = root' \<and> witness_leaves env (bl_txdata b) = witness_leaves env (bl_txdata b'))"
  unfolding check_block_integrity_iff using commitment_binds_witnesses [of env b pf root b' pf' root' c] by blast

text \<open>A block with a witness commitment: the coinbase, whose witness item is 32 nines, and a spend.\<close>

definition sample_commit_env :: body_env where
  "sample_commit_env = sample_body_env\<lparr>sha256d := (\<lambda>b. take 32 (rev b @ replicate 32 0))\<rparr>"

definition sample_spend :: transaction where
  "sample_spend = \<lparr>tx_input = [\<lparr>ti_previous_output = \<lparr>op_txid = [3], op_vout = 0\<rparr>, ti_witness = [[5, 6]]\<rparr>],
     tx_output = [\<lparr>to_value = 4, to_script_pubkey = []\<rparr>]\<rparr>"

definition sample_coinbase :: transaction where
  "sample_coinbase = \<lparr>tx_input = [\<lparr>ti_previous_output = \<lparr>op_txid = [], op_vout = 0\<rparr>, ti_witness = [replicate 32 9]\<rparr>],
     tx_output = [\<lparr>to_value = 50, to_script_pubkey = witness_magic @ replicate 32 9\<rparr>]\<rparr>"

definition sample_commit_block :: block where
  "sample_commit_block = \<lparr>bl_header = (sample_header [] 0 0)\<lparr>hd_merkle_root :=
       hash_pair sample_commit_env (btc_compute_txid sample_commit_env sample_coinbase) (btc_compute_txid sample_commit_env sample_spend)\<rparr>,
     bl_txdata = [sample_coinbase, sample_spend]\<rparr>"

definition sample_commit_proof :: txid_inclusion_proof where
  "sample_commit_proof = \<lparr>tip_position = 0, tip_siblings = [btc_compute_txid sample_commit_env sample_spend]\<rparr>"

theorem accepted_block_is_committed_witness:
  "\<exists>root. check_block_integrity sample_commit_env sample_commit_block (Some sample_commit_proof) = Some (Ok root)
     \<and> root = level_root (hash_pair sample_commit_env) [replicate 32 0, compute_wtxid sample_commit_env sample_spend]
     \<and> sha256d sample_commit_env (root @ replicate 32 9) = replicate 32 9
     \<and> check_block_integrity sample_commit_env (sample_commit_block\<lparr>bl_header := (bl_header sample_commit_block)\<lparr>hd_nonce := 1\<rparr>\<rparr>)
         (Some sample_commit_proof) = Some (Ok root)"
proof -
  let ?b = sample_commit_block and ?env = sample_commit_env and ?pf = "Some sample_commit_proof"
  let ?b' = "?b\<lparr>bl_header := (bl_header ?b)\<lparr>hd_nonce := 1\<rparr>\<rparr>"
  let ?root = "level_root (hash_pair ?env) (witness_leaves ?env (bl_txdata ?b))"
  have txs: "bl_txdata ?b = [sample_coinbase, sample_spend]" by (simp add: sample_commit_block_def)
  have c: "witness_commitment_from_coinbase (hd (bl_txdata ?b)) = Some (replicate 32 9)" by code_simp
  have cf: "collision_free (hash_pair ?env) (commitment_pairs ?env (bl_txdata ?b) \<union> commitment_pairs ?env (bl_txdata ?b))"
    by code_simp
  have hash: "sha256d ?env (?root @ replicate 32 9) = replicate 32 9" by code_simp
  have com: "is_coinbase ?env sample_coinbase" "distinct (witness_leaves ?env (bl_txdata ?b))"
    "verify_inclusion ?env sample_commit_proof sample_coinbase (hd_merkle_root (bl_header ?b)) (length (bl_txdata ?b))"
    by code_simp+
  have "body_committed ?env ?b ?pf ?root" "body_committed ?env ?b' ?pf ?root"
    using c hash com by (simp_all add: body_committed_def txs sample_coinbase_def)
  then have "check_block_integrity ?env ?b ?pf = Some (Ok ?root) \<and> (\<exists>root'. check_block_integrity ?env ?b' ?pf = Some (Ok root'))"
    using accepted_block_is_committed by blast
  then obtain root root' where root: "check_block_integrity ?env ?b ?pf = Some (Ok root)" "root = ?root"
    "check_block_integrity ?env ?b' ?pf = Some (Ok root')" by blast
  have "root = root'"
    using accepted_block_is_committed [of ?env ?b ?pf root ?b' ?pf root'] root(1,3) c cf by (simp add: txs)
  moreover have "witness_leaves ?env (bl_txdata ?b) = [replicate 32 0, compute_wtxid ?env sample_spend]"
    unfolding txs by (simp add: witness_leaves_def)
  ultimately show ?thesis using root hash by metis
qed

end
