(* ===== verification/Stf.thy ===== *)
theory Stf
  imports Admin_Subprotocol Checkpoint_Subprotocol Bridge_Subprotocol Block_Body
begin

text \<open>
  The state transition of the anchor state machine: the anchor state and its sections
  (\<open>crates/state\<close>, \<open>crates/common/src/section.rs\<close>), the two rulesets and genesis (\<open>crates/spec\<close>,
  \<open>crates/params\<close>), and the pipeline that loads the subprotocols, feeds them a block, delivers their
  messages and assembles the next state and the manifest (\<open>crates/stf\<close>).  The three subprotocols are run
  in the order administration, checkpoint, bridge in every stage.  The SSZ codec of the sections, the tag
  parser, the manifest hash and the manifest MMR are library code, fields of \<open>stf_env\<close>.
\<close>

section \<open>Anchor state\<close>

record section_state =
  sec_id :: u8
  sec_version :: u16
  sec_data :: bytes

record 'm anchor_state =
  an_spec_id :: u16
  an_magic :: bytes
  an_pow_state :: header_verification_state
  an_history :: 'm
  an_sections :: "section_state list"

record asm_manifest =
  mf_height :: u32
  mf_blkid :: block_id
  mf_wtxids_root :: buf32
  mf_logs :: "asm_log list"

record 'm stf_env =
  se_checkpoint :: checkpoint_env
  se_body :: body_env
  se_admin :: admin_env
  se_mmr :: "'m mmr_env"
  se_try_parse_tx :: "bytes \<Rightarrow> transaction \<Rightarrow> (string, tag_data) result"
  se_manifest_hash :: "asm_manifest \<Rightarrow> manifest_hash"
  se_admin_encode :: "admin_state \<Rightarrow> bytes"
  se_admin_decode :: "bytes \<Rightarrow> (string, admin_state) result"
  se_checkpoint_encode :: "checkpoint_state \<Rightarrow> bytes"
  se_checkpoint_decode :: "bytes \<Rightarrow> (string, checkpoint_state) result"
  se_bridge_encode :: "bridge_state \<Rightarrow> bytes"
  se_bridge_decode :: "bytes \<Rightarrow> (string, bridge_state) result"

datatype asm_error =
    SectionVersionMismatch u8 u16 u16 | SubprotoIdMismatch u8 u8 | Deserialization u8 string
  | InvalidL1Body l1_body_error | InvalidL1Header l1_verification_error | MerkleError string
  | TooManyLogs nat | InvalidAuxData aux_error | SectionTooLarge u8 nat | TooManySections nat

definition max_sections :: nat where "max_sections = 256"
definition max_section_state_bytes :: nat where "max_section_state_bytes = 2 ^ 20"
definition max_logs_per_manifest :: nat where "max_logs_per_manifest = 2 ^ 10"

definition administration_subprotocol_id :: u8 where "administration_subprotocol_id = 0"
definition checkpoint_subprotocol_id :: u8 where "checkpoint_subprotocol_id = 1"
definition state_version :: u16 where "state_version = 0"

definition find_section :: "u8 \<Rightarrow> 'm anchor_state \<Rightarrow> section_state option" where
  "find_section i self = List.find (\<lambda>s. sec_id s = i) (an_sections self)"

definition section_new :: "u8 \<Rightarrow> u16 \<Rightarrow> bytes \<Rightarrow> (nat, section_state) result" where
  "section_new i version data =
     (if max_section_state_bytes < length data then Err (length data)
      else Ok \<lparr>sec_id = i, sec_version = version, sec_data = data\<rparr>)"

definition from_state :: "u8 \<Rightarrow> ('s \<Rightarrow> bytes) \<Rightarrow> 's \<Rightarrow> (asm_error, section_state) result" where
  "from_state i encode state = map_err (SectionTooLarge i) (section_new i state_version (encode state))"

definition try_to_state :: "u8 \<Rightarrow> (bytes \<Rightarrow> (string, 's) result) \<Rightarrow> section_state \<Rightarrow> (asm_error, 's) result" where
  "try_to_state i decode self =
     (if i \<noteq> sec_id self then Err (SubprotoIdMismatch i (sec_id self))
      else if state_version \<noteq> sec_version self
      then Err (SectionVersionMismatch (sec_id self) state_version (sec_version self))
      else map_err (Deserialization (sec_id self)) (decode (sec_data self)))"

definition manifest_new ::
  "u32 \<Rightarrow> block_id \<Rightarrow> buf32 \<Rightarrow> asm_log list \<Rightarrow> (asm_error, asm_manifest) result" where
  "manifest_new height blkid wtxids_root logs =
     (if max_logs_per_manifest < length logs then Err (TooManyLogs (length logs))
      else Ok \<lparr>mf_height = height, mf_blkid = blkid, mf_wtxids_root = wtxids_root, mf_logs = logs\<rparr>)"

definition add_manifest :: "'m stf_env \<Rightarrow> asm_manifest \<Rightarrow> 'm \<Rightarrow> (asm_error, 'm) result" where
  "add_manifest env manifest m = map_err MerkleError (mmr_add_leaf (se_mmr env) m (se_manifest_hash env manifest))"

section \<open>Rulesets and genesis\<close>

datatype asm_spec = StrataAsmSpec | StrataAsmSpecV1

fun spec_id :: "asm_spec \<Rightarrow> u16" where
  "spec_id StrataAsmSpec = 0"
| "spec_id StrataAsmSpecV1 = 1"

fun bridge_rules :: "asm_spec \<Rightarrow> claim_version" where
  "bridge_rules StrataAsmSpec = ClaimV0"
| "bridge_rules StrataAsmSpecV1 = ClaimV1"

fun prepare :: "asm_spec \<Rightarrow> 'm anchor_state \<Rightarrow> 'm anchor_state option" where
  "prepare StrataAsmSpec st = (if an_spec_id st = spec_id StrataAsmSpec then Some st else None)"
| "prepare StrataAsmSpecV1 st =
     (if an_spec_id st \<in> {spec_id StrataAsmSpec, spec_id StrataAsmSpecV1}
      then Some (st\<lparr>an_spec_id := spec_id StrataAsmSpecV1\<rparr>) else None)"

datatype subprotocol_instance =
    AdminInstance administration_init_config | BridgeInstance bridge_init_config
  | CheckpointInstance checkpoint_init_config

record asm_params =
  ap_magic :: bytes
  ap_anchor :: l1_anchor
  ap_subprotocols :: "subprotocol_instance list"

fun find_map :: "('a \<Rightarrow> 'b option) \<Rightarrow> 'a list \<Rightarrow> 'b option" where
  "find_map f [] = None"
| "find_map f (x # xs) = (case f x of Some y \<Rightarrow> Some y | None \<Rightarrow> find_map f xs)"

definition admin_config :: "asm_params \<Rightarrow> administration_init_config option" where
  "admin_config self = find_map (\<lambda>s. case s of AdminInstance cfg \<Rightarrow> Some cfg | _ \<Rightarrow> None) (ap_subprotocols self)"

definition bridge_config :: "asm_params \<Rightarrow> bridge_init_config option" where
  "bridge_config self = find_map (\<lambda>s. case s of BridgeInstance cfg \<Rightarrow> Some cfg | _ \<Rightarrow> None) (ap_subprotocols self)"

definition checkpoint_config :: "asm_params \<Rightarrow> checkpoint_init_config option" where
  "checkpoint_config self = find_map (\<lambda>s. case s of CheckpointInstance cfg \<Rightarrow> Some cfg | _ \<Rightarrow> None) (ap_subprotocols self)"

definition set_anchor :: "l1_anchor \<Rightarrow> asm_params \<Rightarrow> asm_params" where
  "set_anchor anchor self =
     self\<lparr>ap_anchor := anchor,
          ap_subprotocols := map (\<lambda>i. case i of
              CheckpointInstance config \<Rightarrow> CheckpointInstance (config\<lparr>cic_genesis_l1_height := l1_block_height (la_block anchor)\<rparr>)
            | _ \<Rightarrow> i) (ap_subprotocols self)\<rparr>"

definition result_expect :: "('e, 'a) result \<Rightarrow> 'a option" where
  "result_expect r = (case r of Ok a \<Rightarrow> Some a | Err _ \<Rightarrow> None)"

definition construct_genesis_state :: "'m stf_env \<Rightarrow> asm_params \<Rightarrow> 'm anchor_state option" where
  "construct_genesis_state env params =
     do {
       cp_config \<leftarrow> checkpoint_config params;
       _ \<leftarrow> result_expect (check_genesis_l1_height cp_config (l1_block_height (la_block (ap_anchor params))));
       adm_config \<leftarrow> admin_config params;
       adm \<leftarrow> admin_new (se_admin env) adm_config;
       admin_section \<leftarrow> result_expect (from_state administration_subprotocol_id (se_admin_encode env) adm);
       checkpoint_section \<leftarrow> result_expect (from_state checkpoint_subprotocol_id (se_checkpoint_encode env) (cs_init cp_config));
       br_config \<leftarrow> bridge_config params;
       bridge \<leftarrow> br_new (se_checkpoint env) br_config;
       bridge_section \<leftarrow> result_expect (from_state bridge_subprotocol_id (se_bridge_encode env) bridge);
       Some \<lparr>an_spec_id = spec_id StrataAsmSpec, an_magic = ap_magic params,
             an_pow_state = hvs_init (ap_anchor params),
             an_history = mmr_new (se_mmr env) (ucast (l1_block_height (la_block (ap_anchor params)))),
             an_sections = [admin_section, checkpoint_section, bridge_section]\<rparr>
     }"

definition spec_genesis_state :: "asm_spec \<Rightarrow> 'm stf_env \<Rightarrow> asm_params \<Rightarrow> 'm anchor_state option" where
  "spec_genesis_state spec env params =
     map_option (\<lambda>st. st\<lparr>an_spec_id := spec_id spec\<rparr>) (construct_genesis_state env params)"

section \<open>The subprotocol manager\<close>

text \<open>All three handlers are in the map between invocations; while one runs its transactions it is taken
  out, so a message to itself finds no handler and panics.\<close>

record manager =
  mg_admin :: admin_state
  mg_checkpoint :: checkpoint_state
  mg_checkpoint_buf :: "checkpoint_incoming_msg list"
  mg_bridge :: bridge_state
  mg_bridge_buf :: "bridge_incoming_msg list"
  mg_logs :: "asm_log list"

fun msg_id :: "interproto_msg \<Rightarrow> u8" where
  "msg_id (BridgeMsg m) = bridge_subprotocol_id"
| "msg_id (CheckpointMsg m) = checkpoint_subprotocol_id"

fun accept_msg :: "interproto_msg \<Rightarrow> manager \<Rightarrow> manager" where
  "accept_msg (BridgeMsg m) mg = mg\<lparr>mg_bridge_buf := mg_bridge_buf mg @ [m]\<rparr>"
| "accept_msg (CheckpointMsg m) mg = mg\<lparr>mg_checkpoint_buf := mg_checkpoint_buf mg @ [m]\<rparr>"

fun relay_msgs :: "u8 \<Rightarrow> interproto_msg list \<Rightarrow> manager \<Rightarrow> manager option" where
  "relay_msgs running [] mg = Some mg"
| "relay_msgs running (m # ms) mg = (if msg_id m = running then None else relay_msgs running ms (accept_msg m mg))"

definition absorb :: "u8 \<Rightarrow> relayer \<Rightarrow> manager \<Rightarrow> manager option" where
  "absorb running r mg = relay_msgs running (rl_msgs r) (mg\<lparr>mg_logs := mg_logs mg @ rl_logs r\<rparr>)"

abbreviation fresh_relayer :: relayer where
  "fresh_relayer \<equiv> \<lparr>rl_msgs = [], rl_logs = []\<rparr>"

definition load_section :: "u8 \<Rightarrow> (bytes \<Rightarrow> (string, 's) result) \<Rightarrow> 'm anchor_state \<Rightarrow> 's option" where
  "load_section i decode st =
     do { sec \<leftarrow> find_section i st; result_expect (try_to_state i decode sec) }"

definition load_stage :: "'m stf_env \<Rightarrow> 'm anchor_state \<Rightarrow> manager option" where
  "load_stage env st =
     do {
       a \<leftarrow> load_section administration_subprotocol_id (se_admin_decode env) st;
       c \<leftarrow> load_section checkpoint_subprotocol_id (se_checkpoint_decode env) st;
       b \<leftarrow> load_section bridge_subprotocol_id (se_bridge_decode env) st;
       Some \<lparr>mg_admin = a, mg_checkpoint = c, mg_checkpoint_buf = [], mg_bridge = b, mg_bridge_buf = [], mg_logs = []\<rparr>
     }"

type_synonym tx_groups = "u8 \<Rightarrow> tx_input_ref list"

definition group_txs_by_subprotocol :: "'m stf_env \<Rightarrow> bytes \<Rightarrow> block \<Rightarrow> tx_groups" where
  "group_txs_by_subprotocol env magic block i =
     filter (\<lambda>t. tag_subproto_id (tir_tag t) = i)
       (List.map_filter (\<lambda>tx. case se_try_parse_tx env magic tx of
            Ok payload \<Rightarrow> Some \<lparr>tir_tx = tx, tir_tag = payload\<rparr>
          | Err _ \<Rightarrow> None) (drop 1 (bl_txdata block)))"

definition pre_process_stage ::
  "'m stf_env \<Rightarrow> 'm anchor_state \<Rightarrow> tx_groups \<Rightarrow> manager \<Rightarrow> aux_requests" where
  "pre_process_stage env st txs mg =
     arc_requests
       (bridge_pre_process_txs (se_checkpoint env) (txs bridge_subprotocol_id)
         (checkpoint_pre_process_txs (se_checkpoint env) (mg_checkpoint mg) (txs checkpoint_subprotocol_id)
           (arc_new (last_inserted_height (se_mmr env) (an_history st)))))"

definition process_stage ::
  "asm_spec \<Rightarrow> 'm stf_env \<Rightarrow> header_verification_state \<Rightarrow> verified_aux_data \<Rightarrow> tx_groups \<Rightarrow> manager \<Rightarrow> manager option" where
  "process_stage spec env header_vs aux txs mg =
     do {
       let (a, r) = admin_process_txs (se_admin env) header_vs (txs administration_subprotocol_id) (mg_admin mg) fresh_relayer;
       mg \<leftarrow> absorb administration_subprotocol_id r (mg\<lparr>mg_admin := a\<rparr>);
       (c, r) \<leftarrow> checkpoint_process_txs (se_checkpoint env) header_vs aux (txs checkpoint_subprotocol_id) (mg_checkpoint mg) fresh_relayer;
       mg \<leftarrow> absorb checkpoint_subprotocol_id r (mg\<lparr>mg_checkpoint := c\<rparr>);
       (b, r) \<leftarrow> bridge_process_txs (se_body env) (se_checkpoint env) (bridge_rules spec) header_vs aux
                   (txs bridge_subprotocol_id) (mg_bridge mg) fresh_relayer;
       absorb bridge_subprotocol_id r (mg\<lparr>mg_bridge := b\<rparr>)
     }"

definition finish_stage :: "'m stf_env \<Rightarrow> l1_block_commitment \<Rightarrow> manager \<Rightarrow> manager option" where
  "finish_stage env l1ref mg =
     do {
       c \<leftarrow> checkpoint_process_msgs l1ref (mg_checkpoint_buf mg) (mg_checkpoint mg);
       b \<leftarrow> bridge_process_msgs (se_checkpoint env) l1ref (mg_bridge_buf mg) (mg_bridge mg);
       Some (mg\<lparr>mg_checkpoint := c, mg_bridge := b\<rparr>)
     }"

definition export_sections ::
  "'m stf_env \<Rightarrow> manager \<Rightarrow> (asm_error, section_state list) result option" where
  "export_sections env mg =
     (case res_bind (from_state administration_subprotocol_id (se_admin_encode env) (mg_admin mg)) (\<lambda>a.
           res_bind (from_state checkpoint_subprotocol_id (se_checkpoint_encode env) (mg_checkpoint mg)) (\<lambda>c.
           res_bind (from_state bridge_subprotocol_id (se_bridge_encode env) (mg_bridge mg)) (\<lambda>b.
             Ok [a, c, b]))) of
        Err e \<Rightarrow> Some (Err e)
      | Ok sections \<Rightarrow> if sorted (map sec_id sections) then Some (Ok sections) else None)"

section \<open>The transition\<close>

record 'm asm_stf_output =
  so_state :: "'m anchor_state"
  so_manifest :: asm_manifest

definition pre_process_asm ::
  "asm_spec \<Rightarrow> 'm stf_env \<Rightarrow> 'm anchor_state \<Rightarrow> block \<Rightarrow> (asm_error, tx_groups \<times> aux_requests) result option" where
  "pre_process_asm spec env pre_state block =
     do {
       st \<leftarrow> prepare spec pre_state;
       (case check_and_update (se_body env) (bl_header block) (an_pow_state st) of
          Err e \<Rightarrow> Some (Err (InvalidL1Header e))
        | Ok _ \<Rightarrow>
            do {
              let txs = group_txs_by_subprotocol env (an_magic st) block;
              mg \<leftarrow> load_stage env st;
              Some (Ok (txs, pre_process_stage env st txs mg))
            })
     }"

definition run_stages ::
  "asm_spec \<Rightarrow> 'm stf_env \<Rightarrow> 'm anchor_state \<Rightarrow> block \<Rightarrow> header_verification_state \<Rightarrow> verified_aux_data \<Rightarrow> manager option" where
  "run_stages spec env st block pow_state aux =
     do {
       let txs = group_txs_by_subprotocol env (an_magic st) block;
       mg \<leftarrow> load_stage env st;
       mg \<leftarrow> process_stage spec env pow_state aux txs mg;
       finish_stage env (hvs_last_verified_block pow_state) mg
     }"

definition assemble ::
  "asm_spec \<Rightarrow> 'm stf_env \<Rightarrow> 'm anchor_state \<Rightarrow> header_verification_state \<Rightarrow> buf32 \<Rightarrow> manager
     \<Rightarrow> (asm_error, 'm asm_stf_output) result option" where
  "assemble spec env st pow_state wtxids_root mg =
     (case export_sections env mg of
        None \<Rightarrow> None
      | Some (Err e) \<Rightarrow> Some (Err e)
      | Some (Ok sections) \<Rightarrow>
         (let l1ref = hvs_last_verified_block pow_state in
          case manifest_new (l1_block_height l1ref) (l1_block_blkid l1ref) wtxids_root (mg_logs mg) of
            Err e \<Rightarrow> Some (Err e)
          | Ok manifest \<Rightarrow>
             (case add_manifest env manifest (an_history st) of
                Err e \<Rightarrow> Some (Err e)
              | Ok history \<Rightarrow>
                  if last_inserted_height (se_mmr env) history \<noteq> ucast (l1_block_height l1ref) then None
                  else if max_sections < length sections then Some (Err (TooManySections (length sections)))
                  else Some (Ok \<lparr>so_state = \<lparr>an_spec_id = spec_id spec, an_magic = an_magic st, an_pow_state = pow_state,
                                              an_history = history, an_sections = sections\<rparr>,
                                 so_manifest = manifest\<rparr>))))"

definition compute_asm_transition ::
  "asm_spec \<Rightarrow> 'm stf_env \<Rightarrow> 'm anchor_state \<Rightarrow> block \<Rightarrow> aux_data \<Rightarrow> txid_inclusion_proof option
     \<Rightarrow> (asm_error, 'm asm_stf_output) result option" where
  "compute_asm_transition spec env pre_state block aux_data coinbase_inclusion_proof =
     (case prepare spec pre_state of
        None \<Rightarrow> None
      | Some st \<Rightarrow>
         (case check_block_integrity (se_body env) block coinbase_inclusion_proof of
            None \<Rightarrow> None
          | Some (Err e) \<Rightarrow> Some (Err (InvalidL1Body e))
          | Some (Ok wtxids_root) \<Rightarrow>
             (case check_and_update (se_body env) (bl_header block) (an_pow_state st) of
                Err e \<Rightarrow> Some (Err (InvalidL1Header e))
              | Ok pow_state \<Rightarrow>
                 (case aux_try_new (se_mmr env) aux_data (an_history st) of
                    Err e \<Rightarrow> Some (Err (InvalidAuxData e))
                  | Ok aux \<Rightarrow>
                     (case run_stages spec env st block pow_state aux of
                        None \<Rightarrow> None
                      | Some mg \<Rightarrow> assemble spec env st pow_state wtxids_root mg)))))"

section \<open>Accounting across the subprotocols\<close>

text \<open>Bridge transactions announce every deposit they add, and nothing else.\<close>

lemma handle_parsed_tx_relay:
  assumes inv: "bridge_inv env s" and room: "nn_count s < 2 ^ 32"
    and run: "handle_parsed_tx env version aux parsed s r = Some ((s', r'), res)"
  shows "\<exists>k. rl_msgs r' = rl_msgs r @ replicate k (CheckpointMsg (DepositProcessed (br_denomination s)))
    \<and> length (br_deposits s') = length (br_deposits s) + k"
proof (cases res)
  case (Inl e)
  then show ?thesis using handle_parsed_tx_ErrD [OF inv run [unfolded Inl]] by (intro exI [of _ 0]) simp
next
  case (Inr u)
  have rem: "br_deposits s' = br_deposits s" if rm: "remove_operator env i s = Some s'" for i
    using remove_operator_frame [OF inv rm] by (elim exE conjE) simp
  show ?thesis
  proof (cases parsed)
    case (ParsedDeposit info)
    then have h: "handle_deposit env aux info s r = Some ((s', r'), Ok ())" using run Inr by (simp add: handle_parsed_tx_def)
    have "rl_msgs r' = rl_msgs r @ [CheckpointMsg (DepositProcessed (br_denomination s))]"
      using handle_deposit_OkD(4) [OF inv h] by (elim exE conjE)
    then show ?thesis using add_deposit_frame [OF inv handle_deposit_OkD(1) [OF inv h]] by (intro exI [of _ 1]) simp
  next
    case (ParsedWithdrawalFulfillment info)
    then have h: "handle_withdrawal_fulfillment env version info s r = Some ((s', r'), Ok ())"
      using run Inr by (simp add: handle_parsed_tx_def)
    from handle_withdrawal_fulfillment_cases [OF inv, of version info r]
    have "s' = fst (br_remove_assignment (wfi_deposit_idx info) s) \<and> rl_msgs r' = rl_msgs r"
    proof (elim disjE exE conjE)
      fix a leaf
      assume "handle_withdrawal_fulfillment env version info s r =
            Some ((fst (br_remove_assignment (wfi_deposit_idx info) s), emit_log (NewExportEntry bridge_subprotocol_id leaf) r), Ok ())"
      then show ?thesis using h by auto
    qed (use h in simp)
    then show ?thesis using br_remove_assignment_spec(1) [OF inv, of "wfi_deposit_idx info"] by (intro exI [of _ 0]) simp
  next
    case (ParsedSlash info)
    then have "remove_operator env (si_operator_idx info) s = Some s'" "r' = r"
      using run Inr handle_removal_OkD(1) [of env aux info s r s' r' res] by (simp_all add: handle_parsed_tx_def)
    then show ?thesis using rem by (intro exI [of _ 0]) simp
  next
    case (ParsedUnstake info)
    then have "remove_operator env (ui_operator_idx info) s = Some s'" "r' = r"
      using run Inr handle_removal_OkD(2) [of env aux info s r s' r' res] by (simp_all add: handle_parsed_tx_def)
    then show ?thesis using rem by (intro exI [of _ 0]) simp
  qed
qed

lemma bridge_handle_txs_relay:
  "bridge_inv env s \<Longrightarrow> nn_count s + length txs \<le> 2 ^ 32 \<Longrightarrow>
     bridge_handle_txs env version aux txs s r = Some (s', r') \<Longrightarrow>
     \<exists>k. rl_msgs r' = rl_msgs r @ replicate k (CheckpointMsg (DepositProcessed (br_denomination s)))
       \<and> length (br_deposits s') = length (br_deposits s) + k"
proof (induction txs arbitrary: s r)
  case Nil
  then show ?case by (intro exI [of _ 0]) simp
next
  case (Cons tx txs)
  show ?case
  proof (cases "bridge_parse_tx env tx")
    case None
    then show ?thesis using Cons.IH [of s r] Cons.prems by auto
  next
    case (Some parsed)
    then obtain s1 r1 res where h: "handle_parsed_tx env version aux parsed s r = Some ((s1, r1), res)"
      "bridge_handle_txs env version aux txs s1 r1 = Some (s', r')"
      using Cons.prems(3) by (auto split: option.splits)
    have room: "nn_count s < 2 ^ 32" using Cons.prems(2) by simp
    note S = handle_parsed_tx_inv [OF Cons.prems(1) room h(1)]
    obtain k where k: "rl_msgs r1 = rl_msgs r @ replicate k (CheckpointMsg (DepositProcessed (br_denomination s)))"
      "length (br_deposits s1) = length (br_deposits s) + k"
      using handle_parsed_tx_relay [OF Cons.prems(1) room h(1)] by blast
    have "nn_count s1 + length txs \<le> 2 ^ 32" using S Cons.prems(2) by simp
    from Cons.IH [OF conjunct1 [OF S] this h(2)] S obtain j where
      "rl_msgs r' = rl_msgs r1 @ replicate j (CheckpointMsg (DepositProcessed (br_denomination s)))"
      "length (br_deposits s') = length (br_deposits s1) + j" by auto
    then show ?thesis using k by (intro exI [of _ "k + j"]) (simp add: replicate_add)
  qed
qed

lemma bridge_process_txs_relay:
  assumes inv: "bridge_inv env s" and room: "nn_count s + length txs \<le> 2 ^ 32"
    and run: "bridge_process_txs benv env version hv aux txs s r = Some (s', r')"
  shows "\<exists>k. rl_msgs r' = rl_msgs r @ replicate k (CheckpointMsg (DepositProcessed (br_denomination s)))
    \<and> length (br_deposits s') = length (br_deposits s) + k"
proof -
  obtain s1 r1 l where h: "bridge_handle_txs env version aux txs s r = Some (s1, r1)"
    "br_reassign_expired_assignments env (hvs_last_verified_block hv) s1 = Some (s', Ok l)" "rl_msgs r' = rl_msgs r1"
    using run by (auto simp: bridge_process_txs_def split: bind_splits sum.splits)
  have inv1: "bridge_inv env s1" using bridge_handle_txs_inv [OF inv room h(1)] by blast
  have "br_deposits s' = br_deposits s1"
    using br_reassign_cases [OF inv1, of "hvs_last_verified_block hv"] h(2) by auto
  then show ?thesis using bridge_handle_txs_relay [OF inv room h(1)] h(3) by simp
qed

text \<open>Bridge messages: only a dispatch takes deposits, one per denomination unit.\<close>

fun dispatched :: "bridge_incoming_msg list \<Rightarrow> withdrawal_intent list" where
  "dispatched [] = []"
| "dispatched (DispatchWithdrawal w # ms) = w # dispatched ms"
| "dispatched (_ # ms) = dispatched ms"

lemma dispatched_append: "dispatched (ms @ ns) = dispatched ms @ dispatched ns"
  by (induction ms rule: dispatched.induct) simp_all

abbreviation units_of :: "u64 \<Rightarrow> withdrawal_intent list \<Rightarrow> nat" where
  "units_of d ws \<equiv> sum_list (map (\<lambda>w. unat (wi_amt w) div unat d) ws)"

lemma bridge_process_msg_deposits:
  assumes inv: "bridge_inv env s" and run: "bridge_process_msg env blk msg s = Some s'"
  shows "length (br_deposits s') + units_of (br_denomination s) (dispatched [msg]) = length (br_deposits s)"
proof (cases msg)
  case (DispatchWithdrawal w)
  then have "dispatch_withdrawal env blk w s = Some s'" using run by (simp add: bridge_process_msg_def)
  then obtain n where n: "denomination_units w (br_denomination s) = Some n" "unat n \<le> length (br_deposits s)"
    "br_deposits s' = drop (unat n) (br_deposits s)" using dispatch_withdrawal_OkD [OF inv] by blast
  have "unat (wi_amt w) div unat (br_denomination s) = unat n" using denomination_units_SomeD [OF n(1)] by simp
  then show ?thesis using n DispatchWithdrawal by simp
next
  case (UpdateOperatorSet add rem)
  then have "apply_operator_set_update env add rem s = Some s'" using run by (simp add: bridge_process_msg_def)
  from apply_update_frame [OF inv this] show ?thesis using UpdateOperatorSet by auto
next
  case (UpdateSafeHarborAddress a)
  then show ?thesis using run
    by (auto simp: bridge_process_msg_def update_safe_harbor_address_def Let_def split: if_splits)
next
  case Defcon
  then show ?thesis using run by (auto simp: bridge_process_msg_def activate_safe_harbor_def)
qed

lemma bridge_process_msgs_deposits:
  "bridge_inv env s \<Longrightarrow> nn_count s + length msgs \<le> 2 ^ 32 \<Longrightarrow> bridge_process_msgs env blk msgs s = Some s' \<Longrightarrow>
     length (br_deposits s') + units_of (br_denomination s) (dispatched msgs) = length (br_deposits s)"
proof (induction msgs arbitrary: s)
  case (Cons msg msgs)
  obtain s1 where s1: "bridge_process_msg env blk msg s = Some s1" "bridge_process_msgs env blk msgs s1 = Some s'"
    using Cons.prems(3) by (auto split: bind_splits)
  have "nn_count s < 2 ^ 32" using Cons.prems(2) by simp
  note S = bridge_process_msg_inv [OF Cons.prems(1) this s1(1)]
  have "nn_count s1 + length msgs \<le> 2 ^ 32" using S Cons.prems(2) by simp
  note IH = Cons.IH [OF conjunct1 [OF S] this s1(2)]
  have "dispatched (msg # msgs) = dispatched [msg] @ dispatched msgs" using dispatched_append [of "[msg]" msgs] by simp
  then show ?case using IH S bridge_process_msg_deposits [OF Cons.prems(1) s1(1)] by simp
qed simp

text \<open>Delivery: a subprotocol that sends nothing to itself always finds its receivers.\<close>

fun checkpoint_msgs :: "interproto_msg list \<Rightarrow> checkpoint_incoming_msg list" where
  "checkpoint_msgs [] = []"
| "checkpoint_msgs (CheckpointMsg m # ms) = m # checkpoint_msgs ms"
| "checkpoint_msgs (BridgeMsg m # ms) = checkpoint_msgs ms"

fun bridge_msgs :: "interproto_msg list \<Rightarrow> bridge_incoming_msg list" where
  "bridge_msgs [] = []"
| "bridge_msgs (BridgeMsg m # ms) = m # bridge_msgs ms"
| "bridge_msgs (CheckpointMsg m # ms) = bridge_msgs ms"

lemma relay_msgs_eq:
  "relay_msgs running ms mg =
     (if \<exists>m \<in> set ms. msg_id m = running then None
      else Some (mg\<lparr>mg_checkpoint_buf := mg_checkpoint_buf mg @ checkpoint_msgs ms,
                    mg_bridge_buf := mg_bridge_buf mg @ bridge_msgs ms\<rparr>))"
proof (induction ms arbitrary: mg)
  case (Cons m ms)
  then show ?case by (cases m) auto
qed simp

lemma absorb_eq:
  "absorb running r mg =
     (if \<exists>m \<in> set (rl_msgs r). msg_id m = running then None
      else Some (mg\<lparr>mg_checkpoint_buf := mg_checkpoint_buf mg @ checkpoint_msgs (rl_msgs r),
                    mg_bridge_buf := mg_bridge_buf mg @ bridge_msgs (rl_msgs r), mg_logs := mg_logs mg @ rl_logs r\<rparr>))"
  by (simp add: absorb_def relay_msgs_eq)

lemma checkpoint_msgs_append [simp]: "checkpoint_msgs (ms @ ns) = checkpoint_msgs ms @ checkpoint_msgs ns"
  by (induction ms rule: checkpoint_msgs.induct) simp_all

lemma bridge_msgs_append [simp]: "bridge_msgs (ms @ ns) = bridge_msgs ms @ bridge_msgs ns"
  by (induction ms rule: bridge_msgs.induct) simp_all

lemma msgs_of_dispatches [simp]:
  "checkpoint_msgs (map (BridgeMsg \<circ> DispatchWithdrawal) ws) = []"
  "bridge_msgs (map (BridgeMsg \<circ> DispatchWithdrawal) ws) = map DispatchWithdrawal ws"
  "dispatched (map DispatchWithdrawal ws) = ws"
  by (induction ws) simp_all

lemma msgs_of_deposits [simp]:
  "checkpoint_msgs (replicate k (CheckpointMsg m)) = replicate k m"
  "bridge_msgs (replicate k (CheckpointMsg m)) = []"
  "deposit_amounts (replicate k (DepositProcessed d)) = replicate k d"
  "filter is_rotation (replicate k (DepositProcessed d)) = []"
  by (induction k) simp_all

lemma rotation_msgs_of:
  "length (filter is_rotation (checkpoint_msgs ms)) = length (filter is_rotation_msg ms)"
proof (induction ms rule: checkpoint_msgs.induct)
  case (2 m ms)
  then show ?case by (cases m) (simp_all add: is_rotation_msg_def)
qed (simp_all add: is_rotation_msg_def)

lemma admin_msgs:
  "deposit_amounts (checkpoint_msgs (concat (map update_msgs us))) = []"
  "dispatched (bridge_msgs (concat (map update_msgs us))) = []"
  "\<forall>m \<in> set (concat (map update_msgs us)). msg_id m \<noteq> administration_subprotocol_id"
proof -
  have one: "deposit_amounts (checkpoint_msgs (update_msgs u)) = [] \<and> dispatched (bridge_msgs (update_msgs u)) = []
    \<and> (\<forall>m \<in> set (update_msgs u). msg_id m \<noteq> administration_subprotocol_id)" for u
    by (cases u) (simp_all add: administration_subprotocol_id_def checkpoint_subprotocol_id_def bridge_subprotocol_id_def)
  show "deposit_amounts (checkpoint_msgs (concat (map update_msgs us))) = []"
    and "dispatched (bridge_msgs (concat (map update_msgs us))) = []"
    and "\<forall>m \<in> set (concat (map update_msgs us)). msg_id m \<noteq> administration_subprotocol_id"
    by (induction us) (use one in \<open>auto simp: deposit_amounts_append dispatched_append\<close>)
qed

section \<open>The invariant of the anchor state\<close>

text \<open>The pool of the checkpoint subprotocol counts the unassigned deposits of the bridge, in the bridge's
  denomination.\<close>

definition peg :: "checkpoint_state \<Rightarrow> bridge_state \<Rightarrow> bool" where
  "peg c b \<longleftrightarrow>
     unat (dp_count (cs_deposits c)) = length (br_deposits b) \<and> br_denomination b \<noteq> 0
   \<and> (dp_is_empty (cs_deposits c) \<or> dp_denomination (cs_deposits c) = br_denomination b)"

definition manager_inv :: "'m stf_env \<Rightarrow> nat \<Rightarrow> manager \<Rightarrow> bool" where
  "manager_inv env h mg \<longleftrightarrow>
     admin_inv h (mg_admin mg) \<and> checkpoint_inv h (mg_checkpoint mg)
   \<and> bridge_inv (se_checkpoint env) (mg_bridge mg) \<and> peg (mg_checkpoint mg) (mg_bridge mg)"

text \<open>No 32-bit counter is exhausted by the block.\<close>

definition counters_fit :: "tx_groups \<Rightarrow> manager \<Rightarrow> manager \<Rightarrow> bool" where
  "counters_fit txs mg mg1 \<longleftrightarrow>
     unat (as_next_update_id (mg_admin mg)) + length (txs administration_subprotocol_id) < 2 ^ 32
   \<and> nn_count (mg_bridge mg) + length (txs bridge_subprotocol_id) \<le> 2 ^ 32
   \<and> nn_count (mg_bridge mg1) + length (mg_bridge_buf mg1) \<le> 2 ^ 32
   \<and> unat (dp_count (cs_deposits (mg_checkpoint mg))) + length (mg_checkpoint_buf mg1) < 2 ^ 32"

lemma process_stage_SomeE:
  assumes "process_stage spec env hv aux txs mg = Some mg1"
  obtains a ra c rc b rb where
    "admin_process_txs (se_admin env) hv (txs administration_subprotocol_id) (mg_admin mg) fresh_relayer = (a, ra)"
    "checkpoint_process_txs (se_checkpoint env) hv aux (txs checkpoint_subprotocol_id) (mg_checkpoint mg) fresh_relayer = Some (c, rc)"
    "bridge_process_txs (se_body env) (se_checkpoint env) (bridge_rules spec) hv aux (txs bridge_subprotocol_id)
       (mg_bridge mg) fresh_relayer = Some (b, rb)"
    "mg1 = mg\<lparr>mg_admin := a, mg_checkpoint := c, mg_bridge := b,
       mg_checkpoint_buf := mg_checkpoint_buf mg @ checkpoint_msgs (rl_msgs ra @ rl_msgs rc @ rl_msgs rb),
       mg_bridge_buf := mg_bridge_buf mg @ bridge_msgs (rl_msgs ra @ rl_msgs rc @ rl_msgs rb),
       mg_logs := mg_logs mg @ rl_logs ra @ rl_logs rc @ rl_logs rb\<rparr>"
proof -
  obtain a ra where a: "admin_process_txs (se_admin env) hv (txs administration_subprotocol_id) (mg_admin mg) fresh_relayer = (a, ra)"
    by (metis surj_pair)
  obtain mga where mga: "absorb administration_subprotocol_id ra (mg\<lparr>mg_admin := a\<rparr>) = Some mga"
    using assms a by (auto simp: process_stage_def Let_def split: bind_splits)
  note Ma = mga [unfolded absorb_eq, simplified]
  have fa: "mg_checkpoint mga = mg_checkpoint mg" "mg_bridge mga = mg_bridge mg" using Ma by (auto split: if_splits)
  obtain c rc where c: "checkpoint_process_txs (se_checkpoint env) hv aux (txs checkpoint_subprotocol_id) (mg_checkpoint mg) fresh_relayer = Some (c, rc)"
    using assms a mga fa by (auto simp: process_stage_def Let_def split: bind_splits)
  obtain mgc where mgc: "absorb checkpoint_subprotocol_id rc (mga\<lparr>mg_checkpoint := c\<rparr>) = Some mgc"
    using assms a mga fa c by (auto simp: process_stage_def Let_def split: bind_splits)
  have fc: "mg_bridge mgc = mg_bridge mg" using mgc fa by (auto simp: absorb_eq split: if_splits)
  obtain b rb where b: "bridge_process_txs (se_body env) (se_checkpoint env) (bridge_rules spec) hv aux (txs bridge_subprotocol_id)
       (mg_bridge mg) fresh_relayer = Some (b, rb)" "absorb bridge_subprotocol_id rb (mgc\<lparr>mg_bridge := b\<rparr>) = Some mg1"
    using assms a mga fa c mgc fc by (auto simp: process_stage_def Let_def split: bind_splits)
  show ?thesis
    by (rule that [OF a c b(1)]) (use mga mgc b(2) in \<open>auto simp: absorb_eq split: if_splits\<close>)
qed

lemma admin_block_relay:
  assumes "admin_inv h s" "unat (l1_block_height (hvs_last_verified_block header_vs)) = Suc h" "nonzero_thresholds env"
    "unat (as_next_update_id s) + length txs < 2 ^ 32" "admin_process_txs env header_vs txs s fresh_relayer = (s', r')"
  obtains us where "admin_inv (Suc h) s'" "rl_msgs r' = concat (map update_msgs us)"
    "length (filter (\<lambda>u. update_type_of u = OlStfVkUpdate) us) \<le> 1"
proof -
  from admin_block_spec [OF assms] obtain ready :: "queued_update list" and imm where B: "admin_inv (Suc h) s'"
    "r' = relayed env (map qu_action ready @ imm) fresh_relayer"
    "\<And>t. t \<in> exclusive \<Longrightarrow> length (filter (\<lambda>u. update_type_of u = t) (map qu_action ready @ imm)) \<le> 1" by metis
  show ?thesis
    by (rule that [of "map qu_action ready @ imm"]) (use B(1) B(3) [of OlStfVkUpdate] in \<open>simp_all add: B(2) relayed_def exclusive_def\<close>)
qed

lemma admin_block_msgs:
  assumes "admin_inv h s" "unat (l1_block_height (hvs_last_verified_block header_vs)) = Suc h" "nonzero_thresholds env"
    "unat (as_next_update_id s) + length txs < 2 ^ 32" "admin_process_txs env header_vs txs s fresh_relayer = (s', r')"
  shows "admin_inv (Suc h) s' \<and> length (filter is_rotation (checkpoint_msgs (rl_msgs r'))) \<le> 1
    \<and> deposit_amounts (checkpoint_msgs (rl_msgs r')) = [] \<and> dispatched (bridge_msgs (rl_msgs r')) = []"
  using admin_block_relay [OF assms] rotation_msgs_of rotation_msgs_count admin_msgs(1,2) by metis

lemma admin_block_targets:
  assumes "admin_inv h s" "unat (l1_block_height (hvs_last_verified_block header_vs)) = Suc h" "nonzero_thresholds env"
    "unat (as_next_update_id s) + length txs < 2 ^ 32" "admin_process_txs env header_vs txs s fresh_relayer = (s', r')"
  shows "\<forall>m \<in> set (rl_msgs r'). msg_id m \<noteq> administration_subprotocol_id"
  using admin_block_relay [OF assms] admin_msgs(3) by metis

text \<open>The stages of a block keep the invariant: what the checkpoint subprotocol dispatched is taken from
  both sides, what the bridge accepted is added to both.\<close>

lemma process_stage_flow:
  assumes inv: "manager_inv env h mg" and buf: "mg_checkpoint_buf mg = []" "mg_bridge_buf mg = []"
    and height: "unat (l1_block_height (hvs_last_verified_block hv)) = Suc h"
    and env: "nonzero_thresholds (se_admin env)"
    and process: "process_stage spec env hv aux txs mg = Some mg1" and fit: "counters_fit txs mg mg1"
  obtains ws c2 where
    "dispatched (mg_bridge_buf mg1) = ws" "\<forall>w \<in> set ws. whole_multiple (br_denomination (mg_bridge mg1)) w"
    "admin_inv (Suc h) (mg_admin mg1)" "bridge_inv (se_checkpoint env) (mg_bridge mg1)"
    "br_denomination (mg_bridge mg1) = br_denomination (mg_bridge mg)"
    "checkpoint_process_msgs (hvs_last_verified_block hv) (mg_checkpoint_buf mg1) (mg_checkpoint mg1) = Some c2"
    "checkpoint_inv (Suc h) c2"
    "dp_is_empty (cs_deposits c2) \<or> dp_denomination (cs_deposits c2) = br_denomination (mg_bridge mg)"
    "unat (dp_count (cs_deposits c2)) + units_of (br_denomination (mg_bridge mg)) ws = length (br_deposits (mg_bridge mg1))"
proof -
  let ?d = "br_denomination (mg_bridge mg)"
  note I = inv [unfolded manager_inv_def peg_def] and Ft = fit [unfolded counters_fit_def]
  from process obtain a ra c rc b rb where
    a: "admin_process_txs (se_admin env) hv (txs administration_subprotocol_id) (mg_admin mg) fresh_relayer = (a, ra)"
    and c: "checkpoint_process_txs (se_checkpoint env) hv aux (txs checkpoint_subprotocol_id) (mg_checkpoint mg) fresh_relayer = Some (c, rc)"
    and b: "bridge_process_txs (se_body env) (se_checkpoint env) (bridge_rules spec) hv aux (txs bridge_subprotocol_id)
       (mg_bridge mg) fresh_relayer = Some (b, rb)"
    and mg1: "mg1 = mg\<lparr>mg_admin := a, mg_checkpoint := c, mg_bridge := b,
       mg_checkpoint_buf := mg_checkpoint_buf mg @ checkpoint_msgs (rl_msgs ra @ rl_msgs rc @ rl_msgs rb),
       mg_bridge_buf := mg_bridge_buf mg @ bridge_msgs (rl_msgs ra @ rl_msgs rc @ rl_msgs rb),
       mg_logs := mg_logs mg @ rl_logs ra @ rl_logs rc @ rl_logs rb\<rparr>"
    by (rule process_stage_SomeE)
  have A: "admin_inv (Suc h) a \<and> length (filter is_rotation (checkpoint_msgs (rl_msgs ra))) \<le> 1
    \<and> deposit_amounts (checkpoint_msgs (rl_msgs ra)) = [] \<and> dispatched (bridge_msgs (rl_msgs ra)) = []"
    by (rule admin_block_msgs [OF _ height env _ a]) (use I Ft in simp_all)
  have binv: "bridge_inv (se_checkpoint env) (mg_bridge mg)" and room: "nn_count (mg_bridge mg) + length (txs bridge_subprotocol_id) \<le> 2 ^ 32"
    using I Ft by simp_all
  obtain k where k: "rl_msgs rb = replicate k (CheckpointMsg (DepositProcessed ?d))"
    "length (br_deposits b) = length (br_deposits (mg_bridge mg)) + k"
    using bridge_process_txs_relay [OF binv room b] by auto
  note B = bridge_process_txs_inv [OF binv room b]
  let ?cm = "mg_checkpoint_buf mg1"
  obtain ws0 where ws0: "rl_msgs rc = map (BridgeMsg \<circ> DispatchWithdrawal) ws0"
    using checkpoint_handle_txs_spec [OF _ height c [unfolded checkpoint_process_txs_def]] I by auto
  have cm: "?cm = checkpoint_msgs (rl_msgs ra) @ replicate k (DepositProcessed ?d)"
    and bm: "mg_bridge_buf mg1 = bridge_msgs (rl_msgs ra) @ map DispatchWithdrawal ws0"
    by (simp_all add: mg1 buf k ws0)
  have amounts: "deposit_amounts ?cm = replicate k ?d" using A by (simp add: cm deposit_amounts_append)
  have "\<exists>ws s2. rl_msgs rc = rl_msgs fresh_relayer @ map (BridgeMsg \<circ> DispatchWithdrawal) ws
    \<and> (\<forall>w \<in> set ws. whole_multiple ?d w)
    \<and> checkpoint_process_msgs (hvs_last_verified_block hv) ?cm c = Some s2
    \<and> checkpoint_inv (Suc h) s2
    \<and> ct_l1_height (cs_verified_tip (mg_checkpoint mg)) \<le> ct_l1_height (cs_verified_tip s2)
    \<and> (dp_is_empty (cs_deposits s2) \<or> dp_denomination (cs_deposits s2) = ?d)
    \<and> unat (dp_count (cs_deposits s2)) + units_of ?d ws
        = unat (dp_count (cs_deposits (mg_checkpoint mg))) + length (deposit_amounts ?cm)"
    by (rule checkpoint_block_spec [OF _ height c]) (use I Ft A amounts in \<open>simp_all add: cm\<close>)
  then obtain ws c2 where C: "rl_msgs rc = map (BridgeMsg \<circ> DispatchWithdrawal) ws"
    "\<forall>w \<in> set ws. whole_multiple ?d w"
    "checkpoint_process_msgs (hvs_last_verified_block hv) ?cm c = Some c2" "checkpoint_inv (Suc h) c2"
    "dp_is_empty (cs_deposits c2) \<or> dp_denomination (cs_deposits c2) = ?d"
    "unat (dp_count (cs_deposits c2)) + units_of ?d ws = length (br_deposits (mg_bridge mg)) + k"
    using I amounts by auto
  have ws: "dispatched (mg_bridge_buf mg1) = ws"
    using A by (simp add: mg1 buf C(1) k(1) dispatched_append)
  show ?thesis
    by (rule that [OF ws]) (use A B C k I in \<open>simp_all add: mg1\<close>)
qed

lemma stages_keep_inv:
  assumes inv: "manager_inv env h mg" and buf: "mg_checkpoint_buf mg = []" "mg_bridge_buf mg = []"
    and height: "unat (l1_block_height (hvs_last_verified_block hv)) = Suc h"
    and env: "nonzero_thresholds (se_admin env)"
    and process: "process_stage spec env hv aux txs mg = Some mg1" and fit: "counters_fit txs mg mg1"
    and finish: "finish_stage env (hvs_last_verified_block hv) mg1 = Some mg2"
  shows "manager_inv env (Suc h) mg2"
proof -
  from process_stage_flow [OF assms(1-7)] obtain ws c2 where F:
    "dispatched (mg_bridge_buf mg1) = ws"
    "admin_inv (Suc h) (mg_admin mg1)" "bridge_inv (se_checkpoint env) (mg_bridge mg1)"
    "br_denomination (mg_bridge mg1) = br_denomination (mg_bridge mg)"
    "checkpoint_process_msgs (hvs_last_verified_block hv) (mg_checkpoint_buf mg1) (mg_checkpoint mg1) = Some c2"
    "checkpoint_inv (Suc h) c2"
    "dp_is_empty (cs_deposits c2) \<or> dp_denomination (cs_deposits c2) = br_denomination (mg_bridge mg)"
    "unat (dp_count (cs_deposits c2)) + units_of (br_denomination (mg_bridge mg)) ws = length (br_deposits (mg_bridge mg1))"
    by metis
  obtain b2 where b2: "bridge_process_msgs (se_checkpoint env) (hvs_last_verified_block hv) (mg_bridge_buf mg1) (mg_bridge mg1) = Some b2"
    "mg2 = mg1\<lparr>mg_checkpoint := c2, mg_bridge := b2\<rparr>"
    using finish F(5) by (auto simp: finish_stage_def split: bind_splits)
  have room: "nn_count (mg_bridge mg1) + length (mg_bridge_buf mg1) \<le> 2 ^ 32" using fit by (simp add: counters_fit_def)
  note D = bridge_process_msgs_inv [OF F(3) room b2(1)] bridge_process_msgs_deposits [OF F(3) room b2(1)]
  have "unat (dp_count (cs_deposits c2)) = length (br_deposits b2)" using D(2) F(1,4,8) by simp
  then show ?thesis using F D(1) inv by (simp add: manager_inv_def peg_def b2(2))
qed

text \<open>Delivery cannot fail for want of deposits: the checkpoint subprotocol never promises more than the
  bridge holds, so the bridge's messages panic at most on an operator-set update or on a deposit whose
  operators have all left.\<close>

fun is_operator_update :: "bridge_incoming_msg \<Rightarrow> bool" where
  "is_operator_update (UpdateOperatorSet _ _) = True"
| "is_operator_update _ = False"

lemma whole_multiple_units:
  assumes "whole_multiple d w"
  obtains n where "denomination_units w d = Some n" "unat n = unat (wi_amt w) div unat d"
proof -
  have "wi_amt w mod d = 0" and "d \<noteq> 0"
    using assms by (auto simp: whole_multiple_def unat_eq_zero [symmetric] unat_mod_distrib)
  then show ?thesis using that by (simp add: denomination_units_def unat_div_distrib)
qed

lemma bridge_process_msgs_succeed:
  "bridge_inv env s \<Longrightarrow> nn_count s + length msgs \<le> 2 ^ 32 \<Longrightarrow> \<forall>m \<in> set msgs. \<not> is_operator_update m \<Longrightarrow>
     \<forall>w \<in> set (dispatched msgs). whole_multiple (br_denomination s) w \<Longrightarrow>
     units_of (br_denomination s) (dispatched msgs) \<le> length (br_deposits s) \<Longrightarrow>
     \<forall>d \<in> set (br_deposits s). deposit_serviceable s d \<Longrightarrow> \<exists>s'. bridge_process_msgs env blk msgs s = Some s'"
proof (induction msgs arbitrary: s)
  case (Cons msg msgs)
  note IH = Cons.IH and inv = Cons.prems(1) and room = Cons.prems(2) and plain = Cons.prems(3)
    and whole = Cons.prems(4) and enough = Cons.prems(5) and srv = Cons.prems(6)
  have "\<exists>s1. bridge_process_msg env blk msg s = Some s1 \<and> br_operators s1 = br_operators s
      \<and> set (br_deposits s1) \<subseteq> set (br_deposits s)"
  proof (cases msg)
    case (DispatchWithdrawal w)
    obtain n where n: "denomination_units w (br_denomination s) = Some n"
      "unat n = unat (wi_amt w) div unat (br_denomination s)"
      using whole_multiple_units whole DispatchWithdrawal by (metis dispatched.simps(2) list.set_intros(1))
    have "unat n \<le> length (br_deposits s)" using enough n(2) DispatchWithdrawal by simp
    from dispatch_withdrawal_succeeds [OF inv n(1) this srv]
    obtain s1 where s1: "dispatch_withdrawal env blk w s = Some s1" by blast
    from dispatch_withdrawal_OkD [OF inv s1] show ?thesis
      using s1 DispatchWithdrawal by (auto simp: bridge_process_msg_def dest: in_set_dropD)
  next
    case (UpdateOperatorSet add rem)
    then show ?thesis using plain by simp
  next
    case (UpdateSafeHarborAddress a)
    then show ?thesis by (simp add: bridge_process_msg_def update_safe_harbor_address_def Let_def)
  next
    case Defcon
    then show ?thesis by (simp add: bridge_process_msg_def activate_safe_harbor_def)
  qed
  then obtain s1 where s1: "bridge_process_msg env blk msg s = Some s1" "br_operators s1 = br_operators s"
    "set (br_deposits s1) \<subseteq> set (br_deposits s)" by blast
  have "nn_count s < 2 ^ 32" using room by simp
  note S = bridge_process_msg_inv [OF inv this s1(1)]
  have split: "dispatched (msg # msgs) = dispatched [msg] @ dispatched msgs" using dispatched_append [of "[msg]" msgs] by simp
  have "\<exists>s'. bridge_process_msgs env blk msgs s1 = Some s'"
  proof (rule IH)
    show "bridge_inv env s1" "nn_count s1 + length msgs \<le> 2 ^ 32" using S room by simp_all
    show "\<forall>m \<in> set msgs. \<not> is_operator_update m" using plain by simp
    show "\<forall>w \<in> set (dispatched msgs). whole_multiple (br_denomination s1) w" using whole S unfolding split by simp
    show "units_of (br_denomination s1) (dispatched msgs) \<le> length (br_deposits s1)"
      using enough S bridge_process_msg_deposits [OF inv s1(1)] unfolding split by simp
    show "\<forall>d \<in> set (br_deposits s1). deposit_serviceable s1 d"
      using srv s1(2,3) by (auto simp: deposit_serviceable_def)
  qed
  then show ?case using s1(1) by simp
qed simp

lemma finish_stage_succeeds:
  assumes "manager_inv env h mg" "mg_checkpoint_buf mg = []" "mg_bridge_buf mg = []"
    "unat (l1_block_height (hvs_last_verified_block hv)) = Suc h" "nonzero_thresholds (se_admin env)"
    "process_stage spec env hv aux txs mg = Some mg1" "counters_fit txs mg mg1"
    and plain: "\<forall>m \<in> set (mg_bridge_buf mg1). \<not> is_operator_update m"
    and srv: "\<forall>d \<in> set (br_deposits (mg_bridge mg1)). deposit_serviceable (mg_bridge mg1) d"
  shows "\<exists>mg2. finish_stage env (hvs_last_verified_block hv) mg1 = Some mg2"
proof -
  from process_stage_flow [OF assms(1-7)] obtain ws c2 where F:
    "dispatched (mg_bridge_buf mg1) = ws" "\<forall>w \<in> set ws. whole_multiple (br_denomination (mg_bridge mg1)) w"
    "bridge_inv (se_checkpoint env) (mg_bridge mg1)"
    "br_denomination (mg_bridge mg1) = br_denomination (mg_bridge mg)"
    "checkpoint_process_msgs (hvs_last_verified_block hv) (mg_checkpoint_buf mg1) (mg_checkpoint mg1) = Some c2"
    "unat (dp_count (cs_deposits c2)) + units_of (br_denomination (mg_bridge mg)) ws = length (br_deposits (mg_bridge mg1))"
    by metis
  have "\<exists>b2. bridge_process_msgs (se_checkpoint env) (hvs_last_verified_block hv) (mg_bridge_buf mg1) (mg_bridge mg1) = Some b2"
    by (rule bridge_process_msgs_succeed [OF F(3) _ plain _ _ srv])
      (use F assms(7) in \<open>simp_all add: counters_fit_def\<close>)
  then show ?thesis using F(5) by (auto simp: finish_stage_def)
qed

text \<open>Between blocks the three sections decode to states that satisfy the invariant at the height of the
  last verified block, and the manifest history ends at that height.\<close>

definition asm_inv :: "'m stf_env \<Rightarrow> nat \<Rightarrow> 'm anchor_state \<Rightarrow> bool" where
  "asm_inv env h st \<longleftrightarrow>
     (\<exists>mg. load_stage env st = Some mg \<and> manager_inv env h mg)
   \<and> unat (l1_block_height (hvs_last_verified_block (an_pow_state st))) = h
   \<and> last_inserted_height (se_mmr env) (an_history st) = of_nat h"

text \<open>A decoder reads back what the encoder of the same section wrote.\<close>

definition sections_roundtrip :: "'m stf_env \<Rightarrow> manager \<Rightarrow> bool" where
  "sections_roundtrip env mg \<longleftrightarrow>
     se_admin_decode env (se_admin_encode env (mg_admin mg)) = Ok (mg_admin mg)
   \<and> se_checkpoint_decode env (se_checkpoint_encode env (mg_checkpoint mg)) = Ok (mg_checkpoint mg)
   \<and> se_bridge_decode env (se_bridge_encode env (mg_bridge mg)) = Ok (mg_bridge mg)"

definition block_admissible :: "asm_spec \<Rightarrow> 'm stf_env \<Rightarrow> 'm anchor_state \<Rightarrow> block \<Rightarrow> aux_data \<Rightarrow> bool" where
  "block_admissible spec env st block aux_data \<longleftrightarrow>
     (case (check_and_update (se_body env) (bl_header block) (an_pow_state st), aux_try_new (se_mmr env) aux_data (an_history st),
            load_stage env st) of
        (Ok pow_state, Ok aux, Some mg) \<Rightarrow>
          (let txs = group_txs_by_subprotocol env (an_magic st) block in
           case process_stage spec env pow_state aux txs mg of
             None \<Rightarrow> True
           | Some mg1 \<Rightarrow> counters_fit txs mg mg1
               \<and> (case finish_stage env (hvs_last_verified_block pow_state) mg1 of
                    None \<Rightarrow> True | Some mg2 \<Rightarrow> sections_roundtrip env mg2))
      | _ \<Rightarrow> True)"

lemma load_stage_bufs:
  "load_stage env st = Some mg \<Longrightarrow> mg_checkpoint_buf mg = [] \<and> mg_bridge_buf mg = [] \<and> mg_logs mg = []"
  by (auto simp: load_stage_def split: bind_splits)

lemma prepare_frame:
  assumes "prepare spec st = Some st'"
  shows "an_magic st' = an_magic st" "an_pow_state st' = an_pow_state st" "an_history st' = an_history st"
    "an_sections st' = an_sections st" "an_spec_id st' = spec_id spec" "an_spec_id st \<le> spec_id spec"
  using assms by (cases spec; auto split: if_splits)+

lemma load_stage_cong: "an_sections st' = an_sections st \<Longrightarrow> load_stage env st' = load_stage env st"
  by (simp add: load_stage_def load_section_def find_section_def)

lemmas subprotocol_ids =
  administration_subprotocol_id_def checkpoint_subprotocol_id_def bridge_subprotocol_id_def

abbreviation sections_of :: "'m stf_env \<Rightarrow> manager \<Rightarrow> section_state list" where
  "sections_of env mg \<equiv>
     [\<lparr>sec_id = administration_subprotocol_id, sec_version = state_version, sec_data = se_admin_encode env (mg_admin mg)\<rparr>,
      \<lparr>sec_id = checkpoint_subprotocol_id, sec_version = state_version, sec_data = se_checkpoint_encode env (mg_checkpoint mg)\<rparr>,
      \<lparr>sec_id = bridge_subprotocol_id, sec_version = state_version, sec_data = se_bridge_encode env (mg_bridge mg)\<rparr>]"

lemma from_state_Ok: "from_state i encode s = Ok sec \<Longrightarrow> sec = \<lparr>sec_id = i, sec_version = state_version, sec_data = encode s\<rparr>"
  by (simp add: from_state_def section_new_def split: if_splits)

lemma export_sections_Ok: "export_sections env mg = Some (Ok secs) \<Longrightarrow> secs = sections_of env mg"
  by (auto simp: export_sections_def res_bind_def dest!: from_state_Ok split: if_splits sum.splits)

lemma load_sections:
  assumes "an_sections st = sections_of env mg" "sections_roundtrip env mg"
  shows "load_stage env st = Some (mg\<lparr>mg_checkpoint_buf := [], mg_bridge_buf := [], mg_logs := []\<rparr>)"
  using assms
  by (cases mg) (simp add: load_stage_def load_section_def find_section_def try_to_state_def result_expect_def
      sections_roundtrip_def subprotocol_ids)

lemma compute_OkD:
  assumes "compute_asm_transition spec env st block aux_data prf = Some (Ok out)"
  obtains st1 root pow aux mg where
    "prepare spec st = Some st1" "check_block_integrity (se_body env) block prf = Some (Ok root)"
    "check_and_update (se_body env) (bl_header block) (an_pow_state st) = Ok pow"
    "aux_try_new (se_mmr env) aux_data (an_history st) = Ok aux"
    "run_stages spec env st1 block pow aux = Some mg" "assemble spec env st1 pow root mg = Some (Ok out)"
proof -
  obtain st1 where st1: "prepare spec st = Some st1"
    using assms by (auto simp: compute_asm_transition_def split: option.splits)
  note P = prepare_frame [OF st1]
  show ?thesis using assms that [OF st1] P(2,3)
    by (auto simp: compute_asm_transition_def st1 split: option.splits sum.splits)
qed

lemma assemble_OkD:
  assumes "assemble spec env st pow root mg = Some (Ok out)"
  shows "\<exists>secs history. export_sections env mg = Some (Ok secs)
    \<and> so_manifest out = \<lparr>mf_height = l1_block_height (hvs_last_verified_block pow),
         mf_blkid = l1_block_blkid (hvs_last_verified_block pow), mf_wtxids_root = root, mf_logs = mg_logs mg\<rparr>
    \<and> length (mg_logs mg) \<le> max_logs_per_manifest
    \<and> add_manifest env (so_manifest out) (an_history st) = Ok history
    \<and> last_inserted_height (se_mmr env) history = ucast (l1_block_height (hvs_last_verified_block pow))
    \<and> so_state out = \<lparr>an_spec_id = spec_id spec, an_magic = an_magic st, an_pow_state = pow,
         an_history = history, an_sections = secs\<rparr>"
  using assms
  by (auto simp: assemble_def manifest_new_def Let_def split: option.splits sum.splits if_splits)

lemma transition_step:
  assumes inv: "asm_inv env h st" and env: "nonzero_thresholds (se_admin env)" and room: "Suc h < 2 ^ 32"
    and adm: "block_admissible spec env st block aux_data"
    and run: "compute_asm_transition spec env st block aux_data prf = Some (Ok out)"
  shows "asm_inv env (Suc h) (so_state out)"
proof -
  from run obtain st1 root pow aux mg2 where C:
    "prepare spec st = Some st1" "check_block_integrity (se_body env) block prf = Some (Ok root)"
    "check_and_update (se_body env) (bl_header block) (an_pow_state st) = Ok pow"
    "aux_try_new (se_mmr env) aux_data (an_history st) = Ok aux"
    "run_stages spec env st1 block pow aux = Some mg2" "assemble spec env st1 pow root mg2 = Some (Ok out)"
    by (rule compute_OkD)
  note P = prepare_frame [OF C(1)]
  let ?txs = "group_txs_by_subprotocol env (an_magic st) block"
  obtain mg where mg: "load_stage env st = Some mg" "manager_inv env h mg" using inv by (auto simp: asm_inv_def)
  obtain mg1 where mg1: "process_stage spec env pow aux ?txs mg = Some mg1"
    "finish_stage env (hvs_last_verified_block pow) mg1 = Some mg2"
    using C(5) mg(1) load_stage_cong [OF P(4), of env] P(1) by (auto simp: run_stages_def Let_def split: bind_splits)
  have fit: "counters_fit ?txs mg mg1" and rt: "sections_roundtrip env mg2"
    using adm mg1 by (simp_all add: block_admissible_def C(3,4) mg(1) Let_def)
  have height: "unat (l1_block_height (hvs_last_verified_block pow)) = Suc h"
  proof -
    have "unat (l1_block_height (hvs_last_verified_block (an_pow_state st))) = h" using inv by (simp add: asm_inv_def)
    then show ?thesis using check_and_update_OkD(5) [OF C(3)] room by (simp add: unat_word_ariths)
  qed
  have inv2: "manager_inv env (Suc h) mg2"
    using stages_keep_inv [OF mg(2) _ _ height env mg1(1) fit mg1(2)] load_stage_bufs [OF mg(1)] by simp
  obtain secs history where A: "export_sections env mg2 = Some (Ok secs)"
    "last_inserted_height (se_mmr env) history = ucast (l1_block_height (hvs_last_verified_block pow))"
    "so_state out = \<lparr>an_spec_id = spec_id spec, an_magic = an_magic st1, an_pow_state = pow,
         an_history = history, an_sections = secs\<rparr>"
    using assemble_OkD [OF C(6)] by blast
  have "load_stage env (so_state out) = Some (mg2\<lparr>mg_checkpoint_buf := [], mg_bridge_buf := [], mg_logs := []\<rparr>)"
    by (rule load_sections [OF _ rt]) (use export_sections_Ok [OF A(1)] in \<open>simp add: A(3)\<close>)
  moreover have "manager_inv env (Suc h) (mg2\<lparr>mg_checkpoint_buf := [], mg_bridge_buf := [], mg_logs := []\<rparr>)"
    using inv2 by (simp add: manager_inv_def)
  moreover have "(ucast (l1_block_height (hvs_last_verified_block pow)) :: u64) = of_nat (Suc h)"
    unfolding height [symmetric] by (simp add: unat_ucast_u64 [symmetric])
  ultimately show ?thesis using height A(2) by (simp add: asm_inv_def A(3))
qed

text \<open>Genesis: the configuration has nonzero thresholds and a nonzero denomination, and the first sections
  decode.\<close>

definition genesis_manager :: "'m stf_env \<Rightarrow> asm_params \<Rightarrow> manager option" where
  "genesis_manager env params =
     do {
       ac \<leftarrow> admin_config params;
       a \<leftarrow> admin_new (se_admin env) ac;
       cc \<leftarrow> checkpoint_config params;
       bc \<leftarrow> bridge_config params;
       b \<leftarrow> br_new (se_checkpoint env) bc;
       Some \<lparr>mg_admin = a, mg_checkpoint = cs_init cc, mg_checkpoint_buf = [], mg_bridge = b, mg_bridge_buf = [], mg_logs = []\<rparr>
     }"

definition params_ok :: "'m stf_env \<Rightarrow> asm_params \<Rightarrow> bool" where
  "params_ok env params \<longleftrightarrow>
     (case admin_config params of None \<Rightarrow> True | Some cfg \<Rightarrow> list_all (\<lambda>(rl, c). 0 < utc_threshold c) (signer_configs cfg))
   \<and> (case bridge_config params of None \<Rightarrow> True | Some cfg \<Rightarrow> bic_denomination cfg \<noteq> 0)
   \<and> (case genesis_manager env params of None \<Rightarrow> True | Some mg \<Rightarrow> sections_roundtrip env mg)"

abbreviation anchor_height :: "asm_params \<Rightarrow> nat" where
  "anchor_height params \<equiv> unat (l1_block_height (la_block (ap_anchor params)))"

lemma genesis_inv:
  assumes gen: "spec_genesis_state spec env params = Some st" and ok: "params_ok env params"
    and law: "\<And>x n. mmr_num_entries (se_mmr env) (mmr_new_repeated (se_mmr env) x n) = n"
  shows "asm_inv env (anchor_height params) st"
proof -
  obtain cc ac a sa sc bc b sb where G: "checkpoint_config params = Some cc"
    "cic_genesis_l1_height cc = l1_block_height (la_block (ap_anchor params))"
    "admin_config params = Some ac" "admin_new (se_admin env) ac = Some a"
    "from_state administration_subprotocol_id (se_admin_encode env) a = Ok sa"
    "from_state checkpoint_subprotocol_id (se_checkpoint_encode env) (cs_init cc) = Ok sc"
    "bridge_config params = Some bc" "br_new (se_checkpoint env) bc = Some b"
    "from_state bridge_subprotocol_id (se_bridge_encode env) b = Ok sb"
    "st = \<lparr>an_spec_id = spec_id spec, an_magic = ap_magic params, an_pow_state = hvs_init (ap_anchor params),
             an_history = mmr_new (se_mmr env) (ucast (l1_block_height (la_block (ap_anchor params)))),
             an_sections = [sa, sc, sb]\<rparr>"
    using gen
    by (auto simp: spec_genesis_state_def construct_genesis_state_def result_expect_def check_genesis_l1_height_def
        split: bind_splits sum.splits if_splits)
  let ?mg = "\<lparr>mg_admin = a, mg_checkpoint = cs_init cc, mg_checkpoint_buf = [], mg_bridge = b, mg_bridge_buf = [], mg_logs = []\<rparr>"
  have "genesis_manager env params = Some ?mg" by (simp add: genesis_manager_def G(1,3,4,7,8))
  then have rt: "sections_roundtrip env ?mg" using ok by (simp add: params_ok_def)
  have load: "load_stage env st = Some ?mg"
    using load_sections [OF _ rt, of st] from_state_Ok [OF G(5)] from_state_Ok [OF G(6)] from_state_Ok [OF G(9)]
    by (simp add: G(10))
  have "admin_inv (anchor_height params) a"
    by (rule admin_new_inv [OF G(4)]) (use ok G(3) in \<open>auto simp: params_ok_def list_all_iff\<close>)
  moreover have "checkpoint_inv (anchor_height params) (cs_init cc)" by (rule checkpoint_inv_init) (simp add: G(2))
  moreover have "bridge_inv (se_checkpoint env) b" by (rule br_new_inv [OF G(8)])
  moreover have "peg (cs_init cc) b"
    using ok G(7,8) by (auto simp: peg_def params_ok_def cs_init_def cs_new_def dp_is_empty_def dp_new_empty_def br_new_def dt_new_empty_def
        sv_new_empty_def split: bind_splits)
  ultimately have "manager_inv env (anchor_height params) ?mg" by (simp add: manager_inv_def)
  moreover have "(ucast (l1_block_height (la_block (ap_anchor params))) :: u64) = of_nat (anchor_height params)"
    by (simp add: unat_ucast_u64 [symmetric])
  ultimately show ?thesis using load
    by (simp add: asm_inv_def G(10) hvs_init_def hvs_new_def last_inserted_height_def mmr_new_def law)
qed

section \<open>Runs of a block machine\<close>

text \<open>A machine that consumes one input per block height.  An input is admissible in the state it meets;
  a run stops at the first input the machine refuses.\<close>

fun run_all :: "('i \<Rightarrow> 's \<Rightarrow> 's option) \<Rightarrow> 'i list \<Rightarrow> 's \<Rightarrow> 's option" where
  "run_all step [] s = Some s"
| "run_all step (i # is) s = (case step i s of None \<Rightarrow> None | Some s' \<Rightarrow> run_all step is s')"

fun all_admissible :: "('i \<Rightarrow> 's \<Rightarrow> bool) \<Rightarrow> ('i \<Rightarrow> 's \<Rightarrow> 's option) \<Rightarrow> 'i list \<Rightarrow> 's \<Rightarrow> bool" where
  "all_admissible ok step [] s = True"
| "all_admissible ok step (i # is) s =
     (ok i s \<and> (case step i s of None \<Rightarrow> True | Some s' \<Rightarrow> all_admissible ok step is s'))"

locale block_machine =
  fixes inv :: "nat \<Rightarrow> 's \<Rightarrow> bool" and ok :: "'i \<Rightarrow> 's \<Rightarrow> bool" and step :: "'i \<Rightarrow> 's \<Rightarrow> 's option"
  assumes step_inv: "inv h s \<Longrightarrow> Suc h < 2 ^ 32 \<Longrightarrow> ok i s \<Longrightarrow> step i s = Some s' \<Longrightarrow> inv (Suc h) s'"
begin

lemma run_inv:
  "inv h s \<Longrightarrow> h + length is < 2 ^ 32 \<Longrightarrow> all_admissible ok step is s \<Longrightarrow> run_all step is s = Some s' \<Longrightarrow>
     inv (h + length is) s'"
proof (induction "is" arbitrary: h s)
  case (Cons i "is")
  obtain s1 where s1: "step i s = Some s1" "run_all step is s1 = Some s'"
    using Cons.prems(4) by (auto split: option.splits)
  have "inv (Suc h) s1" using step_inv [OF Cons.prems(1) _ _ s1(1)] Cons.prems(2,3) by simp
  from Cons.IH [OF this _ _ s1(2)] show ?case using Cons.prems(2,3) s1(1) by simp
qed simp

end

record block_input =
  bi_spec :: asm_spec
  bi_block :: block
  bi_aux :: aux_data
  bi_proof :: "txid_inclusion_proof option"

definition asm_step :: "'m stf_env \<Rightarrow> block_input \<Rightarrow> 'm anchor_state \<Rightarrow> 'm anchor_state option" where
  "asm_step env i st =
     (case compute_asm_transition (bi_spec i) env st (bi_block i) (bi_aux i) (bi_proof i) of
        Some (Ok out) \<Rightarrow> Some (so_state out)
      | _ \<Rightarrow> None)"

definition asm_ok :: "'m stf_env \<Rightarrow> block_input \<Rightarrow> 'm anchor_state \<Rightarrow> bool" where
  "asm_ok env i st \<longleftrightarrow> nonzero_thresholds (se_admin env) \<and> block_admissible (bi_spec i) env st (bi_block i) (bi_aux i)"

lemma asm_step_SomeD:
  "asm_step env i st = Some st' \<Longrightarrow>
     \<exists>out. compute_asm_transition (bi_spec i) env st (bi_block i) (bi_aux i) (bi_proof i) = Some (Ok out) \<and> st' = so_state out"
  by (auto simp: asm_step_def split: option.splits sum.splits)

interpretation anchor: block_machine "asm_inv env" "asm_ok env" "asm_step env" for env :: "'m stf_env"
proof unfold_locales
  fix h s i s'
  assume "asm_inv env h s" and "Suc h < 2 ^ 32" and "asm_ok env i s" and "asm_step env i s = Some s'"
  then show "asm_inv env (Suc h) s'" using asm_step_SomeD [of env i s s'] transition_step [of env h s]
    by (auto simp: asm_ok_def)
qed

section \<open>Properties\<close>

definition unassigned_deposits :: "manager \<Rightarrow> nat" where
  "unassigned_deposits mg = length (br_deposits (mg_bridge mg))"

text \<open>C1: the anchor state machine keeps the peg.  Start from genesis and apply any number of blocks: after
  every one of them the sections load, each subprotocol's state satisfies its invariant at the height of
  the chain, and the deposit count that the checkpoint subprotocol pays withdrawals from is exactly the
  number of unassigned deposits the bridge holds, in the bridge's denomination.  The configured thresholds
  and the denomination are nonzero, sections decode to what was encoded, and no counter overflows.\<close>
theorem asm_keeps_peg:
  assumes "spec_genesis_state spec env params = Some st0" and "params_ok env params"
    and "\<forall>x n. mmr_num_entries (se_mmr env) (mmr_new_repeated (se_mmr env) x n) = n"
    and "all_admissible (asm_ok env) (asm_step env) blocks st0" and "anchor_height params + length blocks < 2 ^ 32"
    and "run_all (asm_step env) blocks st0 = Some st"
  shows "\<exists>mg. load_stage env st = Some mg
    \<and> admin_inv (anchor_height params + length blocks) (mg_admin mg)
    \<and> checkpoint_inv (anchor_height params + length blocks) (mg_checkpoint mg)
    \<and> bridge_inv (se_checkpoint env) (mg_bridge mg)
    \<and> unat (dp_count (cs_deposits (mg_checkpoint mg))) = unassigned_deposits mg
    \<and> (dp_is_empty (cs_deposits (mg_checkpoint mg)) \<or>
         dp_denomination (cs_deposits (mg_checkpoint mg)) = br_denomination (mg_bridge mg))"
proof -
  have law: "\<And>x n. mmr_num_entries (se_mmr env) (mmr_new_repeated (se_mmr env) x n) = n" using assms(3) by simp
  have "asm_inv env (anchor_height params + length blocks) st"
    by (rule anchor.run_inv [OF genesis_inv [OF assms(1,2) law] assms(5,4,6)])
  then show ?thesis by (auto simp: asm_inv_def manager_inv_def peg_def unassigned_deposits_def)
qed

text \<open>C2: one transition.  An accepted block extends the verified header, the invariant moves to the next
  height, the manifest carries that height, the block's own identifier, the committed transactions' root
  and at most the allowed number of logs, and the recorded ruleset is the one that ran and never older
  than before.\<close>
theorem transition_advances_one_block:
  assumes "asm_inv env h st" and "nonzero_thresholds (se_admin env)" and "Suc h < 2 ^ 32"
    and "block_admissible spec env st block aux_data"
    and "compute_asm_transition spec env st block aux_data prf = Some (Ok out)"
  shows "asm_inv env (Suc h) (so_state out)
    \<and> hd_prev_blockhash (bl_header block) = l1_block_blkid (hvs_last_verified_block (an_pow_state st))
    \<and> unat (mf_height (so_manifest out)) = Suc h
    \<and> mf_blkid (so_manifest out) = compute_block_hash (se_body env) (bl_header block)
    \<and> check_block_integrity (se_body env) block prf = Some (Ok (mf_wtxids_root (so_manifest out)))
    \<and> length (mf_logs (so_manifest out)) \<le> max_logs_per_manifest
    \<and> add_manifest env (so_manifest out) (an_history st) = Ok (an_history (so_state out))
    \<and> an_spec_id (so_state out) = spec_id spec \<and> an_spec_id st \<le> spec_id spec"
proof -
  from assms(5) obtain st1 root pow aux mg2 where C:
    "prepare spec st = Some st1" "check_block_integrity (se_body env) block prf = Some (Ok root)"
    "check_and_update (se_body env) (bl_header block) (an_pow_state st) = Ok pow"
    "assemble spec env st1 pow root mg2 = Some (Ok out)"
    by (rule compute_OkD)
  note P = prepare_frame [OF C(1)] and H = check_and_update_OkD [OF C(3)]
  note inv = transition_step [OF assms]
  obtain secs history where A:
    "so_manifest out = \<lparr>mf_height = l1_block_height (hvs_last_verified_block pow),
         mf_blkid = l1_block_blkid (hvs_last_verified_block pow), mf_wtxids_root = root, mf_logs = mg_logs mg2\<rparr>"
    "length (mg_logs mg2) \<le> max_logs_per_manifest" "add_manifest env (so_manifest out) (an_history st1) = Ok history"
    "so_state out = \<lparr>an_spec_id = spec_id spec, an_magic = an_magic st1, an_pow_state = pow,
         an_history = history, an_sections = secs\<rparr>"
    using assemble_OkD [OF C(4)] by blast
  have "unat (l1_block_height (hvs_last_verified_block pow)) = Suc h" using inv by (simp add: asm_inv_def A(4))
  then show ?thesis using inv A(2,3) C(2) H(1,5) P(3,6) by (simp add: A(1,4))
qed

text \<open>C3: messages are always delivered.  No subprotocol ever sends a message to itself, so relaying never
  fails, and the processing stage can only panic inside a subprotocol's own transactions.  Every withdrawal
  the checkpoint subprotocol dispatches is a whole number of denominations that the bridge still holds, so
  the finishing stage cannot panic for want of deposits; an operator-set update, or a deposit all of whose
  operators have left, is the only obstacle.\<close>
theorem messages_always_deliverable:
  assumes "manager_inv env h mg" and "mg_checkpoint_buf mg = [] \<and> mg_bridge_buf mg = []"
    and "unat (l1_block_height (hvs_last_verified_block hv)) = Suc h" and "nonzero_thresholds (se_admin env)"
    and "unat (as_next_update_id (mg_admin mg)) + length (txs administration_subprotocol_id) < 2 ^ 32"
    and "nn_count (mg_bridge mg) + length (txs bridge_subprotocol_id) \<le> 2 ^ 32"
  shows "(process_stage spec env hv aux txs mg = None \<longrightarrow>
       checkpoint_process_txs (se_checkpoint env) hv aux (txs checkpoint_subprotocol_id) (mg_checkpoint mg) fresh_relayer = None
     \<or> bridge_process_txs (se_body env) (se_checkpoint env) (bridge_rules spec) hv aux (txs bridge_subprotocol_id)
         (mg_bridge mg) fresh_relayer = None)
    \<and> (\<forall>mg1. process_stage spec env hv aux txs mg = Some mg1 \<longrightarrow> counters_fit txs mg mg1 \<longrightarrow>
         list_all (\<lambda>m. \<not> is_operator_update m) (mg_bridge_buf mg1) \<longrightarrow>
         list_all (deposit_serviceable (mg_bridge mg1)) (br_deposits (mg_bridge mg1)) \<longrightarrow>
         (\<exists>mg2. finish_stage env (hvs_last_verified_block hv) mg1 = Some mg2))"
proof -
  note I = assms(1) [unfolded manager_inv_def]
  obtain a ra where a: "admin_process_txs (se_admin env) hv (txs administration_subprotocol_id) (mg_admin mg) fresh_relayer = (a, ra)"
    by (metis surj_pair)
  have na: "\<forall>m \<in> set (rl_msgs ra). msg_id m \<noteq> administration_subprotocol_id"
    by (rule admin_block_targets [OF _ assms(3,4,5) a]) (use I in simp)
  have total: "process_stage spec env hv aux txs mg \<noteq> None"
    if c: "checkpoint_process_txs (se_checkpoint env) hv aux (txs checkpoint_subprotocol_id) (mg_checkpoint mg) fresh_relayer = Some (c, rc)"
      and b: "bridge_process_txs (se_body env) (se_checkpoint env) (bridge_rules spec) hv aux (txs bridge_subprotocol_id)
         (mg_bridge mg) fresh_relayer = Some (b, rb)" for c rc b rb
  proof -
    obtain ws where "rl_msgs rc = map (BridgeMsg \<circ> DispatchWithdrawal) ws"
      using checkpoint_handle_txs_spec [OF _ assms(3) c [unfolded checkpoint_process_txs_def]] I by auto
    then have nc: "\<forall>m \<in> set (rl_msgs rc). msg_id m \<noteq> checkpoint_subprotocol_id" by (auto simp: subprotocol_ids)
    obtain k where "rl_msgs rb = replicate k (CheckpointMsg (DepositProcessed (br_denomination (mg_bridge mg))))"
      using bridge_process_txs_relay [OF _ assms(6) b] I by auto
    then have nb: "\<forall>m \<in> set (rl_msgs rb). msg_id m \<noteq> bridge_subprotocol_id" by (auto simp: subprotocol_ids)
    show ?thesis using a b c na nc nb by (simp add: process_stage_def absorb_eq)
  qed
  have "\<exists>mg2. finish_stage env (hvs_last_verified_block hv) mg1 = Some mg2"
    if "process_stage spec env hv aux txs mg = Some mg1" "counters_fit txs mg mg1"
      "list_all (\<lambda>m. \<not> is_operator_update m) (mg_bridge_buf mg1)"
      "list_all (deposit_serviceable (mg_bridge mg1)) (br_deposits (mg_bridge mg1))" for mg1
    using finish_stage_succeeds [OF assms(1) _ _ assms(3,4) that(1,2)] that(3,4) assms(2) by (simp add: list_all_iff)
  then show ?thesis using total by (metis option.exhaust prod.exhaust)
qed

section \<open>Concrete runs\<close>

text \<open>Large bounds are compared as integers when a concrete run is evaluated.\<close>

lemma section_new_code [code]:
  "section_new i version data =
     (if 1048576 < int (length data) then Err (length data)
      else Ok \<lparr>sec_id = i, sec_version = version, sec_data = data\<rparr>)"
  by (simp add: section_new_def max_section_state_bytes_def)

lemma manifest_new_code [code]:
  "manifest_new height blkid wtxids_root logs =
     (if 1024 < int (length logs) then Err (TooManyLogs (length logs))
      else Ok \<lparr>mf_height = height, mf_blkid = blkid, mf_wtxids_root = wtxids_root, mf_logs = logs\<rparr>)"
  by (simp add: manifest_new_def max_logs_per_manifest_def)

lemma fits_int:
  "m + n < 2 ^ 32 \<longleftrightarrow> int m + int n < 4294967296" "m + n \<le> 2 ^ 32 \<longleftrightarrow> int m + int n \<le> 4294967296"
  by (simp_all, linarith+)

lemma counters_fit_code [code]:
  "counters_fit txs mg mg1 \<longleftrightarrow>
     uint (as_next_update_id (mg_admin mg)) + int (length (txs administration_subprotocol_id)) < 4294967296
   \<and> int (nn_count (mg_bridge mg)) + int (length (txs bridge_subprotocol_id)) \<le> 4294967296
   \<and> int (nn_count (mg_bridge mg1)) + int (length (mg_bridge_buf mg1)) \<le> 4294967296
   \<and> uint (dp_count (cs_deposits (mg_checkpoint mg))) + int (length (mg_checkpoint_buf mg1)) < 4294967296"
  unfolding counters_fit_def fits_int uint_nat ..

definition sample_signers :: unchecked_threshold_config where
  "sample_signers = \<lparr>utc_signers = [''a'', ''b''], utc_threshold = 1\<rparr>"

definition sample_params :: asm_params where
  "sample_params = \<lparr>ap_magic = [], ap_anchor = \<lparr>la_block = \<lparr>l1_block_height = 6, l1_block_blkid = [1]\<rparr>, la_next_target = 5,
       la_epoch_start_timestamp = 90, la_network = Regtest\<rparr>,
     ap_subprotocols =
       [AdminInstance \<lparr>aic_strata_administrator = sample_signers, aic_strata_sequencer_manager = sample_signers,
          aic_alpen_administrator = sample_signers, aic_strata_security_council = sample_signers,
          aic_confirmation_depths = sample_depths, aic_max_seqno_gap = 10\<rparr>,
        BridgeInstance \<lparr>bic_operators = [[10], [11]], bic_denomination = 100, bic_assignment_duration = 10,
          bic_operator_fee = 3, bic_recovery_delay = 144, bic_safe_harbor_address = [1]\<rparr>,
        CheckpointInstance \<lparr>cic_sequencer_key = [7], cic_checkpoint_predicate = [1], cic_genesis_l1_height = 6,
          cic_genesis_ol_blkid = []\<rparr>]\<rparr>"

definition sample_genesis_admin :: admin_state where
  "sample_genesis_admin = the (Option.bind (admin_config sample_params) (admin_new sample_admin_env))"

definition sample_genesis_checkpoint :: checkpoint_state where
  "sample_genesis_checkpoint = cs_init (the (checkpoint_config sample_params))"

definition sample_genesis_bridge :: bridge_state where
  "sample_genesis_bridge = the (Option.bind (bridge_config sample_params) (br_new sample_checkpoint_env))"

definition sample_stf_env :: "buf32 list stf_env" where
  "sample_stf_env = \<lparr>se_checkpoint = sample_checkpoint_env, se_body = sample_body_env, se_admin = sample_admin_env,
     se_mmr = sample_mmr_env, se_try_parse_tx = (\<lambda>magic tx. Err ''no tag''), se_manifest_hash = (\<lambda>m. mf_blkid m),
     se_admin_encode = (\<lambda>_. [1]), se_admin_decode = (\<lambda>_. Ok sample_genesis_admin),
     se_checkpoint_encode = (\<lambda>_. [2]), se_checkpoint_decode = (\<lambda>_. Ok sample_genesis_checkpoint),
     se_bridge_encode = (\<lambda>_. [3]), se_bridge_decode = (\<lambda>_. Ok sample_genesis_bridge)\<rparr>"

definition sample_block_input :: "block_id \<Rightarrow> u32 \<Rightarrow> u32 \<Rightarrow> block_input" where
  "sample_block_input prev t bits = \<lparr>bi_spec = StrataAsmSpec,
     bi_block = \<lparr>bl_header = (sample_header prev t bits)\<lparr>hd_merkle_root := [7, 9, 1]\<rparr>,
       bl_txdata = [\<lparr>tx_input = [\<lparr>ti_previous_output = \<lparr>op_txid = [], op_vout = 0\<rparr>, ti_witness = []\<rparr>],
                     tx_output = [\<lparr>to_value = 9, to_script_pubkey = []\<rparr>]\<rparr>]\<rparr>,
     bi_aux = \<lparr>ad_manifest_hashes = [], ad_bitcoin_txs = []\<rparr>, bi_proof = None\<rparr>"

definition sample_blocks :: "block_input list" where
  "sample_blocks = [sample_block_input [1] 100 5, sample_block_input [7, 100] 104 15]"

definition sample_genesis :: "buf32 list anchor_state" where
  "sample_genesis = the (spec_genesis_state StrataAsmSpec sample_stf_env sample_params)"

lemma sample_mmr_law: "mmr_num_entries (se_mmr sample_stf_env) (mmr_new_repeated (se_mmr sample_stf_env) x n) = n"
  by (simp add: sample_stf_env_def sample_mmr_env_def)

lemma sample_genesis_facts:
  "spec_genesis_state StrataAsmSpec sample_stf_env sample_params = Some sample_genesis"
  "params_ok sample_stf_env sample_params"
  "list_all (\<lambda>n. n = 6) [anchor_height sample_params]"
proof -
  have "\<not> Option.is_none (spec_genesis_state StrataAsmSpec sample_stf_env sample_params)" by code_simp
  then show "spec_genesis_state StrataAsmSpec sample_stf_env sample_params = Some sample_genesis"
    by (auto simp: sample_genesis_def Option.is_none_def)
  show "params_ok sample_stf_env sample_params" by code_simp
  show "list_all (\<lambda>n. n = 6) [anchor_height sample_params]" by (simp add: sample_params_def)
qed

lemma sample_nonzero: "nonzero_thresholds (se_admin sample_stf_env)"
  using sample_admin_env_nonzero by (simp add: sample_stf_env_def)

lemma sample_run: "run_all (asm_step sample_stf_env) sample_blocks sample_genesis \<noteq> None"
proof -
  have "\<not> Option.is_none (run_all (asm_step sample_stf_env) sample_blocks sample_genesis)" by code_simp
  then show ?thesis by (simp add: Option.is_none_def)
qed

lemma sample_admissible: "all_admissible (asm_ok sample_stf_env) (asm_step sample_stf_env) sample_blocks sample_genesis"
proof -
  have "all_admissible (\<lambda>i st. block_admissible (bi_spec i) sample_stf_env st (bi_block i) (bi_aux i))
      (asm_step sample_stf_env) sample_blocks sample_genesis" by code_simp
  moreover have "asm_ok sample_stf_env = (\<lambda>i st. block_admissible (bi_spec i) sample_stf_env st (bi_block i) (bi_aux i))"
    by (intro ext) (simp add: asm_ok_def sample_nonzero)
  ultimately show ?thesis by simp
qed

theorem asm_keeps_peg_witness:
  "\<exists>st mg. run_all (asm_step sample_stf_env) sample_blocks sample_genesis = Some st
     \<and> load_stage sample_stf_env st = Some mg \<and> admin_inv 8 (mg_admin mg)
     \<and> unat (dp_count (cs_deposits (mg_checkpoint mg))) = unassigned_deposits mg"
proof -
  obtain st where st: "run_all (asm_step sample_stf_env) sample_blocks sample_genesis = Some st" using sample_run by auto
  have "anchor_height sample_params + length sample_blocks = 8" using sample_genesis_facts(3) by (simp add: sample_blocks_def)
  then show ?thesis
    using st asm_keeps_peg [OF sample_genesis_facts(1,2) _ sample_admissible _ st] sample_mmr_law by auto
qed

theorem transition_advances_one_block_witness:
  "\<exists>out. compute_asm_transition StrataAsmSpec sample_stf_env sample_genesis (bi_block (sample_block_input [1] 100 5))
       \<lparr>ad_manifest_hashes = [], ad_bitcoin_txs = []\<rparr> None = Some (Ok out)
     \<and> asm_inv sample_stf_env 7 (so_state out) \<and> unat (mf_height (so_manifest out)) = 7"
proof -
  let ?i = "sample_block_input [1] 100 5"
  let ?aux = "\<lparr>ad_manifest_hashes = [], ad_bitcoin_txs = []\<rparr>"
  have i: "bi_spec ?i = StrataAsmSpec" "bi_aux ?i = ?aux" "bi_proof ?i = None" by (simp_all add: sample_block_input_def)
  obtain st where "asm_step sample_stf_env ?i sample_genesis = Some st"
    using sample_run by (auto simp: sample_blocks_def split: option.splits)
  then obtain out where out: "compute_asm_transition StrataAsmSpec sample_stf_env sample_genesis (bi_block ?i) ?aux None = Some (Ok out)"
    using asm_step_SomeD [of sample_stf_env ?i] i by auto
  have adm: "block_admissible StrataAsmSpec sample_stf_env sample_genesis (bi_block ?i) ?aux"
    using sample_admissible i by (simp add: sample_blocks_def asm_ok_def)
  have inv: "asm_inv sample_stf_env 6 sample_genesis"
    using genesis_inv [OF sample_genesis_facts(1,2) sample_mmr_law] sample_genesis_facts(3) by simp
  have room: "Suc 6 < 2 ^ 32" by simp
  show ?thesis using out transition_advances_one_block [OF inv sample_nonzero room adm out] by auto
qed

definition sample_manager :: manager where
  "sample_manager = \<lparr>mg_admin = sample_admin_state, mg_checkpoint = sample_checkpoint_state, mg_checkpoint_buf = [],
     mg_bridge = sample_bridge, mg_bridge_buf = [], mg_logs = []\<rparr>"

definition sample_groups :: tx_groups where
  "sample_groups i = (if i = 1 then [sample_checkpoint_tx] else [])"

lemma sample_manager_inv: "manager_inv sample_stf_env 14 sample_manager"
proof -
  have "operator_table_inv sample_checkpoint_env sample_table" by code_simp
  moreover have "bm_is_active [True, True] 0" by code_simp
  ultimately have "bridge_inv sample_checkpoint_env sample_bridge"
    by (simp add: bridge_inv_def sample_bridge_def keys_strict_def sample_deposit_def sample_assignment_def
        entry_ok_def nnh_get_def slice_get_def ae_notary_set_def ae_deposit_idx_def sample_table_def
        sample_intent_def to_output_def)
  moreover have "peg sample_checkpoint_state sample_bridge"
    by (simp add: peg_def sample_checkpoint_state_def sample_bridge_def)
  ultimately show ?thesis using sample_admin_inv checkpoint_inv_mono [OF sample_checkpoint_inv, of 14]
    by (simp add: manager_inv_def sample_manager_def sample_stf_env_def)
qed

definition sample_processed :: manager where
  "sample_processed = the (process_stage StrataAsmSpec sample_stf_env sample_header_15 sample_checkpoint_aux sample_groups sample_manager)"

definition serviceable :: "bridge_state \<Rightarrow> deposit_entry \<Rightarrow> bool" where
  "serviceable s d = (case nnh_get (ot_nn_scripts (br_operators s)) (de_notary_set d) of None \<Rightarrow> False
     | Some config \<Rightarrow> bm_is_active (hs_operators config) 0 \<and> bm_is_active (initial_active (br_operators s)) 0)"

lemma serviceableD: "serviceable s d \<Longrightarrow> deposit_serviceable s d"
  unfolding serviceable_def deposit_serviceable_def
  by (cases "nnh_get (ot_nn_scripts (br_operators s)) (de_notary_set d)") auto

theorem messages_always_deliverable_witness:
  "process_stage StrataAsmSpec sample_stf_env sample_header_15 sample_checkpoint_aux sample_groups sample_manager = Some sample_processed
   \<and> length (dispatched (mg_bridge_buf sample_processed)) = 1
   \<and> (\<exists>mg2. finish_stage sample_stf_env (hvs_last_verified_block sample_header_15) sample_processed = Some mg2)"
proof -
  have run: "process_stage StrataAsmSpec sample_stf_env sample_header_15 sample_checkpoint_aux sample_groups sample_manager = Some sample_processed"
  proof -
    have "\<not> Option.is_none (process_stage StrataAsmSpec sample_stf_env sample_header_15 sample_checkpoint_aux sample_groups sample_manager)"
      by code_simp
    then show ?thesis by (auto simp: sample_processed_def Option.is_none_def)
  qed
  have one: "length (dispatched (mg_bridge_buf sample_processed)) = 1" by code_simp
  have fit: "counters_fit sample_groups sample_manager sample_processed" by code_simp
  have plain: "list_all (\<lambda>m. \<not> is_operator_update m) (mg_bridge_buf sample_processed)" by code_simp
  have "list_all (serviceable (mg_bridge sample_processed)) (br_deposits (mg_bridge sample_processed))" by code_simp
  then have srv: "list_all (deposit_serviceable (mg_bridge sample_processed)) (br_deposits (mg_bridge sample_processed))"
    using serviceableD by (simp add: list_all_iff)
  have h: "unat (l1_block_height (hvs_last_verified_block sample_header_15)) = Suc 14" by (rule sample_admin_block_facts(1))
  have "mg_checkpoint_buf sample_manager = [] \<and> mg_bridge_buf sample_manager = []"
    "unat (as_next_update_id (mg_admin sample_manager)) + length (sample_groups administration_subprotocol_id) < 2 ^ 32"
    "nn_count (mg_bridge sample_manager) + length (sample_groups bridge_subprotocol_id) \<le> 2 ^ 32"
    by (simp_all add: sample_manager_def sample_groups_def subprotocol_ids sample_admin_state_def sample_bridge_def sample_table_def)
  from messages_always_deliverable [OF sample_manager_inv this(1) h sample_nonzero this(2,3)]
  show ?thesis using run one fit plain srv by blast
qed

end
