(* ===== verification/Storage.thy ===== *)
theory Storage
  imports Stf "HOL-Library.RBT"
begin

text \<open>
  The block stores of \<open>crates/storage/src/sled\<close> and \<open>crates/extensions/moho/storage/src/sled\<close>: anchor
  states, manifests and auxiliary data (and, in the Moho extension, Moho states) keyed by block
  commitment.  The database itself is library code: \<open>sled_env\<close> has its operations, any of which may
  fail, and \<open>sled_laws\<close> states what it documents, an ordered map of byte strings in which a failed
  write may or may not have happened.  A store operation returns its result together with the tree.
\<close>

section \<open>Big-endian integers\<close>

fun be_bytes :: "nat \<Rightarrow> nat \<Rightarrow> bytes" where
  "be_bytes 0 x = []"
| "be_bytes (Suc k) x = of_nat (x div 256 ^ k) # be_bytes k (x mod 256 ^ k)"

definition from_be_bytes :: "bytes \<Rightarrow> nat" where
  "from_be_bytes bs = foldl (\<lambda>a b. a * 256 + unat b) 0 bs"

section \<open>Keys\<close>

definition encode_block_commitment :: "l1_block_commitment \<Rightarrow> bytes" where
  "encode_block_commitment commitment = be_bytes 4 (unat (l1_block_height commitment)) @ l1_block_blkid commitment"

definition decode_block_commitment :: "bytes \<Rightarrow> l1_block_commitment option" where
  "decode_block_commitment buf =
     (if length buf < 36 then None
      else Some \<lparr>l1_block_height = of_nat (from_be_bytes (take 4 buf)), l1_block_blkid = take 32 (drop 4 buf)\<rparr>)"

section \<open>The database\<close>

record 't sled_env =
  sl_get :: "bytes \<Rightarrow> 't \<Rightarrow> (string, bytes option) result"
  sl_insert :: "bytes \<Rightarrow> bytes \<Rightarrow> 't \<Rightarrow> (string, unit) result \<times> 't"
  sl_remove :: "bytes \<Rightarrow> 't \<Rightarrow> (string, bytes option) result \<times> 't"
  sl_range :: "bytes option \<Rightarrow> bytes option \<Rightarrow> 't \<Rightarrow> (string, bytes \<times> bytes) result list"
  sl_contains_key :: "bytes \<Rightarrow> 't \<Rightarrow> (string, bool) result"
  sl_last :: "'t \<Rightarrow> (string, (bytes \<times> bytes) option) result"
  sl_get_gt :: "bytes \<Rightarrow> 't \<Rightarrow> (string, (bytes \<times> bytes) option) result"
  sl_scan_prefix :: "bytes \<Rightarrow> 't \<Rightarrow> (string, bytes \<times> bytes) result list"
  sl_apply_batch :: "(bytes \<times> bytes option) list \<Rightarrow> 't \<Rightarrow> (string, unit) result \<times> 't"
  sl_entries :: "'t \<Rightarrow> (bytes \<times> bytes) list"

definition in_range :: "bytes option \<Rightarrow> bytes option \<Rightarrow> bytes \<Rightarrow> bool" where
  "in_range lower upper k \<longleftrightarrow>
     (case lower of None \<Rightarrow> True | Some l \<Rightarrow> l \<le> k) \<and> (case upper of None \<Rightarrow> True | Some u \<Rightarrow> k < u)"

abbreviation sl_map :: "('t, 'z) sled_env_scheme \<Rightarrow> 't \<Rightarrow> (bytes \<rightharpoonup> bytes)" where
  "sl_map env t \<equiv> map_of (sl_entries env t)"

definition get_law :: "('t, 'z) sled_env_scheme \<Rightarrow> bool" where
  "get_law env \<longleftrightarrow> (\<forall>t k r. sl_get env k t = Ok r \<longrightarrow> r = sl_map env t k)"

definition insert_law :: "('t, 'z) sled_env_scheme \<Rightarrow> bool" where
  "insert_law env \<longleftrightarrow> (\<forall>t k v r t'. sl_insert env k v t = (r, t') \<longrightarrow>
     sl_map env t' = (sl_map env t)(k \<mapsto> v) \<or> \<not> is_ok r \<and> sl_map env t' = sl_map env t)"

definition remove_law :: "('t, 'z) sled_env_scheme \<Rightarrow> bool" where
  "remove_law env \<longleftrightarrow> (\<forall>t k r t'. sl_remove env k t = (r, t') \<longrightarrow>
     sl_map env t' = (sl_map env t)(k := None) \<and> (\<forall>old. r = Ok old \<longrightarrow> old = sl_map env t k)
   \<or> \<not> is_ok r \<and> sl_map env t' = sl_map env t)"

definition scan_law :: "('t, 'z) sled_env_scheme \<Rightarrow> bool" where
  "scan_law env \<longleftrightarrow>
     (\<forall>t. keys_strict fst (sl_entries env t))
   \<and> (\<forall>t lower upper items. sl_range env lower upper t = map Ok items \<longrightarrow>
        items = filter (in_range lower upper \<circ> fst) (sl_entries env t))
   \<and> (\<forall>t k r. sl_contains_key env k t = Ok r \<longrightarrow> r = (sl_map env t k \<noteq> None))
   \<and> (\<forall>t r. sl_last env t = Ok r \<longrightarrow>
        r = (if sl_entries env t = [] then None else Some (last (sl_entries env t))))
   \<and> (\<forall>t k r. sl_get_gt env k t = Ok r \<longrightarrow>
        r = (case filter (\<lambda>e. k < fst e) (sl_entries env t) of [] \<Rightarrow> None | e # _ \<Rightarrow> Some e))
   \<and> (\<forall>t p items. sl_scan_prefix env p t = map Ok items \<longrightarrow>
        items = filter (\<lambda>e. take (length p) (fst e) = p) (sl_entries env t))
   \<and> (\<forall>t p e. Ok e \<in> set (sl_scan_prefix env p t) \<longrightarrow> e \<in> set (sl_entries env t) \<and> take (length p) (fst e) = p)"

definition batch_law :: "('t, 'z) sled_env_scheme \<Rightarrow> bool" where
  "batch_law env \<longleftrightarrow> (\<forall>t batch r t'. sl_apply_batch env batch t = (r, t') \<longrightarrow>
     sl_map env t' = foldl (\<lambda>m (k, v). m(k := v)) (sl_map env t) batch \<or> \<not> is_ok r \<and> sl_map env t' = sl_map env t)"

definition sled_laws :: "('t, 'z) sled_env_scheme \<Rightarrow> bool" where
  "sled_laws env \<longleftrightarrow> get_law env \<and> insert_law env \<and> remove_law env \<and> scan_law env \<and> batch_law env"

section \<open>Operations shared by the stores\<close>

definition decode_value :: "string \<Rightarrow> ('b \<Rightarrow> (string, 'v) result) \<Rightarrow> 'b \<Rightarrow> (string, 'v) result" where
  "decode_value what decode bytes = map_err (\<lambda>e. what @ e) (decode bytes)"

definition kv_get ::
  "('t, 'z) sled_env_scheme \<Rightarrow> (bytes \<Rightarrow> (string, 'v) result) \<Rightarrow> l1_block_commitment \<Rightarrow> 't \<Rightarrow> (string, 'v option) result" where
  "kv_get env decode block t =
     res_bind (sl_get env (encode_block_commitment block) t) (\<lambda>found.
       case found of
         Some bytes \<Rightarrow> res_bind (decode bytes) (\<lambda>v. Ok (Some v))
       | None \<Rightarrow> Ok None)"

fun remove_keys :: "('t, 'z) sled_env_scheme \<Rightarrow> (string, bytes \<times> bytes) result list \<Rightarrow> 't \<Rightarrow> (string, unit) result \<times> 't" where
  "remove_keys env [] t = (Ok (), t)"
| "remove_keys env (entry # rest) t =
     (case entry of
        Err e \<Rightarrow> (Err e, t)
      | Ok (key, _) \<Rightarrow>
         (case sl_remove env key t of
            (Err e, t') \<Rightarrow> (Err e, t')
          | (Ok _, t') \<Rightarrow> remove_keys env rest t'))"

definition kv_prune_before :: "('t, 'z) sled_env_scheme \<Rightarrow> u32 \<Rightarrow> 't \<Rightarrow> (string, unit) result \<times> 't" where
  "kv_prune_before env before_height t =
     remove_keys env (sl_range env None (Some (be_bytes 4 (unat before_height))) t) t"

definition kv_prune_after :: "('t, 'z) sled_env_scheme \<Rightarrow> u32 \<Rightarrow> 't \<Rightarrow> (string, unit) result \<times> 't" where
  "kv_prune_after env after_height t =
     (case checked_add after_height 1 of
        None \<Rightarrow> (Ok (), t)
      | Some first_removed \<Rightarrow>
          remove_keys env (sl_range env (Some (be_bytes 4 (unat first_removed))) None t) t)"

definition kv_delete :: "('t, 'z) sled_env_scheme \<Rightarrow> l1_block_commitment \<Rightarrow> 't \<Rightarrow> (string, bool) result \<times> 't" where
  "kv_delete env block t =
     (case sl_remove env (encode_block_commitment block) t of
        (r, t') \<Rightarrow> (res_bind r (\<lambda>old. Ok (old \<noteq> None)), t'))"

fun decode_keys :: "(string, bytes \<times> bytes) result list \<Rightarrow> (string, l1_block_commitment list) result option" where
  "decode_keys [] = Some (Ok [])"
| "decode_keys (Err e # rest) = Some (Err e)"
| "decode_keys (Ok (key, _) # rest) =
     (case decode_block_commitment key of
        None \<Rightarrow> None
      | Some c \<Rightarrow> map_option (\<lambda>r. res_bind r (\<lambda>cs. Ok (c # cs))) (decode_keys rest))"

definition kv_list :: "('t, 'z) sled_env_scheme \<Rightarrow> 't \<Rightarrow> (string, l1_block_commitment list) result option" where
  "kv_list env t = decode_keys (sl_range env None None t)"

section \<open>The stores\<close>

record ('t, 'm) store_env = "'t sled_env" +
  state_encode :: "'m anchor_state \<Rightarrow> bytes"
  state_decode :: "bytes \<Rightarrow> (string, 'm anchor_state) result"
  manifest_encode :: "asm_manifest \<Rightarrow> bytes"
  manifest_decode :: "bytes \<Rightarrow> (string, asm_manifest) result"
  aux_encode :: "aux_data \<Rightarrow> bytes"
  aux_decode :: "bytes \<Rightarrow> (string, aux_data) result"

definition last_processed_block :: "'m anchor_state \<Rightarrow> l1_block_commitment" where
  "last_processed_block st = hvs_last_verified_block (an_pow_state st)"

text \<open>Anchor states.\<close>

abbreviation decode_state :: "('t, 'm, 'z) store_env_scheme \<Rightarrow> bytes \<Rightarrow> (string, 'm anchor_state) result" where
  "decode_state env \<equiv> decode_value ''failed to deserialize AnchorState: '' (state_decode env)"

definition state_put :: "('t, 'm, 'z) store_env_scheme \<Rightarrow> 'm anchor_state \<Rightarrow> 't \<Rightarrow> (string, unit) result \<times> 't" where
  "state_put env state t = sl_insert env (encode_block_commitment (last_processed_block state)) (state_encode env state) t"

definition state_get ::
  "('t, 'm, 'z) store_env_scheme \<Rightarrow> l1_block_commitment \<Rightarrow> 't \<Rightarrow> (string, 'm anchor_state option) result" where
  "state_get env block t = kv_get env (decode_state env) block t"

definition state_get_latest :: "('t, 'm, 'z) store_env_scheme \<Rightarrow> 't \<Rightarrow> (string, 'm anchor_state option) result" where
  "state_get_latest env t =
     res_bind (sl_last env t) (\<lambda>entry.
       case entry of
         None \<Rightarrow> Ok None
       | Some (_, bytes) \<Rightarrow> res_bind (decode_state env bytes) (\<lambda>state. Ok (Some state)))"

definition state_prune_before :: "('t, 'm, 'z) store_env_scheme \<Rightarrow> u32 \<Rightarrow> 't \<Rightarrow> (string, unit) result \<times> 't" where
  "state_prune_before env = kv_prune_before env"

definition state_prune_after :: "('t, 'm, 'z) store_env_scheme \<Rightarrow> u32 \<Rightarrow> 't \<Rightarrow> (string, unit) result \<times> 't" where
  "state_prune_after env = kv_prune_after env"

definition state_delete :: "('t, 'm, 'z) store_env_scheme \<Rightarrow> l1_block_commitment \<Rightarrow> 't \<Rightarrow> (string, bool) result \<times> 't" where
  "state_delete env = kv_delete env"

definition state_list :: "('t, 'm, 'z) store_env_scheme \<Rightarrow> 't \<Rightarrow> (string, l1_block_commitment list) result option" where
  "state_list env = kv_list env"

definition state_contains :: "('t, 'm, 'z) store_env_scheme \<Rightarrow> l1_block_commitment \<Rightarrow> 't \<Rightarrow> (string, bool) result" where
  "state_contains env block t = sl_contains_key env (encode_block_commitment block) t"

text \<open>Manifests.\<close>

definition manifest_block :: "asm_manifest \<Rightarrow> l1_block_commitment" where
  "manifest_block manifest = \<lparr>l1_block_height = mf_height manifest, l1_block_blkid = mf_blkid manifest\<rparr>"

abbreviation decode_manifest :: "('t, 'm, 'z) store_env_scheme \<Rightarrow> bytes \<Rightarrow> (string, asm_manifest) result" where
  "decode_manifest env \<equiv> decode_value ''failed to deserialize AsmManifest: '' (manifest_decode env)"

definition manifest_put :: "('t, 'm, 'z) store_env_scheme \<Rightarrow> asm_manifest \<Rightarrow> 't \<Rightarrow> (string, unit) result \<times> 't" where
  "manifest_put env manifest t =
     sl_insert env (encode_block_commitment (manifest_block manifest)) (manifest_encode env manifest) t"

definition manifest_get ::
  "('t, 'm, 'z) store_env_scheme \<Rightarrow> l1_block_commitment \<Rightarrow> 't \<Rightarrow> (string, asm_manifest option) result" where
  "manifest_get env block t = kv_get env (decode_manifest env) block t"

definition manifest_prune_before :: "('t, 'm, 'z) store_env_scheme \<Rightarrow> u32 \<Rightarrow> 't \<Rightarrow> (string, unit) result \<times> 't" where
  "manifest_prune_before env = kv_prune_before env"

definition manifest_prune_after :: "('t, 'm, 'z) store_env_scheme \<Rightarrow> u32 \<Rightarrow> 't \<Rightarrow> (string, unit) result \<times> 't" where
  "manifest_prune_after env = kv_prune_after env"

definition manifest_delete :: "('t, 'm, 'z) store_env_scheme \<Rightarrow> l1_block_commitment \<Rightarrow> 't \<Rightarrow> (string, bool) result \<times> 't" where
  "manifest_delete env = kv_delete env"

definition manifest_list :: "('t, 'm, 'z) store_env_scheme \<Rightarrow> 't \<Rightarrow> (string, l1_block_commitment list) result option" where
  "manifest_list env = kv_list env"

text \<open>Auxiliary data.\<close>

abbreviation decode_aux :: "('t, 'm, 'z) store_env_scheme \<Rightarrow> bytes \<Rightarrow> (string, aux_data) result" where
  "decode_aux env \<equiv> decode_value ''failed to deserialize AuxData: '' (aux_decode env)"

definition aux_put ::
  "('t, 'm, 'z) store_env_scheme \<Rightarrow> l1_block_commitment \<Rightarrow> aux_data \<Rightarrow> 't \<Rightarrow> (string, unit) result \<times> 't" where
  "aux_put env block data t = sl_insert env (encode_block_commitment block) (aux_encode env data) t"

definition aux_get :: "('t, 'm, 'z) store_env_scheme \<Rightarrow> l1_block_commitment \<Rightarrow> 't \<Rightarrow> (string, aux_data option) result" where
  "aux_get env block t = kv_get env (decode_aux env) block t"

definition aux_prune_before :: "('t, 'm, 'z) store_env_scheme \<Rightarrow> u32 \<Rightarrow> 't \<Rightarrow> (string, unit) result \<times> 't" where
  "aux_prune_before env = kv_prune_before env"

definition aux_prune_after :: "('t, 'm, 'z) store_env_scheme \<Rightarrow> u32 \<Rightarrow> 't \<Rightarrow> (string, unit) result \<times> 't" where
  "aux_prune_after env = kv_prune_after env"

definition aux_delete :: "('t, 'm, 'z) store_env_scheme \<Rightarrow> l1_block_commitment \<Rightarrow> 't \<Rightarrow> (string, bool) result \<times> 't" where
  "aux_delete env = kv_delete env"

definition aux_list :: "('t, 'm, 'z) store_env_scheme \<Rightarrow> 't \<Rightarrow> (string, l1_block_commitment list) result option" where
  "aux_list env = kv_list env"

section \<open>Laws of the keys\<close>

lemma length_be_bytes [simp]: "length (be_bytes k x) = k"
  by (induction k arbitrary: x) simp_all

lemma of_nat_byte_less: "a < 256 \<Longrightarrow> b < 256 \<Longrightarrow> (of_nat a :: u8) < of_nat b \<longleftrightarrow> a < b"
  by (simp add: word_less_nat_alt unat_of_nat)

lemma of_nat_byte_eq: "a < 256 \<Longrightarrow> b < 256 \<Longrightarrow> (of_nat a :: u8) = of_nat b \<longleftrightarrow> a = b"
  by (simp add: word_unat_eq_iff unat_of_nat)

lemma digit_bound: "x < 256 ^ Suc k \<Longrightarrow> x div 256 ^ k < (256 :: nat)"
  by (simp add: less_mult_imp_div_less mult.commute)

lemma div_mod_less: "(x :: nat) < y \<longleftrightarrow> x div d < y div d \<or> x div d = y div d \<and> x mod d < y mod d"
  by (metis div_le_mono div_mult_mod_eq less_imp_le_nat linorder_neqE_nat nat_add_left_cancel_less order_le_imp_less_or_eq not_less)

lemma be_bytes_less:
  "x < 256 ^ k \<Longrightarrow> y < 256 ^ k \<Longrightarrow> be_bytes k x @ s < be_bytes k y @ s' \<longleftrightarrow> x < y \<or> x = y \<and> s < s'"
proof (induction k arbitrary: x y)
  case (Suc k)
  let ?d = "256 ^ k :: nat"
  have IH: "be_bytes k (x mod ?d) @ s < be_bytes k (y mod ?d) @ s' \<longleftrightarrow> x mod ?d < y mod ?d \<or> x mod ?d = y mod ?d \<and> s < s'"
    by (rule Suc.IH) simp_all
  have "x = y \<longleftrightarrow> x div ?d = y div ?d \<and> x mod ?d = y mod ?d" by (metis div_mult_mod_eq)
  then show ?case
    using IH div_mod_less [of x y ?d] of_nat_byte_less [OF digit_bound [OF Suc.prems(1)] digit_bound [OF Suc.prems(2)]]
      of_nat_byte_eq [OF digit_bound [OF Suc.prems(1)] digit_bound [OF Suc.prems(2)]] by auto
qed simp

lemma foldl_be_bytes:
  "x < 256 ^ k \<Longrightarrow> foldl (\<lambda>a (b :: u8). a * 256 + unat b) a (be_bytes k x) = a * 256 ^ k + x"
proof (induction k arbitrary: a x)
  case (Suc k)
  have "unat (of_nat (x div 256 ^ k) :: u8) = x div 256 ^ k" using digit_bound [OF Suc.prems] by (simp add: unat_of_nat)
  then show ?case using Suc.IH [of "x mod 256 ^ k"] by (simp add: algebra_simps)
qed simp

lemma from_be_be_bytes: "x < 256 ^ k \<Longrightarrow> from_be_bytes (be_bytes k x) = x"
  by (simp add: from_be_bytes_def foldl_be_bytes)

lemma unat_u32_be: "unat (h :: u32) < 256 ^ 4"
  using unat_u32_lt [of h] by simp

lemma encode_less:
  "encode_block_commitment a < encode_block_commitment b \<longleftrightarrow>
     l1_block_height a < l1_block_height b
   \<or> l1_block_height a = l1_block_height b \<and> l1_block_blkid a < l1_block_blkid b"
  unfolding encode_block_commitment_def be_bytes_less [OF unat_u32_be unat_u32_be]
  by (simp add: word_less_nat_alt word_unat_eq_iff)

lemma encode_inj [simp]: "encode_block_commitment a = encode_block_commitment b \<longleftrightarrow> a = b"
proof
  assume eq: "encode_block_commitment a = encode_block_commitment b"
  then have "be_bytes 4 (unat (l1_block_height a)) = be_bytes 4 (unat (l1_block_height b))"
    and blk: "l1_block_blkid a = l1_block_blkid b" by (simp_all add: encode_block_commitment_def)
  then have "unat (l1_block_height a) = unat (l1_block_height b)"
    by (metis from_be_be_bytes unat_u32_be)
  then show "a = b" using blk by (cases a; cases b) (simp add: word_unat_eq_iff)
qed simp

lemma decode_encode:
  "length (l1_block_blkid c) = 32 \<Longrightarrow> decode_block_commitment (encode_block_commitment c) = Some c"
  using from_be_be_bytes [OF unat_u32_be [of "l1_block_height c"]]
  by (cases c) (simp add: decode_block_commitment_def encode_block_commitment_def)

lemma encode_below: "encode_block_commitment c < be_bytes 4 (unat h) \<longleftrightarrow> l1_block_height c < h"
proof -
  have "be_bytes 4 (unat (l1_block_height c)) @ l1_block_blkid c < be_bytes 4 (unat h) @ [] \<longleftrightarrow> unat (l1_block_height c) < unat h"
    unfolding be_bytes_less [OF unat_u32_be unat_u32_be] by simp
  then show ?thesis by (simp add: encode_block_commitment_def word_less_nat_alt)
qed

lemma encode_from: "be_bytes 4 (unat h) \<le> encode_block_commitment c \<longleftrightarrow> h \<le> l1_block_height c"
  using encode_below [of c h] by (simp add: not_less [symmetric])

section \<open>Laws of the stores\<close>

lemma sl_insert_map:
  "sled_laws env \<Longrightarrow> sl_insert env k v t = (r, t') \<Longrightarrow>
     sl_map env t' = (sl_map env t)(k \<mapsto> v) \<or> \<not> is_ok r \<and> sl_map env t' = sl_map env t"
  unfolding sled_laws_def insert_law_def by (elim conjE) blast

lemma sl_get_map: "sled_laws env \<Longrightarrow> sl_get env k t = Ok r \<Longrightarrow> r = sl_map env t k"
  unfolding sled_laws_def get_law_def by (elim conjE) blast

lemma sl_remove_map:
  "sled_laws env \<Longrightarrow> sl_remove env k t = (r, t') \<Longrightarrow>
     sl_map env t' = (sl_map env t)(k := None) \<and> (\<forall>old. r = Ok old \<longrightarrow> old = sl_map env t k)
   \<or> \<not> is_ok r \<and> sl_map env t' = sl_map env t"
  unfolding sled_laws_def remove_law_def by (elim conjE) blast

lemma sl_range_items:
  "sled_laws env \<Longrightarrow> sl_range env lower upper t = map Ok items \<Longrightarrow>
     items = filter (in_range lower upper \<circ> fst) (sl_entries env t)"
  unfolding sled_laws_def scan_law_def by (elim conjE) blast

lemma sl_last_entry:
  "sled_laws env \<Longrightarrow> sl_last env t = Ok r \<Longrightarrow>
     r = (if sl_entries env t = [] then None else Some (last (sl_entries env t)))"
  unfolding sled_laws_def scan_law_def by (elim conjE) blast

lemma sl_get_gt_entry:
  "sled_laws env \<Longrightarrow> sl_get_gt env k t = Ok r \<Longrightarrow>
     r = (case filter (\<lambda>e. k < fst e) (sl_entries env t) of [] \<Rightarrow> None | e # _ \<Rightarrow> Some e)"
  unfolding sled_laws_def scan_law_def by (elim conjE) blast

lemma sl_scan_prefix_items:
  "sled_laws env \<Longrightarrow> sl_scan_prefix env p t = map Ok items \<Longrightarrow>
     items = filter (\<lambda>e. take (length p) (fst e) = p) (sl_entries env t)"
  unfolding sled_laws_def scan_law_def by (elim conjE) blast

lemma sl_scan_prefix_item:
  "sled_laws env \<Longrightarrow> Ok e \<in> set (sl_scan_prefix env p t) \<Longrightarrow> e \<in> set (sl_entries env t) \<and> take (length p) (fst e) = p"
  unfolding sled_laws_def scan_law_def by (elim conjE) blast

lemma sl_apply_batch_map:
  "sled_laws env \<Longrightarrow> sl_apply_batch env batch t = (r, t') \<Longrightarrow>
     sl_map env t' = foldl (\<lambda>m (k, v). m(k := v)) (sl_map env t) batch \<or> \<not> is_ok r \<and> sl_map env t' = sl_map env t"
  unfolding sled_laws_def batch_law_def by (elim conjE) blast

lemma sl_entries_strict: "sled_laws env \<Longrightarrow> keys_strict fst (sl_entries env t)"
  unfolding sled_laws_def scan_law_def by (elim conjE) blast

definition kv_lookup :: "('t, 'z) sled_env_scheme \<Rightarrow> (bytes \<Rightarrow> (string, 'v) result) \<Rightarrow> 't \<Rightarrow> l1_block_commitment \<Rightarrow> 'v option" where
  "kv_lookup env decode t c =
     (case sl_map env t (encode_block_commitment c) of
        None \<Rightarrow> None
      | Some bs \<Rightarrow> (case decode bs of Ok v \<Rightarrow> Some v | Err _ \<Rightarrow> None))"

lemma kv_get_lookup: "sled_laws env \<Longrightarrow> kv_get env decode c t = Ok r \<Longrightarrow> r = kv_lookup env decode t c"
  by (auto simp: kv_get_def kv_lookup_def res_bind_def dest: sl_get_map split: sum.splits option.splits)

lemma kv_put_lookup:
  assumes "sled_laws env" "sl_insert env (encode_block_commitment c) bs t = (r, t')" "decode bs = Ok v"
  shows "kv_lookup env decode t' = (kv_lookup env decode t)(c \<mapsto> v)
    \<or> \<not> is_ok r \<and> kv_lookup env decode t' = kv_lookup env decode t"
  using sl_insert_map [OF assms(1,2)] assms(3) by (auto simp: kv_lookup_def fun_eq_iff)

text \<open>What a client of a block store relies on: \<open>look\<close> is the stored value, a read that succeeds returns it,
  a write that succeeds changes exactly its own block, and one that fails does that or nothing.\<close>

locale block_store =
  fixes put :: "l1_block_commitment \<Rightarrow> 'v \<Rightarrow> 't \<Rightarrow> (string, unit) result \<times> 't"
    and get :: "l1_block_commitment \<Rightarrow> 't \<Rightarrow> (string, 'v option) result"
    and look :: "'t \<Rightarrow> l1_block_commitment \<Rightarrow> 'v option"
    and ok :: "l1_block_commitment \<Rightarrow> 'v \<Rightarrow> bool" and lawful :: bool
  assumes get_look: "lawful \<Longrightarrow> get b t = Ok r \<Longrightarrow> r = look t b"
    and put_look: "lawful \<Longrightarrow> ok b v \<Longrightarrow> put b v t = (res, t') \<Longrightarrow> look t' = (look t)(b \<mapsto> v) \<or> \<not> is_ok res \<and> look t' = look t"
begin

lemma put_Ok: "lawful \<Longrightarrow> ok b v \<Longrightarrow> put b v t = (Ok u, t') \<Longrightarrow> look t' = (look t)(b \<mapsto> v)"
  using put_look [of b v t "Ok u" t'] by simp

lemma put_get: "lawful \<Longrightarrow> ok b v \<Longrightarrow> put b v t = (Ok u, t') \<Longrightarrow> get c t' = Ok r \<Longrightarrow> r = (if c = b then Some v else look t c)"
  using put_Ok get_look by fastforce

lemma put_other: "lawful \<Longrightarrow> ok b v \<Longrightarrow> put b v t = (r, t') \<Longrightarrow> c \<noteq> b \<Longrightarrow> look t' c = look t c"
  using put_look [of b v t r t'] by auto

lemma put_same: "lawful \<Longrightarrow> ok b v \<Longrightarrow> put b v t = (r, t') \<Longrightarrow> look t b = Some v \<Longrightarrow> look t' = look t"
  using put_look [of b v t r t'] by (auto simp: fun_upd_idem)

lemma put_grows: "lawful \<Longrightarrow> ok b v \<Longrightarrow> put b v t = (r, t') \<Longrightarrow> look t b = None \<or> look t b = Some v \<Longrightarrow> look t \<subseteq>\<^sub>m look t'"
  using put_look [of b v t r t'] by (auto simp: map_le_def)

end

interpretation states: block_store "\<lambda>b. state_put env" "state_get env" "kv_lookup env (decode_state env)"
    "\<lambda>b st. b = last_processed_block st \<and> state_decode env (state_encode env st) = Ok st" "sled_laws env"
  for env :: "('t, 'm, 'z) store_env_scheme"
proof unfold_locales
  show "r = kv_lookup env (decode_state env) t b" if "sled_laws env" "state_get env b t = Ok r" for b t r
    by (rule kv_get_lookup [OF that(1)]) (use that(2) in \<open>simp add: state_get_def\<close>)
next
  fix b v t res t'
  assume a: "sled_laws env" "b = last_processed_block v \<and> state_decode env (state_encode env v) = Ok v" "state_put env v t = (res, t')"
  have ins: "sl_insert env (encode_block_commitment b) (state_encode env v) t = (res, t')"
    using a(2,3) unfolding state_put_def by auto
  have dec: "decode_state env (state_encode env v) = Ok v" unfolding decode_value_def using a(2) by auto
  show "kv_lookup env (decode_state env) t' = (kv_lookup env (decode_state env) t)(b \<mapsto> v)
      \<or> \<not> is_ok res \<and> kv_lookup env (decode_state env) t' = kv_lookup env (decode_state env) t"
    by (rule kv_put_lookup [where decode = "decode_state env", OF a(1) ins dec])
qed

interpretation manifests: block_store "\<lambda>b. manifest_put env" "manifest_get env" "kv_lookup env (decode_manifest env)"
    "\<lambda>b mf. b = manifest_block mf \<and> manifest_decode env (manifest_encode env mf) = Ok mf" "sled_laws env"
  for env :: "('t, 'm, 'z) store_env_scheme"
proof unfold_locales
  show "r = kv_lookup env (decode_manifest env) t b" if "sled_laws env" "manifest_get env b t = Ok r" for b t r
    by (rule kv_get_lookup [OF that(1)]) (use that(2) in \<open>simp add: manifest_get_def\<close>)
next
  fix b v t res t'
  assume a: "sled_laws env" "b = manifest_block v \<and> manifest_decode env (manifest_encode env v) = Ok v" "manifest_put env v t = (res, t')"
  have ins: "sl_insert env (encode_block_commitment b) (manifest_encode env v) t = (res, t')"
    using a(2,3) unfolding manifest_put_def by auto
  have dec: "decode_manifest env (manifest_encode env v) = Ok v" unfolding decode_value_def using a(2) by auto
  show "kv_lookup env (decode_manifest env) t' = (kv_lookup env (decode_manifest env) t)(b \<mapsto> v)
      \<or> \<not> is_ok res \<and> kv_lookup env (decode_manifest env) t' = kv_lookup env (decode_manifest env) t"
    by (rule kv_put_lookup [where decode = "decode_manifest env", OF a(1) ins dec])
qed

interpretation auxes: block_store "aux_put env" "aux_get env" "kv_lookup env (decode_aux env)"
    "\<lambda>b d. aux_decode env (aux_encode env d) = Ok d" "sled_laws env"
  for env :: "('t, 'm, 'z) store_env_scheme"
proof unfold_locales
  show "r = kv_lookup env (decode_aux env) t b" if "sled_laws env" "aux_get env b t = Ok r" for b t r
    by (rule kv_get_lookup [OF that(1)]) (use that(2) in \<open>simp add: aux_get_def\<close>)
next
  fix b v t res t'
  assume a: "sled_laws env" "aux_decode env (aux_encode env v) = Ok v" "aux_put env b v t = (res, t')"
  have ins: "sl_insert env (encode_block_commitment b) (aux_encode env v) t = (res, t')"
    using a(2,3) unfolding aux_put_def by auto
  have dec: "decode_aux env (aux_encode env v) = Ok v" unfolding decode_value_def using a(2) by auto
  show "kv_lookup env (decode_aux env) t' = (kv_lookup env (decode_aux env) t)(b \<mapsto> v)
      \<or> \<not> is_ok res \<and> kv_lookup env (decode_aux env) t' = kv_lookup env (decode_aux env) t"
    by (rule kv_put_lookup [where decode = "decode_aux env", OF a(1) ins dec])
qed

text \<open>Pruning: the keys of a range are removed, in order, and nothing else changes.\<close>

lemma remove_keys_map:
  "sled_laws env \<Longrightarrow> remove_keys env items t = (Ok u, t') \<Longrightarrow>
     \<exists>kvs. items = map Ok kvs \<and> (\<forall>k. sl_map env t' k = (if k \<in> fst ` set kvs then None else sl_map env t k))"
proof (induction items arbitrary: t)
  case Nil
  then show ?case by (intro exI [of _ "[]"]) simp
next
  case (Cons entry rest)
  obtain key v where entry: "entry = Ok (key, v)" using Cons.prems(2) by (cases entry) auto
  obtain old t1 where rm: "sl_remove env key t = (Ok old, t1)" "remove_keys env rest t1 = (Ok u, t')"
    using Cons.prems(2) entry by (auto split: prod.splits sum.splits)
  have m1: "sl_map env t1 = (sl_map env t)(key := None)" using sl_remove_map [OF Cons.prems(1) rm(1)] by simp
  obtain kvs where kvs: "rest = map Ok kvs" "\<forall>k. sl_map env t' k = (if k \<in> fst ` set kvs then None else sl_map env t1 k)"
    using Cons.IH [OF Cons.prems(1) rm(2)] by blast
  show ?case by (intro exI [of _ "(key, v) # kvs"]) (simp add: entry kvs m1)
qed

lemma remove_range_map:
  assumes laws: "sled_laws env" and run: "remove_keys env (sl_range env lower upper t) t = (Ok u, t')"
  shows "sl_map env t' k = (if in_range lower upper k then None else sl_map env t k)"
proof -
  obtain kvs where kvs: "sl_range env lower upper t = map Ok kvs"
    "\<forall>k. sl_map env t' k = (if k \<in> fst ` set kvs then None else sl_map env t k)"
    using remove_keys_map [OF laws run] by blast
  have "kvs = filter (in_range lower upper \<circ> fst) (sl_entries env t)" by (rule sl_range_items [OF laws kvs(1)])
  then have "k \<in> fst ` set kvs \<longleftrightarrow> in_range lower upper k \<and> sl_map env t k \<noteq> None"
    by (force simp: map_of_eq_None_iff)
  then show ?thesis using kvs(2) by auto
qed

lemma prune_before_lookup:
  assumes "sled_laws env" "kv_prune_before env h t = (Ok u, t')"
  shows "kv_lookup env decode t' c = (if l1_block_height c < h then None else kv_lookup env decode t c)"
  using remove_range_map [OF assms(1) assms(2) [unfolded kv_prune_before_def], of "encode_block_commitment c"]
  by (simp add: kv_lookup_def in_range_def encode_below)

lemma prune_after_lookup:
  assumes "sled_laws env" "kv_prune_after env h t = (Ok u, t')"
  shows "kv_lookup env decode t' c = (if h < l1_block_height c then None else kv_lookup env decode t c)"
proof (cases "checked_add h 1")
  case None
  then have "uint h + 1 = 2 ^ 32" using uint_lt2p [of h] by (auto simp: checked_add_def split: if_splits)
  then have "\<not> h < l1_block_height c" using uint_lt2p [of "l1_block_height c"] by (simp add: word_less_def)
  then show ?thesis using assms(2) None by (simp add: kv_prune_after_def)
next
  case (Some f)
  have f: "unat f = unat h + 1" using checked_add_SomeD [OF Some] by simp
  have "f \<le> l1_block_height c \<longleftrightarrow> h < l1_block_height c" by (simp add: word_le_nat_alt word_less_nat_alt f Suc_le_eq)
  then show ?thesis
    using remove_range_map [OF assms(1), of "Some (be_bytes 4 (unat f))" None t u t' "encode_block_commitment c"] assms(2) Some
    by (simp add: kv_lookup_def in_range_def encode_from kv_prune_after_def)
qed

lemma last_is_max:
  assumes "keys_strict fst xs" and x: "x \<in> set xs"
  shows "fst x \<le> fst (last xs)"
proof -
  have split: "xs = butlast xs @ [last xs]" using x by (cases xs rule: rev_cases) simp_all
  have "sorted (map fst (butlast xs @ [last xs]))" using keys_strict_sorted [OF assms(1)] split by simp
  then have "\<forall>y \<in> set (butlast xs). fst y \<le> fst (last xs)" by (simp add: sorted_append)
  moreover have "x \<in> set (butlast xs) \<or> x = last xs" using x by (cases xs rule: rev_cases) auto
  ultimately show ?thesis by auto
qed

text \<open>Every entry of the anchor-state tree is a state under the key of its own last block: \<open>put\<close> is the only writer.\<close>

definition states_wf :: "('t, 'm, 'z) store_env_scheme \<Rightarrow> 't \<Rightarrow> bool" where
  "states_wf env t \<longleftrightarrow> list_all (\<lambda>(k, v). case decode_state env v of
     Ok st \<Rightarrow> k = encode_block_commitment (last_processed_block st) | Err _ \<Rightarrow> False) (sl_entries env t)"

lemma entries_map_iff: "sled_laws env \<Longrightarrow> (k, v) \<in> set (sl_entries env t) \<longleftrightarrow> sl_map env t k = Some v"
  using keys_strict_distinct [OF sl_entries_strict] map_of_eq_Some_iff by metis

lemma states_wf_map:
  assumes laws: "sled_laws env"
  shows "states_wf env t \<longleftrightarrow> (\<forall>k v. sl_map env t k = Some v \<longrightarrow>
     (\<exists>st. decode_state env v = Ok st \<and> k = encode_block_commitment (last_processed_block st)))"
proof -
  have "(case decode_state env v of Ok st \<Rightarrow> k = encode_block_commitment (last_processed_block st) | Err _ \<Rightarrow> False) \<longleftrightarrow>
      (\<exists>st. decode_state env v = Ok st \<and> k = encode_block_commitment (last_processed_block st))" for k v
    by (cases "decode_state env v") auto
  then show ?thesis unfolding states_wf_def list_all_iff entries_map_iff [OF laws, symmetric] by auto
qed

lemma states_wf_put:
  assumes "sled_laws env" "states_wf env t" "state_decode env (state_encode env st) = Ok st" "state_put env st t = (r, t')"
  shows "states_wf env t'"
  using sl_insert_map [OF assms(1) assms(4) [unfolded state_put_def]] assms(2,3)
  by (auto simp: states_wf_map [OF assms(1)] decode_value_def split: if_splits)

lemma states_wf_mono:
  "sled_laws env \<Longrightarrow> states_wf env t \<Longrightarrow> (\<And>k v. sl_map env t' k = Some v \<Longrightarrow> sl_map env t k = Some v) \<Longrightarrow> states_wf env t'"
  by (simp add: states_wf_map)

lemma prune_after_shrinks:
  assumes "sled_laws env" "kv_prune_after env h t = (Ok u, t')" "sl_map env t' k = Some v"
  shows "sl_map env t k = Some v"
proof (cases "checked_add h 1")
  case None
  then show ?thesis using assms(2,3) by (simp add: kv_prune_after_def)
next
  case (Some f)
  then show ?thesis
    using remove_range_map [OF assms(1), of "Some (be_bytes 4 (unat f))" None t u t' k] assms(2,3)
    by (simp add: kv_prune_after_def split: if_splits)
qed

lemma get_latest_highest:
  assumes laws: "sled_laws env" and wf: "states_wf env t" and run: "state_get_latest env t = Ok r"
  shows "case r of
      None \<Rightarrow> \<forall>c. kv_lookup env (decode_state env) t c = None
    | Some st \<Rightarrow> kv_lookup env (decode_state env) t (last_processed_block st) = Some st
        \<and> (\<forall>c. kv_lookup env (decode_state env) t c \<noteq> None \<longrightarrow>
             l1_block_height c \<le> l1_block_height (last_processed_block st))"
proof -
  obtain e where e: "sl_last env t = Ok e" using run by (cases "sl_last env t") (auto simp: state_get_latest_def)
  note entry = sl_last_entry [OF laws e]
  show ?thesis
  proof (cases "sl_entries env t = []")
    case True
    then show ?thesis using run e entry by (simp add: state_get_latest_def kv_lookup_def)
  next
    case False
    obtain k v where kv: "last (sl_entries env t) = (k, v)" by (cases "last (sl_entries env t)")
    have mem: "sl_map env t k = Some v"
      using last_in_set [OF False] kv entries_map_iff [OF laws] by simp
    obtain st where st: "decode_state env v = Ok st" "k = encode_block_commitment (last_processed_block st)"
      using wf mem unfolding states_wf_map [OF laws] by blast
    have r: "r = Some st" using run e entry False kv st(1) by (simp add: state_get_latest_def)
    have "l1_block_height c \<le> l1_block_height (last_processed_block st)"
      if some: "kv_lookup env (decode_state env) t c \<noteq> None" for c
    proof -
      obtain w where "sl_map env t (encode_block_commitment c) = Some w"
        using some by (cases "sl_map env t (encode_block_commitment c)") (simp_all add: kv_lookup_def)
      then have "(encode_block_commitment c, w) \<in> set (sl_entries env t)" by (simp add: entries_map_iff [OF laws])
      from last_is_max [OF sl_entries_strict [OF laws] this]
      have "\<not> k < encode_block_commitment c" using kv by simp
      then show ?thesis using st(2) encode_less [of "last_processed_block st" c] by auto
    qed
    then show ?thesis using r mem st by (simp add: kv_lookup_def)
  qed
qed

text \<open>C38: Rolling the anchor-state store back to a height \<open>h\<close> keeps exactly the states up to it: a block at a
  height of at most \<open>h\<close> reads as before, with its state or with none, and a block above \<open>h\<close> reads as absent.
  Reading the latest state then gives one of the kept states, stored under its own block, and no stored
  block at most \<open>h\<close> is higher; it gives none only if the store had nothing up to \<open>h\<close>.\<close>
theorem rollback_latest_is_highest_kept:
  assumes laws: "sled_laws env" and wf: "states_wf env t" and prune: "state_prune_after env h t = (Ok u, t')"
  shows "(\<forall>c. kv_lookup env (decode_state env) t' c
        = (if l1_block_height c \<le> h then kv_lookup env (decode_state env) t c else None))
    \<and> (\<forall>r. state_get_latest env t' = Ok r \<longrightarrow>
        (case r of
           None \<Rightarrow> \<forall>c. kv_lookup env (decode_state env) t c \<noteq> None \<longrightarrow> h < l1_block_height c
         | Some st \<Rightarrow> kv_lookup env (decode_state env) t (last_processed_block st) = Some st
             \<and> l1_block_height (last_processed_block st) \<le> h
             \<and> (\<forall>c. kv_lookup env (decode_state env) t c \<noteq> None \<longrightarrow> l1_block_height c \<le> h \<longrightarrow>
                  l1_block_height c \<le> l1_block_height (last_processed_block st))))"
proof (intro conjI allI impI)
  note look = prune_after_lookup [OF laws prune [unfolded state_prune_after_def], of "decode_state env"]
  show "kv_lookup env (decode_state env) t' c = (if l1_block_height c \<le> h then kv_lookup env (decode_state env) t c else None)" for c
    by (simp add: look not_less [symmetric])
  have wf': "states_wf env t'"
    by (rule states_wf_mono [OF laws wf]) (rule prune_after_shrinks [OF laws prune [unfolded state_prune_after_def]])
  fix r assume latest: "state_get_latest env t' = Ok r"
  note highest = get_latest_highest [OF laws wf' latest]
  show "case r of
      None \<Rightarrow> \<forall>c. kv_lookup env (decode_state env) t c \<noteq> None \<longrightarrow> h < l1_block_height c
    | Some st \<Rightarrow> kv_lookup env (decode_state env) t (last_processed_block st) = Some st
        \<and> l1_block_height (last_processed_block st) \<le> h
        \<and> (\<forall>c. kv_lookup env (decode_state env) t c \<noteq> None \<longrightarrow> l1_block_height c \<le> h \<longrightarrow>
             l1_block_height c \<le> l1_block_height (last_processed_block st))"
  proof (cases r)
    case None
    then have "l1_block_height c \<le> h \<longrightarrow> kv_lookup env (decode_state env) t c = None" for c
      using highest look [of c] by (auto simp: not_less split: if_splits)
    then show ?thesis using None by (auto simp: not_le [symmetric])
  next
    case (Some st)
    then show ?thesis using highest by (auto simp: look not_less split: if_splits)
  qed
qed

text \<open>A concrete database: a red-black tree, in which no operation fails.\<close>

definition tree_db :: "('m anchor_state \<Rightarrow> bytes) \<Rightarrow> (bytes \<Rightarrow> 'm anchor_state) \<Rightarrow> ((bytes, bytes) rbt, 'm) store_env" where
  "tree_db enc rd = \<lparr>sl_get = (\<lambda>k t. Ok (RBT.lookup t k)), sl_insert = (\<lambda>k v t. (Ok (), RBT.insert k v t)),
     sl_remove = (\<lambda>k t. (Ok (RBT.lookup t k), RBT.delete k t)),
     sl_range = (\<lambda>lower upper t. map Ok (filter (in_range lower upper \<circ> fst) (RBT.entries t))),
     sl_contains_key = (\<lambda>k t. Ok (RBT.lookup t k \<noteq> None)),
     sl_last = (\<lambda>t. Ok (if RBT.entries t = [] then None else Some (last (RBT.entries t)))),
     sl_get_gt = (\<lambda>k t. Ok (case filter (\<lambda>e. k < fst e) (RBT.entries t) of [] \<Rightarrow> None | e # _ \<Rightarrow> Some e)),
     sl_scan_prefix = (\<lambda>p t. map Ok (filter (\<lambda>e. take (length p) (fst e) = p) (RBT.entries t))),
     sl_apply_batch = (\<lambda>batch t. (Ok (), foldl (\<lambda>t (k, v). case v of None \<Rightarrow> RBT.delete k t | Some x \<Rightarrow> RBT.insert k x t) t batch)),
     sl_entries = RBT.entries, state_encode = enc, state_decode = (\<lambda>bs. Ok (rd bs)),
     manifest_encode = (\<lambda>mf. be_bytes 4 (unat (mf_height mf)) @ mf_blkid mf),
     manifest_decode = (\<lambda>bs. Ok \<lparr>mf_height = of_nat (from_be_bytes (take 4 bs)), mf_blkid = drop 4 bs, mf_wtxids_root = [], mf_logs = []\<rparr>),
     aux_encode = (\<lambda>_. []), aux_decode = (\<lambda>_. Ok \<lparr>ad_manifest_hashes = [], ad_bitcoin_txs = []\<rparr>)\<rparr>"

lemma map_Ok_inj: "map Ok xs = map Ok ys \<longleftrightarrow> xs = ys"
  by (rule inj_map_eq_map) (simp add: inj_def)

lemma tree_batch:
  "RBT.lookup (foldl (\<lambda>t (k, v). case v of None \<Rightarrow> RBT.delete k t | Some x \<Rightarrow> RBT.insert k x t) t batch)
     = foldl (\<lambda>m (k, v). m(k := v)) (RBT.lookup t) batch"
proof (induction batch arbitrary: t)
  case (Cons e batch)
  then show ?case by (cases e; cases "snd e") simp_all
qed simp

lemma tree_db_laws: "sled_laws (tree_db enc rd)"
  unfolding sled_laws_def get_law_def insert_law_def remove_law_def scan_law_def batch_law_def
  by (auto simp: tree_db_def map_of_entries map_Ok_inj tree_batch keys_strict_def strict_sorted_iff sorted_entries distinct_entries)

lemma be_bytes_code [code]:
  "be_bytes 0 x = []"
  "be_bytes (Suc k) x = word_of_int (int x div 256 ^ k) # be_bytes k (nat (int x mod 256 ^ k))"
proof -
  have div: "int x div 256 ^ k = int (x div 256 ^ k)" by (simp add: zdiv_int)
  have "nat (int x mod 256 ^ k) = x mod 256 ^ k" by (simp add: nat_mod_distrib nat_power_eq)
  then show "be_bytes (Suc k) x = word_of_int (int x div 256 ^ k) # be_bytes k (nat (int x mod 256 ^ k))"
    unfolding div by simp
qed simp

definition sample_state :: "u32 \<Rightarrow> buf32 list anchor_state" where
  "sample_state h = \<lparr>an_spec_id = 1, an_magic = [], an_pow_state = sample_hvs
     \<lparr>hvs_last_verified_block := \<lparr>l1_block_height = h, l1_block_blkid = replicate 32 3\<rparr>\<rparr>, an_history = [], an_sections = []\<rparr>"

definition sample_db :: "((bytes, bytes) rbt, buf32 list) store_env" where
  "sample_db = tree_db (\<lambda>st. be_bytes 4 (unat (l1_block_height (last_processed_block st))))
     (\<lambda>bs. sample_state (of_nat (from_be_bytes bs)))"

definition sample_tree :: "(bytes, bytes) rbt" where
  "sample_tree = snd (state_put sample_db (sample_state 300) (snd (state_put sample_db (sample_state 7)
     (snd (state_put sample_db (sample_state 255) RBT.empty)))))"

lemma sample_db_roundtrip: "state_decode sample_db (state_encode sample_db (sample_state h)) = Ok (sample_state h)"
  using from_be_be_bytes [OF unat_u32_be [of h]]
  by (simp add: sample_db_def tree_db_def last_processed_block_def sample_state_def)

lemma sample_tree_wf: "states_wf sample_db sample_tree"
proof -
  have laws: "sled_laws sample_db" by (simp add: sample_db_def tree_db_laws)
  have "RBT.entries (RBT.empty :: (bytes, bytes) rbt) = []" by code_simp
  then have "states_wf sample_db RBT.empty" by (simp add: states_wf_def sample_db_def tree_db_def)
  then show ?thesis unfolding sample_tree_def
    by (intro states_wf_put [OF laws _ sample_db_roundtrip prod.collapse [symmetric]])
qed

theorem rollback_latest_is_highest_kept_witness:
  "\<exists>t' st. state_prune_after sample_db 256 sample_tree = (Ok (), t') \<and> state_get_latest sample_db t' = Ok (Some st)
     \<and> kv_lookup sample_db (decode_state sample_db) sample_tree (last_processed_block st) = Some st
     \<and> kv_lookup sample_db (decode_state sample_db) t' (last_processed_block st) = Some st
     \<and> l1_block_height (last_processed_block st) = 255"
proof -
  have laws: "sled_laws sample_db" by (simp add: sample_db_def tree_db_laws)
  have ev: "fst (state_prune_after sample_db 256 sample_tree) = Ok ()"
    "list_all (\<lambda>r. case r of Ok (Some st) \<Rightarrow> l1_block_height (last_processed_block st) = 255 | _ \<Rightarrow> False)
       [state_get_latest sample_db (snd (state_prune_after sample_db 256 sample_tree))]" by code_simp+
  obtain t' where t': "state_prune_after sample_db 256 sample_tree = (Ok (), t')"
    using ev(1) by (cases "state_prune_after sample_db 256 sample_tree") simp
  obtain st where st: "state_get_latest sample_db t' = Ok (Some st)" "l1_block_height (last_processed_block st) = 255"
    using ev(2) t' by (auto split: sum.splits option.splits)
  note R = rollback_latest_is_highest_kept [OF laws sample_tree_wf t']
  have "kv_lookup sample_db (decode_state sample_db) sample_tree (last_processed_block st) = Some st" using R st(1) by auto
  moreover from this have "kv_lookup sample_db (decode_state sample_db) t' (last_processed_block st) = Some st"
    using R st(2) by simp
  ultimately show ?thesis using t' st by blast
qed

end
