(* ===== verification/Worker.thy ===== *)
theory Worker
  imports Storage
begin

text \<open>
  The ASM worker of \<open>crates/worker/src\<close> over the context of \<open>bin/asm-runner/src/worker_context.rs\<close>: the
  execution registry, the backward search for a stored base, the auxiliary-data resolver, start-up with its
  validation of the anchor, and block synchronisation.  An operation takes the worker's state and returns
  its outcome together with the state, so every write that happened before a failure is visible: the
  outcome is \<open>Some (Ok v)\<close>, \<open>Some (Err e)\<close>, or \<open>None\<close> for a panic.  The Bitcoin client is a parameter whose
  answers may change from one call to the next.  So is the store of the manifest hashes, the \<open>ns_\<close> fields of
  the environment: \<open>crates/storage/src/sled/manifest_mmr.rs\<close> hands each call to the Merkle mountain range of
  an external crate, and what a statement needs of it is a named law.
\<close>

section \<open>Errors and operations\<close>

datatype anchor_mismatch =
    NetworkMismatch network network
  | BlockMismatch u64 block_id block_id
  | EpochStartTimestampMismatch u64 u32 u32
  | NextTargetMismatch u32 u32

datatype worker_error =
    UnsupportedExecutionPredicate predicate_key
  | DuplicateExecutionPredicate
  | DuplicateExecutionSpec u16
  | UnsupportedExecutionSpec u16
  | RecoveryManifestMismatch l1_block_commitment l1_block_commitment
  | GenesisSpecMismatch
  | GenesisStateMismatch
  | PartialManifestMmr u64 u64
  | MissingManifest l1_block_commitment
  | InvalidRecoveryAnchor l1_block_commitment
  | AsmError asm_error
  | MissingGenesisState
  | AnchorMismatch anchor_mismatch
  | MissingL1Block block_id
  | MissingAsmState block_id
  | MissingAuxData l1_block_commitment
  | BtcRpc string
  | DbError string
  | MissingDependency string
  | Unimplemented
  | BitcoinTransactionNotFound txid
  | L1BlockNotFound l1_height
  | HeightOutOfRange u64
  | NoAsmState
  | InvalidManifestRange u64 u64
  | InvalidHeightRange u64 u64
  | MissingManifestHash u64
  | MmrProofFailed u64
  | ManifestIndexOutOfBound u64 u64
  | WorkerExited
  | ServiceFailure string
  | ServiceLaunch string

type_synonym ('e, 'w, 'a) op = "'w \<Rightarrow> ('e, 'a) result option \<times> 'w"

definition op_return :: "'a \<Rightarrow> ('e, 'w, 'a) op" where
  "op_return a w = (Some (Ok a), w)"

definition op_fail :: "'e \<Rightarrow> ('e, 'w, 'a) op" where
  "op_fail e w = (Some (Err e), w)"

definition op_bind :: "('e, 'w, 'a) op \<Rightarrow> ('a \<Rightarrow> ('e, 'w, 'b) op) \<Rightarrow> ('e, 'w, 'b) op" where
  "op_bind m f w =
     (case m w of
        (None, w') \<Rightarrow> (None, w')
      | (Some (Err e), w') \<Rightarrow> (Some (Err e), w')
      | (Some (Ok a), w') \<Rightarrow> f a w')"

definition op_lift :: "('e, 'a) result option \<Rightarrow> ('e, 'w, 'a) op" where
  "op_lift r w = (r, w)"

section \<open>Execution registry\<close>

type_synonym execution_registry = "(predicate_key \<times> asm_spec) list"

definition register ::
  "predicate_key \<Rightarrow> asm_spec \<Rightarrow> execution_registry \<Rightarrow> (worker_error, execution_registry) result" where
  "register predicate spec targets =
     (if list_ex (\<lambda>(key, _). key = predicate) targets then Err DuplicateExecutionPredicate
      else if list_ex (\<lambda>(_, target). spec_id target = spec_id spec) targets
      then Err (DuplicateExecutionSpec (spec_id spec))
      else Ok (targets @ [(predicate, spec)]))"

definition registered_predicate :: "u16 \<Rightarrow> execution_registry \<Rightarrow> (worker_error, predicate_key) result" where
  "registered_predicate i targets =
     ok_or (UnsupportedExecutionSpec i) (map_option fst (List.find (\<lambda>(_, target). spec_id target = i) targets))"

definition resolve_target :: "predicate_key \<Rightarrow> execution_registry \<Rightarrow> (worker_error, asm_spec) result" where
  "resolve_target predicate targets =
     ok_or (UnsupportedExecutionPredicate predicate)
       (map_option snd (List.find (\<lambda>(key, _). key = predicate) targets))"

definition recover_predicate ::
  "'m anchor_state \<Rightarrow> asm_manifest \<Rightarrow> execution_registry \<Rightarrow> (worker_error, predicate_key) result" where
  "recover_predicate anchor manifest targets =
     (let block = last_processed_block anchor in
      if mf_height manifest \<noteq> l1_block_height block \<or> mf_blkid manifest \<noteq> l1_block_blkid block
      then Err (RecoveryManifestMismatch block (manifest_block manifest))
      else case extract_next_predicate_from_logs (mf_logs manifest) of
             Some predicate \<Rightarrow> Ok predicate
           | None \<Rightarrow> registered_predicate (an_spec_id anchor) targets)"

section \<open>Backward search for a base\<close>

record 's sync_plan =
  pl_base_state :: 's
  pl_base_block :: l1_block_commitment
  pl_pending :: "l1_block_commitment list"

datatype 'e sync_error = ReachedFloor l1_block_commitment u64 | Provider 'e

partial_function (option) plan_sync_loop ::
  "l1_block_commitment \<Rightarrow> u64 \<Rightarrow> (l1_block_commitment \<Rightarrow> ('e, 'w, 's option) op)
     \<Rightarrow> (l1_block_commitment \<Rightarrow> ('e, 'w, l1_block_commitment) op)
     \<Rightarrow> l1_block_commitment \<Rightarrow> l1_block_commitment list \<Rightarrow> 'w
     \<Rightarrow> (('e sync_error, 's sync_plan) result option \<times> 'w) option" where
  "plan_sync_loop tip floor_height base_at parent_of cursor pending w =
     (case base_at cursor w of
        (None, w) \<Rightarrow> Some (None, w)
      | (Some (Err e), w) \<Rightarrow> Some (Some (Err (Provider e)), w)
      | (Some (Ok (Some base)), w) \<Rightarrow>
          Some (Some (Ok \<lparr>pl_base_state = base, pl_base_block = cursor, pl_pending = pending\<rparr>), w)
      | (Some (Ok None), w) \<Rightarrow>
          if ucast (l1_block_height cursor) \<le> floor_height
          then Some (Some (Err (ReachedFloor tip floor_height)), w)
          else case parent_of cursor w of
                 (None, w) \<Rightarrow> Some (None, w)
               | (Some (Err e), w) \<Rightarrow> Some (Some (Err (Provider e)), w)
               | (Some (Ok parent), w) \<Rightarrow>
                   plan_sync_loop tip floor_height base_at parent_of parent (pending @ [cursor]) w)"

declare plan_sync_loop.simps [code]

definition plan_sync ::
  "l1_block_commitment \<Rightarrow> u64 \<Rightarrow> (l1_block_commitment \<Rightarrow> ('e, 'w, 's option) op)
     \<Rightarrow> (l1_block_commitment \<Rightarrow> ('e, 'w, l1_block_commitment) op) \<Rightarrow> 'w
     \<Rightarrow> (('e sync_error, 's sync_plan) result option \<times> 'w) option" where
  "plan_sync tip floor_height base_at parent_of w = plan_sync_loop tip floor_height base_at parent_of tip [] w"

section \<open>Subscribers\<close>

record 'i subscription =
  sub_alive :: bool
  sub_queue :: "'i list"

definition subscribe :: "'i subscription list \<Rightarrow> 'i subscription list" where
  "subscribe subs = subs @ [\<lparr>sub_alive = True, sub_queue = []\<rparr>]"

definition emit :: "'i \<Rightarrow> 'i subscription list \<Rightarrow> 'i subscription list" where
  "emit item subs = map (\<lambda>s. s\<lparr>sub_queue := sub_queue s @ [item]\<rparr>) (filter sub_alive subs)"

section \<open>The worker's context\<close>

record ('l, 't, 'n) world =
  w_l1 :: 'l
  w_states :: 't
  w_manifests :: 't
  w_aux :: 't
  w_mmr :: 'n

record ('t, 'm, 'l, 'n) worker_env = "('t, 'm) store_env" +
  wk_stf :: "'m stf_env"
  rpc_get_block :: "block_id \<Rightarrow> 'l \<Rightarrow> (string, block) result \<times> 'l"
  rpc_get_block_header :: "block_id \<Rightarrow> 'l \<Rightarrow> (string, header) result \<times> 'l"
  rpc_get_block_hash :: "u64 \<Rightarrow> 'l \<Rightarrow> (string, block_id) result \<times> 'l"
  rpc_get_block_height :: "block_id \<Rightarrow> 'l \<Rightarrow> (string, u64) result \<times> 'l"
  rpc_network :: "'l \<Rightarrow> (string, network) result \<times> 'l"
  rpc_get_raw_transaction :: "txid \<Rightarrow> 'l \<Rightarrow> (string, bytes) result \<times> 'l"
  ns_leaf_count :: "'n \<Rightarrow> (string, u64) result"
  ns_put_leaf :: "u64 \<Rightarrow> manifest_hash \<Rightarrow> 'n \<Rightarrow> (string, unit) result \<times> 'n"
  ns_seed :: "'m \<Rightarrow> 'n \<Rightarrow> (string, unit) result \<times> 'n"
  ns_get_leaf :: "u64 \<Rightarrow> 'n \<Rightarrow> (string, manifest_hash option) result"
  ns_generate_proof :: "u64 \<Rightarrow> u64 \<Rightarrow> 'n \<Rightarrow> (string, mmr_proof) result"

definition rpc :: "string \<Rightarrow> ('l \<Rightarrow> (string, 'a) result \<times> 'l) \<Rightarrow> (worker_error, ('l, 't, 'n, 'y) world_scheme, 'a) op" where
  "rpc what call w =
     (case call (w_l1 w) of (r, l) \<Rightarrow> (Some (map_err (\<lambda>e. BtcRpc (what @ e)) r), w\<lparr>w_l1 := l\<rparr>))"

definition get_l1_block ::
  "('t, 'm, 'l, 'n, 'z) worker_env_scheme \<Rightarrow> block_id \<Rightarrow> (worker_error, ('l, 't, 'n, 'y) world_scheme, block) op" where
  "get_l1_block env blockid = rpc ''get_block: '' (rpc_get_block env blockid)"

definition get_l1_block_header ::
  "('t, 'm, 'l, 'n, 'z) worker_env_scheme \<Rightarrow> block_id \<Rightarrow> (worker_error, ('l, 't, 'n, 'y) world_scheme, header) op" where
  "get_l1_block_header env blockid = rpc ''get_block_header: '' (rpc_get_block_header env blockid)"

definition get_l1_block_header_at_height ::
  "('t, 'm, 'l, 'n, 'z) worker_env_scheme \<Rightarrow> l1_height \<Rightarrow> (worker_error, ('l, 't, 'n, 'y) world_scheme, header) op" where
  "get_l1_block_header_at_height env height =
     op_bind (rpc ''get_block_hash: '' (rpc_get_block_hash env (ucast height)))
       (\<lambda>block_hash. rpc ''get_block_header: '' (rpc_get_block_header env block_hash))"

definition get_l1_block_height ::
  "('t, 'm, 'l, 'n, 'z) worker_env_scheme \<Rightarrow> block_id \<Rightarrow> (worker_error, ('l, 't, 'n, 'y) world_scheme, l1_height) op" where
  "get_l1_block_height env blockid =
     op_bind (rpc ''get_block_height: '' (rpc_get_block_height env blockid))
       (\<lambda>height. if uint height < 2 ^ 32 then op_return (ucast height) else op_fail (HeightOutOfRange height))"

definition get_network ::
  "('t, 'm, 'l, 'n, 'z) worker_env_scheme \<Rightarrow> (worker_error, ('l, 't, 'n, 'y) world_scheme, network) op" where
  "get_network env = rpc ''network: '' (rpc_network env)"

definition fetch_bitcoin_tx ::
  "('t, 'm, 'l, 'n, 'z) worker_env_scheme \<Rightarrow> txid \<Rightarrow> (worker_error, ('l, 't, 'n, 'y) world_scheme, bytes) op" where
  "fetch_bitcoin_tx env tid = rpc ''get_raw_transaction: '' (rpc_get_raw_transaction env tid)"

definition get_latest_anchor_state ::
  "('t, 'm, 'l, 'n, 'z) worker_env_scheme \<Rightarrow> (worker_error, ('l, 't, 'n, 'y) world_scheme, 'm anchor_state option) op" where
  "get_latest_anchor_state env w = (Some (map_err DbError (state_get_latest env (w_states w))), w)"

definition get_anchor_state ::
  "('t, 'm, 'l, 'n, 'z) worker_env_scheme \<Rightarrow> l1_block_commitment
     \<Rightarrow> (worker_error, ('l, 't, 'n, 'y) world_scheme, 'm anchor_state) op" where
  "get_anchor_state env block w =
     (Some (res_bind (map_err DbError (state_get env block (w_states w)))
        (\<lambda>found. ok_or (MissingAsmState (l1_block_blkid block)) found)), w)"

definition store_anchor_state ::
  "('t, 'm, 'l, 'n, 'z) worker_env_scheme \<Rightarrow> 'm anchor_state \<Rightarrow> (worker_error, ('l, 't, 'n, 'y) world_scheme, unit) op" where
  "store_anchor_state env state w =
     (case state_put env state (w_states w) of (r, t) \<Rightarrow> (Some (map_err DbError r), w\<lparr>w_states := t\<rparr>))"

definition get_manifest ::
  "('t, 'm, 'l, 'n, 'z) worker_env_scheme \<Rightarrow> l1_block_commitment
     \<Rightarrow> (worker_error, ('l, 't, 'n, 'y) world_scheme, asm_manifest) op" where
  "get_manifest env block w =
     (Some (res_bind (map_err DbError (manifest_get env block (w_manifests w)))
        (\<lambda>found. ok_or (MissingManifest block) found)), w)"

definition put_manifest ::
  "('t, 'm, 'l, 'n, 'z) worker_env_scheme \<Rightarrow> asm_manifest \<Rightarrow> (worker_error, ('l, 't, 'n, 'y) world_scheme, unit) op" where
  "put_manifest env manifest w =
     (case manifest_put env manifest (w_manifests w) of (r, t) \<Rightarrow> (Some (map_err DbError r), w\<lparr>w_manifests := t\<rparr>))"

definition put_manifest_hash ::
  "('t, 'm, 'l, 'n, 'z) worker_env_scheme \<Rightarrow> u64 \<Rightarrow> manifest_hash \<Rightarrow> (worker_error, ('l, 't, 'n, 'y) world_scheme, unit) op" where
  "put_manifest_hash env height hash w =
     (case ns_put_leaf env height hash (w_mmr w) of (r, n) \<Rightarrow> (Some (map_err DbError r), w\<lparr>w_mmr := n\<rparr>))"

definition record_manifest ::
  "('t, 'm, 'l, 'n, 'z) worker_env_scheme \<Rightarrow> asm_manifest \<Rightarrow> (worker_error, ('l, 't, 'n, 'y) world_scheme, unit) op" where
  "record_manifest env manifest =
     (let height = ucast (mf_height manifest); hash = se_manifest_hash (wk_stf env) manifest in
      op_bind (put_manifest env manifest) (\<lambda>_. put_manifest_hash env height hash))"

definition seed_manifest_mmr ::
  "('t, 'm, 'l, 'n, 'z) worker_env_scheme \<Rightarrow> 'm \<Rightarrow> (worker_error, ('l, 't, 'n, 'y) world_scheme, unit) op" where
  "seed_manifest_mmr env genesis w =
     (case ns_seed env genesis (w_mmr w) of (r, n) \<Rightarrow> (Some (map_err DbError r), w\<lparr>w_mmr := n\<rparr>))"

definition manifest_mmr_leaf_count ::
  "('t, 'm, 'l, 'n, 'z) worker_env_scheme \<Rightarrow> (worker_error, ('l, 't, 'n, 'y) world_scheme, u64) op" where
  "manifest_mmr_leaf_count env w = (Some (map_err DbError (ns_leaf_count env (w_mmr w))), w)"

definition generate_mmr_proof_at ::
  "('t, 'm, 'l, 'n, 'z) worker_env_scheme \<Rightarrow> u64 \<Rightarrow> u64 \<Rightarrow> (worker_error, ('l, 't, 'n, 'y) world_scheme, mmr_proof) op" where
  "generate_mmr_proof_at env index at_leaf_count w =
     (Some (map_err (\<lambda>_. MmrProofFailed index) (ns_generate_proof env index at_leaf_count (w_mmr w))), w)"

definition load_manifest_hash ::
  "('t, 'm, 'l, 'n, 'z) worker_env_scheme \<Rightarrow> u64 \<Rightarrow> (worker_error, ('l, 't, 'n, 'y) world_scheme, manifest_hash) op" where
  "load_manifest_hash env index w =
     (Some (res_bind (map_err DbError (ns_get_leaf env index (w_mmr w)))
        (\<lambda>found. ok_or (MissingManifestHash index) found)), w)"

definition store_aux_data ::
  "('t, 'm, 'l, 'n, 'z) worker_env_scheme \<Rightarrow> l1_block_commitment \<Rightarrow> aux_data \<Rightarrow> (worker_error, ('l, 't, 'n, 'y) world_scheme, unit) op" where
  "store_aux_data env block data w =
     (case aux_put env block data (w_aux w) of (r, t) \<Rightarrow> (Some (map_err DbError r), w\<lparr>w_aux := t\<rparr>))"

definition get_aux_data ::
  "('t, 'm, 'l, 'n, 'z) worker_env_scheme \<Rightarrow> l1_block_commitment \<Rightarrow> (worker_error, ('l, 't, 'n, 'y) world_scheme, aux_data) op" where
  "get_aux_data env block w =
     (Some (res_bind (map_err DbError (aux_get env block (w_aux w)))
        (\<lambda>found. ok_or (MissingAuxData block) found)), w)"

section \<open>Resolution of auxiliary data\<close>

fun resolve_bitcoin_txs ::
  "('t, 'm, 'l, 'n, 'z) worker_env_scheme \<Rightarrow> txid set \<Rightarrow> txid list \<Rightarrow> (worker_error, ('l, 't, 'n, 'y) world_scheme, bytes list) op" where
  "resolve_bitcoin_txs env seen [] = op_return []"
| "resolve_bitcoin_txs env seen (tid # txids) =
     (if tid \<in> seen then resolve_bitcoin_txs env seen txids
      else op_bind (fetch_bitcoin_tx env tid)
             (\<lambda>raw. op_bind (resolve_bitcoin_txs env (insert tid seen) txids) (\<lambda>raws. op_return (raw # raws))))"

fun resolve_heights ::
  "('t, 'm, 'l, 'n, 'z) worker_env_scheme \<Rightarrow> u64 \<Rightarrow> u64 set \<Rightarrow> u64 list
     \<Rightarrow> (worker_error, ('l, 't, 'n, 'y) world_scheme, (manifest_hash \<times> mmr_proof) list) op" where
  "resolve_heights env at_leaf_count seen [] = op_return []"
| "resolve_heights env at_leaf_count seen (mmr_index # rest) =
     (if mmr_index \<in> seen then resolve_heights env at_leaf_count seen rest
      else op_bind (load_manifest_hash env mmr_index) (\<lambda>hash.
           op_bind (generate_mmr_proof_at env mmr_index at_leaf_count) (\<lambda>mproof.
           op_bind (resolve_heights env at_leaf_count (insert mmr_index seen) rest) (\<lambda>resolved.
             op_return ((hash, mproof) # resolved)))))"

definition resolve_manifest_hashes ::
  "('t, 'm, 'l, 'n, 'z) worker_env_scheme \<Rightarrow> u64 \<Rightarrow> manifest_hash_range list
     \<Rightarrow> (worker_error, ('l, 't, 'n, 'y) world_scheme, (manifest_hash \<times> mmr_proof) list) op" where
  "resolve_manifest_hashes env at_leaf_count ranges =
     resolve_heights env at_leaf_count {} (concat (map (\<lambda>r. height_range (mhr_start r) (mhr_end r)) ranges))"

definition resolve_aux ::
  "('t, 'm, 'l, 'n, 'z) worker_env_scheme \<Rightarrow> u64 \<Rightarrow> aux_requests \<Rightarrow> (worker_error, ('l, 't, 'n, 'y) world_scheme, aux_data) op" where
  "resolve_aux env at_leaf_count requests =
     op_bind (resolve_bitcoin_txs env {} (ar_bitcoin_txs requests)) (\<lambda>bitcoin_txs.
     op_bind (resolve_manifest_hashes env at_leaf_count (ar_manifest_hashes requests)) (\<lambda>manifest_hashes.
       op_return \<lparr>ad_manifest_hashes = manifest_hashes, ad_bitcoin_txs = bitcoin_txs\<rparr>))"

section \<open>Worker state\<close>

record ('l, 't, 'n, 'm) worker_state = "('l, 't, 'n) world" +
  ws_registry :: execution_registry
  ws_genesis_block :: l1_block_commitment
  ws_genesis_predicate :: predicate_key
  ws_next_predicate :: predicate_key
  ws_anchor :: "'m anchor_state"
  ws_blkid :: l1_block_commitment
  ws_genesis_height :: u64
  ws_subscribers :: "l1_block_commitment subscription list"

definition recover_from_context ::
  "('t, 'm, 'l, 'n, 'z) worker_env_scheme \<Rightarrow> execution_registry \<Rightarrow> l1_block_commitment \<Rightarrow> predicate_key \<Rightarrow> 'm anchor_state
     \<Rightarrow> (worker_error, ('l, 't, 'n, 'y) world_scheme, predicate_key) op" where
  "recover_from_context env registry genesis genesis_predicate anchor =
     (let block = last_processed_block anchor in
      if block = genesis then op_return genesis_predicate
      else if l1_block_height block \<le> l1_block_height genesis then op_fail (InvalidRecoveryAnchor block)
      else op_bind (get_manifest env block) (\<lambda>manifest. op_lift (Some (recover_predicate anchor manifest registry))))"

definition validate_anchor_against_l1 ::
  "('t, 'm, 'l, 'n, 'z) worker_env_scheme \<Rightarrow> header_verification_state
     \<Rightarrow> (worker_error, ('l, 't, 'n, 'y) world_scheme, unit) op" where
  "validate_anchor_against_l1 env pow_state =
     (let height = l1_block_height (hvs_last_verified_block pow_state); btc = se_body (wk_stf env) in
      op_bind (get_network env) (\<lambda>l1_network.
        if l1_network \<noteq> hvs_network pow_state
        then op_fail (AnchorMismatch (NetworkMismatch (hvs_network pow_state) l1_network))
        else
      op_bind (get_l1_block_header_at_height env height) (\<lambda>anchor_header.
        let actual_blkid = compute_block_hash btc anchor_header;
            anchor_blkid = l1_block_blkid (hvs_last_verified_block pow_state) in
        if actual_blkid \<noteq> anchor_blkid
        then op_fail (AnchorMismatch (BlockMismatch (ucast height) anchor_blkid actual_blkid))
        else
      let epoch_start_height = get_relative_difficulty_adjustment_height btc 0 height l1_network in
      op_bind (get_l1_block_header_at_height env epoch_start_height) (\<lambda>epoch_start_header.
        if hd_time epoch_start_header \<noteq> hvs_epoch_start_timestamp pow_state
        then op_fail (AnchorMismatch (EpochStartTimestampMismatch (ucast epoch_start_height)
               (hvs_epoch_start_timestamp pow_state) (hd_time epoch_start_header)))
        else
          let interval = difficulty_adjustment_interval btc l1_network;
              expected_next_target =
                (if (ucast height + 1) mod interval = 0
                 then from_next_work_required btc (hd_bits anchor_header)
                        (ucast (saturating_sub (hd_time anchor_header) (hd_time epoch_start_header))) l1_network
                 else hd_bits anchor_header)
          in if expected_next_target \<noteq> hvs_next_block_target pow_state
             then op_fail (AnchorMismatch (NextTargetMismatch (hvs_next_block_target pow_state) expected_next_target))
             else op_return ()))))"

definition restore_genesis ::
  "('t, 'm, 'l, 'n, 'z) worker_env_scheme \<Rightarrow> 'm anchor_state \<Rightarrow> 'm anchor_state option
     \<Rightarrow> (worker_error, ('l, 't, 'n, 'y) world_scheme, unit) op" where
  "restore_genesis env genesis_state latest w =
     (case get_anchor_state env (last_processed_block genesis_state) w of
        (Some (Ok stored), w) \<Rightarrow> if stored \<noteq> genesis_state then op_fail GenesisStateMismatch w else op_return () w
      | (Some (Err (MissingAsmState _)), w) \<Rightarrow>
          if latest \<noteq> None then store_anchor_state env genesis_state w else op_return () w
      | (Some (Err error), w) \<Rightarrow> op_fail error w
      | (None, w) \<Rightarrow> (None, w))"

definition align_manifest_mmr ::
  "('t, 'm, 'l, 'n, 'z) worker_env_scheme \<Rightarrow> 'm \<Rightarrow> (worker_error, ('l, 't, 'n, 'y) world_scheme, unit) op" where
  "align_manifest_mmr env genesis_accumulator =
     (let expected = mmr_num_entries (se_mmr (wk_stf env)) genesis_accumulator in
      op_bind (manifest_mmr_leaf_count env) (\<lambda>leaf_count.
        if leaf_count = 0 then seed_manifest_mmr env genesis_accumulator
        else if expected \<le> leaf_count then op_return ()
        else op_fail (PartialManifestMmr leaf_count expected)))"

definition worker_new ::
  "('t, 'm, 'l, 'n, 'z) worker_env_scheme \<Rightarrow> 'm anchor_state \<Rightarrow> predicate_key \<Rightarrow> execution_registry
     \<Rightarrow> l1_block_commitment subscription list
     \<Rightarrow> (worker_error, ('l, 't, 'n) world, ('l, 't, 'n, 'm) worker_state) op" where
  "worker_new env genesis_state genesis_predicate registry subscribers =
     op_bind (op_lift (Some (resolve_target genesis_predicate registry))) (\<lambda>spec.
     if spec_id spec \<noteq> an_spec_id genesis_state then op_fail GenesisSpecMismatch
     else
       let genesis_block = last_processed_block genesis_state in
       op_bind (validate_anchor_against_l1 env (an_pow_state genesis_state)) (\<lambda>_.
       op_bind (get_latest_anchor_state env) (\<lambda>latest.
       op_bind (restore_genesis env genesis_state latest) (\<lambda>_.
       op_bind (align_manifest_mmr env (an_history genesis_state)) (\<lambda>_.
       op_bind (case latest of
           Some state \<Rightarrow> op_return state
         | None \<Rightarrow> op_bind (store_anchor_state env genesis_state) (\<lambda>_. op_return genesis_state)) (\<lambda>anchor.
       op_bind (recover_from_context env registry genesis_block genesis_predicate anchor) (\<lambda>next_predicate.
       \<lambda>w. op_return \<lparr>w_l1 = w_l1 w, w_states = w_states w, w_manifests = w_manifests w, w_aux = w_aux w, w_mmr = w_mmr w,
              ws_registry = registry, ws_genesis_block = genesis_block, ws_genesis_predicate = genesis_predicate,
              ws_next_predicate = next_predicate, ws_anchor = anchor, ws_blkid = last_processed_block anchor,
              ws_genesis_height = ucast (l1_block_height genesis_block), ws_subscribers = subscribers\<rparr> w)))))))"

definition execute ::
  "('t, 'm, 'l, 'n, 'z) worker_env_scheme \<Rightarrow> execution_registry \<Rightarrow> predicate_key \<Rightarrow> 'm anchor_state \<Rightarrow> block
     \<Rightarrow> (worker_error, ('l, 't, 'n, 'y) world_scheme, 'm asm_stf_output \<times> aux_data) op" where
  "execute env registry next_predicate cur_state block =
     (let stf = wk_stf env in
      op_bind (op_lift (Some (resolve_target next_predicate registry))) (\<lambda>target.
      op_bind (op_lift (map_option (map_err AsmError) (pre_process_asm target stf cur_state block))) (\<lambda>(_, aux_requests).
      op_bind (resolve_aux env (mmr_num_entries (se_mmr stf) (an_history cur_state)) aux_requests) (\<lambda>aux_data.
      op_bind (op_lift (map_option Ok (generate (se_body stf) (bl_txdata block) 0))) (\<lambda>coinbase_inclusion_proof.
      op_bind (op_lift (map_option (map_err AsmError)
          (compute_asm_transition target stf cur_state block aux_data coinbase_inclusion_proof))) (\<lambda>output.
        op_return (output, aux_data)))))))"

definition transition ::
  "('t, 'm, 'l, 'n, 'z) worker_env_scheme \<Rightarrow> block
     \<Rightarrow> (worker_error, ('l, 't, 'n, 'm) worker_state, 'm asm_stf_output \<times> aux_data) op" where
  "transition env block s = execute env (ws_registry s) (ws_next_predicate s) (ws_anchor s) block s"

definition update_anchor_state ::
  "'m anchor_state \<Rightarrow> l1_block_commitment \<Rightarrow> ('l, 't, 'n, 'm) worker_state \<Rightarrow> ('l, 't, 'n, 'm) worker_state" where
  "update_anchor_state anchor blkid s = s\<lparr>ws_anchor := anchor, ws_blkid := blkid\<rparr>"

definition restore_anchor ::
  "('t, 'm, 'l, 'n, 'z) worker_env_scheme \<Rightarrow> 'm anchor_state \<Rightarrow> l1_block_commitment
     \<Rightarrow> (worker_error, ('l, 't, 'n, 'm) worker_state, unit) op" where
  "restore_anchor env anchor block s =
     op_bind
       (if block \<noteq> ws_blkid s
        then op_bind (recover_from_context env (ws_registry s) (ws_genesis_block s) (ws_genesis_predicate s) anchor)
               (\<lambda>predicate s. op_return () (s\<lparr>ws_next_predicate := predicate\<rparr>))
        else op_return ())
       (\<lambda>_ s. op_return () (update_anchor_state anchor block s)) s"

definition accept_output ::
  "'m asm_stf_output \<Rightarrow> l1_block_commitment \<Rightarrow> ('l, 't, 'n, 'm) worker_state \<Rightarrow> ('l, 't, 'n, 'm) worker_state" where
  "accept_output output block s =
     update_anchor_state (so_state output) block
       (case extract_next_predicate_from_logs (mf_logs (so_manifest output)) of
          Some predicate \<Rightarrow> s\<lparr>ws_next_predicate := predicate\<rparr>
        | None \<Rightarrow> s)"

section \<open>Synchronisation\<close>

definition stored_base ::
  "('t, 'm, 'l, 'n, 'z) worker_env_scheme \<Rightarrow> l1_block_commitment
     \<Rightarrow> (worker_error, ('l, 't, 'n, 'y) world_scheme, 'm anchor_state option) op" where
  "stored_base env block w =
     (case get_anchor_state env block w of
        (Some (Ok anchor), w) \<Rightarrow> (Some (Ok (Some anchor)), w)
      | (Some (Err (MissingAsmState _)), w) \<Rightarrow> (Some (Ok None), w)
      | (Some (Err e), w) \<Rightarrow> (Some (Err e), w)
      | (None, w) \<Rightarrow> (None, w))"

definition parent_commitment ::
  "('t, 'm, 'l, 'n, 'z) worker_env_scheme \<Rightarrow> l1_block_commitment
     \<Rightarrow> (worker_error, ('l, 't, 'n, 'y) world_scheme, l1_block_commitment) op" where
  "parent_commitment env block =
     op_bind (get_l1_block_header env (l1_block_blkid block))
       (\<lambda>header. op_return \<lparr>l1_block_height = l1_block_height block - 1, l1_block_blkid = hd_prev_blockhash header\<rparr>)"

definition plan_block_processing ::
  "('t, 'm, 'l, 'n, 'z) worker_env_scheme \<Rightarrow> l1_block_commitment \<Rightarrow> u64 \<Rightarrow> ('l, 't, 'n, 'y) world_scheme
     \<Rightarrow> ((worker_error, 'm anchor_state sync_plan) result option \<times> ('l, 't, 'n, 'y) world_scheme) option" where
  "plan_block_processing env target genesis_height w =
     map_option (map_prod (map_option (map_err
         (\<lambda>e. case e of ReachedFloor _ _ \<Rightarrow> MissingGenesisState | Provider e \<Rightarrow> e))) id)
       (plan_sync target genesis_height (stored_base env) (parent_commitment env) w)"

definition persist_output ::
  "('t, 'm, 'l, 'n, 'z) worker_env_scheme \<Rightarrow> l1_block_commitment \<Rightarrow> 'm asm_stf_output \<Rightarrow> aux_data
     \<Rightarrow> (worker_error, ('l, 't, 'n, 'm) worker_state, unit) op" where
  "persist_output env block_id asm_stf_out aux_data =
     op_bind (record_manifest env (so_manifest asm_stf_out)) (\<lambda>_.
     op_bind (store_aux_data env block_id aux_data) (\<lambda>_.
     op_bind (store_anchor_state env (so_state asm_stf_out)) (\<lambda>_ s.
       let s = accept_output asm_stf_out block_id s
       in op_return () (s\<lparr>ws_subscribers := emit block_id (ws_subscribers s)\<rparr>))))"

definition apply_block ::
  "('t, 'm, 'l, 'n, 'z) worker_env_scheme \<Rightarrow> l1_block_commitment \<Rightarrow> (worker_error, ('l, 't, 'n, 'm) worker_state, unit) op" where
  "apply_block env block_id =
     op_bind (get_l1_block env (l1_block_blkid block_id)) (\<lambda>block.
     op_bind (transition env block) (\<lambda>(asm_stf_out, aux_data). persist_output env block_id asm_stf_out aux_data))"

fun apply_blocks ::
  "('t, 'm, 'l, 'n, 'z) worker_env_scheme \<Rightarrow> l1_block_commitment list \<Rightarrow> (worker_error, ('l, 't, 'n, 'm) worker_state, unit) op" where
  "apply_blocks env [] = op_return ()"
| "apply_blocks env (block_id # rest) = op_bind (apply_block env block_id) (\<lambda>_. apply_blocks env rest)"

definition run_plan ::
  "('t, 'm, 'l, 'n, 'z) worker_env_scheme \<Rightarrow> 'm anchor_state sync_plan
     \<Rightarrow> (worker_error, ('l, 't, 'n, 'm) worker_state, l1_block_commitment list) op" where
  "run_plan env plan =
     (if pl_pending plan = [] then op_return []
      else
        let processed = rev (pl_pending plan) in
        op_bind (restore_anchor env (pl_base_state plan) (pl_base_block plan)) (\<lambda>_.
        op_bind (apply_blocks env processed) (\<lambda>_. op_return processed)))"

definition sync_to_block ::
  "('t, 'm, 'l, 'n, 'z) worker_env_scheme \<Rightarrow> block_id \<Rightarrow> ('l, 't, 'n, 'm) worker_state
     \<Rightarrow> ((worker_error, l1_block_commitment list) result option \<times> ('l, 't, 'n, 'm) worker_state) option" where
  "sync_to_block env target_blkid s =
     (case get_l1_block_height env target_blkid s of
        (Some (Ok height), s) \<Rightarrow>
          if ucast height < ws_genesis_height s then Some (op_return [] s)
          else (case plan_block_processing env \<lparr>l1_block_height = height, l1_block_blkid = target_blkid\<rparr>
                       (ws_genesis_height s) s of
                  None \<Rightarrow> None
                | Some (Some (Ok plan), s) \<Rightarrow> Some (run_plan env plan s)
                | Some (Some (Err e), s) \<Rightarrow> Some (op_fail e s)
                | Some (None, s) \<Rightarrow> Some (None, s))
      | (Some (Err e), s) \<Rightarrow> Some (op_fail e s)
      | (None, s) \<Rightarrow> Some (None, s))"

datatype response = Continue | Fatal worker_error

definition process_input ::
  "('t, 'm, 'l, 'n, 'z) worker_env_scheme \<Rightarrow> block_id \<Rightarrow> ('l, 't, 'n, 'm) worker_state
     \<Rightarrow> (((worker_error, l1_block_commitment list) result \<times> response) option \<times> ('l, 't, 'n, 'm) worker_state) option" where
  "process_input env target s =
     map_option (map_prod (map_option
         (\<lambda>completion. (completion, case completion of Ok _ \<Rightarrow> Continue | Err e \<Rightarrow> Fatal e))) id)
       (sync_to_block env target s)"

section \<open>Operations that only talk to the Bitcoin client\<close>

definition l1_only :: "('e, ('l, 't, 'n, 'y) world_scheme, 'a) op \<Rightarrow> bool" where
  "l1_only m \<longleftrightarrow> (\<forall>w. \<exists>l. snd (m w) = w\<lparr>w_l1 := l\<rparr>)"

lemma l1_onlyD: "l1_only m \<Longrightarrow> m w = (r, w') \<Longrightarrow> \<exists>l. w' = w\<lparr>w_l1 := l\<rparr>"
  unfolding l1_only_def by (metis snd_conv)

lemma l1_only_pure: "(\<And>w. snd (m w) = w) \<Longrightarrow> l1_only m"
  unfolding l1_only_def by (metis (no_types, lifting) world.surjective world.update_convs(1))

lemma l1_only_basic [intro!, simp]: "l1_only (op_return a)" "l1_only (op_fail e)" "l1_only (op_lift r)"
  by (rule l1_only_pure; simp add: op_return_def op_fail_def op_lift_def)+

lemma l1_only_bind [intro!]:
  assumes "l1_only m" "\<And>a. l1_only (f a)"
  shows "l1_only (op_bind m f)"
  unfolding l1_only_def
proof
  fix w
  obtain r w1 where m: "m w = (r, w1)" by (cases "m w")
  obtain l where l: "w1 = w\<lparr>w_l1 := l\<rparr>" using l1_onlyD [OF assms(1) m] by blast
  show "\<exists>l. snd (op_bind m f w) = w\<lparr>w_l1 := l\<rparr>"
  proof (cases r)
    case None
    then show ?thesis using m l by (auto simp: op_bind_def)
  next
    case (Some x)
    show ?thesis
    proof (cases x)
      case (Inl e)
      then show ?thesis using m l Some by (auto simp: op_bind_def)
    next
      case (Inr a)
      obtain l' where "snd (f a w1) = w1\<lparr>w_l1 := l'\<rparr>" using assms(2) [of a] by (auto simp: l1_only_def)
      then show ?thesis using m l Some Inr by (auto simp: op_bind_def)
    qed
  qed
qed

lemma l1_only_rpc [simp]: "l1_only (rpc what call)"
  by (auto simp: l1_only_def rpc_def split: prod.splits)

lemma l1_only_client [simp]:
  "l1_only (get_l1_block env b)" "l1_only (get_l1_block_header env b)" "l1_only (get_l1_block_header_at_height env h)"
  "l1_only (get_l1_block_height env b)" "l1_only (get_network env)" "l1_only (fetch_bitcoin_tx env t)"
  by (auto simp: get_l1_block_def get_l1_block_header_def get_l1_block_header_at_height_def get_l1_block_height_def
      get_network_def fetch_bitcoin_tx_def)

lemma l1_only_reads [simp]:
  "l1_only (get_latest_anchor_state env)" "l1_only (get_anchor_state env c)" "l1_only (get_manifest env c)"
  "l1_only (manifest_mmr_leaf_count env)" "l1_only (generate_mmr_proof_at env i n)" "l1_only (load_manifest_hash env i)"
  by (rule l1_only_pure; simp add: get_latest_anchor_state_def get_anchor_state_def get_manifest_def
      manifest_mmr_leaf_count_def generate_mmr_proof_at_def load_manifest_hash_def)+

lemma l1_only_resolve_txs [simp]: "l1_only (resolve_bitcoin_txs env seen txids)"
  by (induction env seen txids rule: resolve_bitcoin_txs.induct) auto

lemma l1_only_resolve_heights [simp]: "l1_only (resolve_heights env n seen hs)"
  by (induction env n seen hs rule: resolve_heights.induct) auto

lemma l1_only_resolve_aux [simp]: "l1_only (resolve_aux env n reqs)"
  by (auto simp: resolve_aux_def resolve_manifest_hashes_def)

lemma l1_only_recover [simp]: "l1_only (recover_from_context env reg gb gp st)"
  by (auto simp: recover_from_context_def Let_def)

lemma l1_only_validate [simp]: "l1_only (validate_anchor_against_l1 env pow)"
  by (auto simp: validate_anchor_against_l1_def Let_def)

lemma l1_only_parent [simp]: "l1_only (parent_commitment env c)"
  by (auto simp: parent_commitment_def)

lemma l1_only_execute [simp]: "l1_only (execute env reg q st block)"
  by (auto simp: execute_def Let_def split: prod.splits)

lemma l1_only_transition [simp]: "l1_only (transition env block)"
proof -
  have "\<exists>l. snd (transition env block s) = s\<lparr>w_l1 := l\<rparr>" for s
    using l1_only_execute [of env "ws_registry s" "ws_next_predicate s" "ws_anchor s" block]
    unfolding transition_def l1_only_def by blast
  then show ?thesis by (simp add: l1_only_def)
qed

section \<open>The search for a base\<close>

lemma plan_sync_loop_returns:
  assumes "\<And>c w p w'. floor_height < ucast (l1_block_height c) \<Longrightarrow> parent_of c w = (Some (Ok p), w') \<Longrightarrow>
      l1_block_height p < l1_block_height c"
  shows "\<exists>r w'. plan_sync_loop tip floor_height base_at parent_of cursor pending w = Some (r, w')"
proof (induction "unat (l1_block_height cursor)" arbitrary: cursor pending w rule: less_induct)
  case less
  have rec: "\<exists>r w'. plan_sync_loop tip floor_height base_at parent_of p pend w2 = Some (r, w')"
    if "\<not> ucast (l1_block_height cursor) \<le> floor_height" "parent_of cursor w1 = (Some (Ok p), w2)" for p pend w1 w2
    using less [of p pend w2] assms [OF _ that(2)] that(1) by (simp add: word_less_nat_alt not_le)
  show ?case by (subst plan_sync_loop.simps) (auto split: prod.splits option.splits sum.splits dest: rec)
qed

text \<open>Oldest first, each block one above the one before it.\<close>

fun ascends :: "l1_block_commitment \<Rightarrow> l1_block_commitment list \<Rightarrow> bool" where
  "ascends base [] = True"
| "ascends base (c # cs) \<longleftrightarrow> l1_block_height base < l1_block_height c \<and> l1_block_height c = l1_block_height base + 1 \<and> ascends c cs"

definition planned ::
  "('t, 'm, 'l, 'n, 'z) worker_env_scheme \<Rightarrow> 't \<Rightarrow> u64 \<Rightarrow> l1_block_commitment \<Rightarrow> l1_block_commitment
     \<Rightarrow> l1_block_commitment list \<Rightarrow> bool" where
  "planned env t floor_height tip base pending \<longleftrightarrow>
     ascends base (rev pending) \<and> last (base # rev pending) = tip
   \<and> list_all (\<lambda>c. state_get env c t = Ok None \<and> floor_height < ucast (l1_block_height c)) pending"

lemma stored_base_eq:
  "stored_base env c w =
     (Some (case state_get env c (w_states w) of Err e \<Rightarrow> Err (DbError e) | Ok r \<Rightarrow> Ok r), w)"
proof (cases "state_get env c (w_states w)")
  case (Inr found)
  then show ?thesis by (cases found) (simp_all add: stored_base_def get_anchor_state_def)
qed (simp add: stored_base_def get_anchor_state_def)

lemma parent_commitment_OkD:
  assumes "parent_commitment env c w = (Some (Ok p), w')"
  shows "l1_block_height p = l1_block_height c - 1" "\<exists>l. w' = w\<lparr>w_l1 := l\<rparr>"
  using assms l1_onlyD [OF l1_only_parent assms]
  by (auto simp: parent_commitment_def op_bind_def op_return_def split: prod.splits option.splits sum.splits)

lemma pred_less: "(floor_height :: u64) < ucast (h :: u32) \<Longrightarrow> h - 1 < h \<and> h = h - 1 + 1"
proof -
  assume "floor_height < ucast h"
  then have "h \<noteq> 0" by auto
  then show ?thesis by (simp add: word_less_nat_alt unat_minus_one unat_gt_0)
qed

lemma parent_commitment_lower:
  "(floor_height :: u64) < ucast (l1_block_height c) \<Longrightarrow> parent_commitment env c w = (Some (Ok p), w') \<Longrightarrow>
     l1_block_height p < l1_block_height c"
  using pred_less [of floor_height "l1_block_height c"] parent_commitment_OkD(1) [of env c w p w'] by simp

lemma plan_loop_spec:
  assumes "plan_sync_loop tip floor_height (stored_base env) (parent_commitment env) cursor pending w = Some (r, w')"
    and "planned env (w_states w) floor_height tip cursor pending"
  shows "(\<exists>l. w' = w\<lparr>w_l1 := l\<rparr>)
    \<and> (\<forall>plan. r = Some (Ok plan) \<longrightarrow>
         planned env (w_states w) floor_height tip (pl_base_block plan) (pl_pending plan)
       \<and> state_get env (pl_base_block plan) (w_states w) = Ok (Some (pl_base_state plan)))"
  using assms
proof (induction "unat (l1_block_height cursor)" arbitrary: cursor pending w rule: less_induct)
  case less
  note run = less.prems(1) [unfolded plan_sync_loop.simps [of tip floor_height _ _ cursor]] stored_base_eq [of env cursor w]
  have self: "\<exists>l. w = w\<lparr>w_l1 := l\<rparr>" by (rule exI [of _ "w_l1 w"]) simp
  show ?case
  proof (cases "state_get env cursor (w_states w)")
    case (Inl e)
    then show ?thesis using run self by auto
  next
    case (Inr found)
    show ?thesis
    proof (cases found)
      case (Some base)
      then show ?thesis using run Inr self less.prems(2) by auto
    next
      case None
      show ?thesis
      proof (cases "ucast (l1_block_height cursor) \<le> floor_height")
        case True
        then show ?thesis using run Inr None self by auto
      next
        case False
        note nle = False
        then have above: "floor_height < ucast (l1_block_height cursor)" by simp
        obtain pr w1 where pc: "parent_commitment env cursor w = (pr, w1)" by (cases "parent_commitment env cursor w")
        obtain l where w1: "w1 = w\<lparr>w_l1 := l\<rparr>" using l1_onlyD [OF l1_only_parent pc] by blast
        show ?thesis
        proof (cases "\<exists>p. pr = Some (Ok p)")
          case True
          then obtain p where p: "pr = Some (Ok p)" by blast
          have step: "plan_sync_loop tip floor_height (stored_base env) (parent_commitment env) p (pending @ [cursor]) w1 = Some (r, w')"
            using run Inr None False pc p by simp
          have h: "l1_block_height p = l1_block_height cursor - 1" using parent_commitment_OkD(1) pc p by blast
          have "planned env (w_states w1) floor_height tip p (pending @ [cursor])"
            using less.prems(2) Inr None above pred_less [OF above] unfolding planned_def w1 by (simp add: h)
          from less.hyps [OF _ step this] parent_commitment_lower [OF above pc [unfolded p]]
          show ?thesis by (auto simp: w1 word_less_nat_alt)
        next
          case False
          then show ?thesis using run Inr None nle pc w1
            by (auto split: option.splits sum.splits)
        qed
      qed
    qed
  qed
qed

lemma plan_block_processing_returns: "\<exists>r w'. plan_block_processing env target gh w = Some (r, w')"
proof -
  obtain r w' where "plan_sync_loop target gh (stored_base env) (parent_commitment env) target [] w = Some (r, w')"
    using plan_sync_loop_returns [of gh "parent_commitment env"] parent_commitment_lower by blast
  then show ?thesis by (simp add: plan_block_processing_def plan_sync_def)
qed

lemma plan_block_processing_spec:
  assumes "plan_block_processing env target gh w = Some (r, w')"
  shows "(\<exists>l. w' = w\<lparr>w_l1 := l\<rparr>)
    \<and> (\<forall>plan. r = Some (Ok plan) \<longrightarrow>
         planned env (w_states w) gh target (pl_base_block plan) (pl_pending plan)
       \<and> state_get env (pl_base_block plan) (w_states w) = Ok (Some (pl_base_state plan)))"
proof -
  obtain r0 where r0: "plan_sync_loop target gh (stored_base env) (parent_commitment env) target [] w = Some (r0, w')"
    and r: "r = map_option (map_err (\<lambda>e. case e of ReachedFloor _ _ \<Rightarrow> MissingGenesisState | Provider e \<Rightarrow> e)) r0"
    using assms by (auto simp: plan_block_processing_def plan_sync_def)
  have "planned env (w_states w) gh target target []" by (simp add: planned_def)
  moreover have "r = Some (Ok plan) \<longleftrightarrow> r0 = Some (Ok plan)" for plan
    unfolding r by (cases r0) (auto simp: map_err_def split: sum.splits)
  ultimately show ?thesis using plan_loop_spec [OF r0] by simp
qed

section \<open>What a committed anchor state is\<close>

text \<open>The states a chain may be in, with the predicate that governs the next block: genesis, and whatever
  the ruleset registered for the governing predicate computes from such a state.\<close>

inductive authorised_state ::
  "'m stf_env \<Rightarrow> execution_registry \<Rightarrow> 'm anchor_state \<Rightarrow> predicate_key \<Rightarrow> 'm anchor_state \<Rightarrow> predicate_key \<Rightarrow> bool"
  for stf registry genesis genesis_predicate where
  authorised_genesis: "authorised_state stf registry genesis genesis_predicate genesis genesis_predicate"
| authorised_step:
    "authorised_state stf registry genesis genesis_predicate st q \<Longrightarrow> resolve_target q registry = Ok spec \<Longrightarrow>
     compute_asm_transition spec stf st block aux cb = Some (Ok out) \<Longrightarrow>
     authorised_state stf registry genesis genesis_predicate (so_state out)
       (case extract_next_predicate_from_logs (mf_logs (so_manifest out)) of Some p \<Rightarrow> p | None \<Rightarrow> q)"

definition block_authority ::
  "execution_registry \<Rightarrow> l1_block_commitment \<Rightarrow> predicate_key \<Rightarrow> (l1_block_commitment \<rightharpoonup> asm_manifest)
     \<Rightarrow> 'm anchor_state \<Rightarrow> predicate_key option" where
  "block_authority registry gb gp mfs st =
     (let b = last_processed_block st in
      if b = gb then Some gp
      else if l1_block_height b \<le> l1_block_height gb then None
      else case mfs b of
             None \<Rightarrow> None
           | Some mf \<Rightarrow> (case recover_predicate st mf registry of Ok q \<Rightarrow> Some q | Err _ \<Rightarrow> None))"

definition replayable ::
  "'m stf_env \<Rightarrow> execution_registry \<Rightarrow> 'm anchor_state \<Rightarrow> predicate_key \<Rightarrow> (l1_block_commitment \<rightharpoonup> 'm anchor_state)
     \<Rightarrow> (l1_block_commitment \<rightharpoonup> asm_manifest) \<Rightarrow> (l1_block_commitment \<rightharpoonup> aux_data) \<Rightarrow> 'm anchor_state \<Rightarrow> bool" where
  "replayable stf registry g gp sts mfs auxs st \<longleftrightarrow>
     l1_block_height (last_processed_block g) < l1_block_height (last_processed_block st)
   \<and> (\<exists>parent q spec block aux cb out.
        sts (last_processed_block parent) = Some parent
      \<and> block_authority registry (last_processed_block g) gp mfs parent = Some q
      \<and> authorised_state stf registry g gp parent q \<and> resolve_target q registry = Ok spec
      \<and> compute_asm_transition spec stf parent block aux cb = Some (Ok out) \<and> so_state out = st
      \<and> mfs (last_processed_block st) = Some (so_manifest out) \<and> auxs (last_processed_block st) = Some aux)"

definition store_inv ::
  "'m stf_env \<Rightarrow> execution_registry \<Rightarrow> 'm anchor_state \<Rightarrow> predicate_key \<Rightarrow> (l1_block_commitment \<rightharpoonup> 'm anchor_state)
     \<Rightarrow> (l1_block_commitment \<rightharpoonup> asm_manifest) \<Rightarrow> (l1_block_commitment \<rightharpoonup> aux_data) \<Rightarrow> bool" where
  "store_inv stf registry g gp sts mfs auxs \<longleftrightarrow>
     (\<forall>c st. sts c = Some st \<longrightarrow> c = last_processed_block st
        \<and> (\<exists>q. authorised_state stf registry g gp st q \<and> block_authority registry (last_processed_block g) gp mfs st = Some q)
        \<and> (st = g \<or> replayable stf registry g gp sts mfs auxs st))"

definition registry_ok :: "execution_registry \<Rightarrow> bool" where
  "registry_ok targets \<longleftrightarrow> distinct (map fst targets) \<and> distinct (map (spec_id \<circ> snd) targets)"

lemma register_keeps_ok: "registry_ok targets \<Longrightarrow> register q spec targets = Ok targets' \<Longrightarrow> registry_ok targets'"
  by (force simp: registry_ok_def register_def list_ex_iff split: if_splits)

lemma registered_of_resolve:
  "registry_ok targets \<Longrightarrow> resolve_target q targets = Ok spec \<Longrightarrow> registered_predicate (spec_id spec) targets = Ok q"
proof (induction targets)
  case (Cons t targets)
  obtain k s where t: "t = (k, s)" by (cases t)
  have ok: "registry_ok targets" using Cons.prems(1) by (simp add: registry_ok_def)
  show ?case
  proof (cases "k = q")
    case True
    then show ?thesis using Cons.prems(2) by (simp add: t resolve_target_def registered_predicate_def)
  next
    case False
    then have r: "resolve_target q targets = Ok spec" using Cons.prems(2) by (simp add: t resolve_target_def)
    then have "spec \<in> snd ` set targets" by (force simp: resolve_target_def find_Some_iff in_set_conv_nth)
    then have "spec_id s \<noteq> spec_id spec" using Cons.prems(1) by (force simp: registry_ok_def t)
    then show ?thesis using Cons.IH [OF ok r] by (simp add: t registered_predicate_def)
  qed
qed (simp add: resolve_target_def)

lemma transition_names_block:
  assumes "compute_asm_transition spec stf st block aux cb = Some (Ok out)"
  shows "last_processed_block (so_state out) =
      \<lparr>l1_block_height = l1_block_height (last_processed_block st) + 1,
       l1_block_blkid = compute_block_hash (se_body stf) (bl_header block)\<rparr>"
    and "manifest_block (so_manifest out) = last_processed_block (so_state out)"
    and "an_spec_id (so_state out) = spec_id spec"
proof -
  from assms obtain st1 root pow aux' mg where C:
    "check_and_update (se_body stf) (bl_header block) (an_pow_state st) = Ok pow"
    "assemble spec stf st1 pow root mg = Some (Ok out)"
    by (rule compute_OkD)
  note A = assemble_OkD [OF C(2)]
  show "last_processed_block (so_state out) =
      \<lparr>l1_block_height = l1_block_height (last_processed_block st) + 1,
       l1_block_blkid = compute_block_hash (se_body stf) (bl_header block)\<rparr>"
    using A check_and_update_OkD(5) [OF C(1)] by (auto simp: last_processed_block_def)
  show "manifest_block (so_manifest out) = last_processed_block (so_state out)" "an_spec_id (so_state out) = spec_id spec"
    using A by (auto simp: last_processed_block_def manifest_block_def)
qed

lemma authority_of_output:
  assumes reg: "registry_ok registry" and q: "resolve_target q registry = Ok spec"
    and out: "compute_asm_transition spec stf st block aux cb = Some (Ok out)"
    and mf: "mfs (last_processed_block (so_state out)) = Some (so_manifest out)"
    and above: "l1_block_height gb < l1_block_height (last_processed_block (so_state out))"
  shows "block_authority registry gb gp mfs (so_state out) =
    Some (case extract_next_predicate_from_logs (mf_logs (so_manifest out)) of Some p \<Rightarrow> p | None \<Rightarrow> q)"
proof -
  note T = transition_names_block [OF out]
  have "mf_height (so_manifest out) = l1_block_height (last_processed_block (so_state out))"
    "mf_blkid (so_manifest out) = l1_block_blkid (last_processed_block (so_state out))"
    unfolding T(2) [symmetric] by (simp_all add: manifest_block_def)
  then have "recover_predicate (so_state out) (so_manifest out) registry =
      Ok (case extract_next_predicate_from_logs (mf_logs (so_manifest out)) of Some p \<Rightarrow> p | None \<Rightarrow> q)"
    using registered_of_resolve [OF reg q] by (simp add: recover_predicate_def T(3) split: option.splits)
  moreover have "last_processed_block (so_state out) \<noteq> gb" using above by auto
  ultimately show ?thesis using above mf by (simp add: block_authority_def Let_def)
qed

text \<open>Writing the manifest and the auxiliary data of a block that is not committed changes nothing.\<close>

lemma authority_frame:
  "(\<And>b. b \<noteq> c \<Longrightarrow> mfs' b = mfs b) \<Longrightarrow> last_processed_block st \<noteq> c \<Longrightarrow>
     block_authority registry gb gp mfs' st = block_authority registry gb gp mfs st"
  by (simp add: block_authority_def Let_def)

lemma replayable_frame:
  assumes "replayable stf registry g gp sts mfs auxs st" "sts c = None" "last_processed_block st \<noteq> c"
    and "\<And>b. b \<noteq> c \<Longrightarrow> mfs' b = mfs b" "\<And>b. b \<noteq> c \<Longrightarrow> auxs' b = auxs b" "sts \<subseteq>\<^sub>m sts'"
  shows "replayable stf registry g gp sts' mfs' auxs' st"
proof -
  from assms(1) obtain parent q spec block aux cb out where R:
    "l1_block_height (last_processed_block g) < l1_block_height (last_processed_block st)"
    "sts (last_processed_block parent) = Some parent"
    "block_authority registry (last_processed_block g) gp mfs parent = Some q"
    "authorised_state stf registry g gp parent q" "resolve_target q registry = Ok spec"
    "compute_asm_transition spec stf parent block aux cb = Some (Ok out)" "so_state out = st"
    "mfs (last_processed_block st) = Some (so_manifest out)" "auxs (last_processed_block st) = Some aux"
    unfolding replayable_def by blast
  have pc: "last_processed_block parent \<noteq> c" using R(2) assms(2) by auto
  have "sts' (last_processed_block parent) = Some parent" using R(2) assms(6) by (auto simp: map_le_def dom_def)
  moreover have "block_authority registry (last_processed_block g) gp mfs' parent = Some q"
    using authority_frame [of c mfs' mfs parent] assms(4) pc R(3) by simp
  moreover have "mfs' (last_processed_block st) = Some (so_manifest out)" "auxs' (last_processed_block st) = Some aux"
    using R(8,9) assms(3,4,5) by simp_all
  ultimately show ?thesis unfolding replayable_def using R(1,4-7) by blast
qed

lemma store_inv_uncommitted:
  assumes "store_inv stf registry g gp sts mfs auxs" "sts c = None"
    and "\<And>b. b \<noteq> c \<Longrightarrow> mfs' b = mfs b" "\<And>b. b \<noteq> c \<Longrightarrow> auxs' b = auxs b"
  shows "store_inv stf registry g gp sts mfs' auxs'"
  unfolding store_inv_def
proof (intro allI impI)
  fix b st
  assume b: "sts b = Some st"
  from assms(1) b have I: "b = last_processed_block st"
    "\<exists>q. authorised_state stf registry g gp st q \<and> block_authority registry (last_processed_block g) gp mfs st = Some q"
    "st = g \<or> replayable stf registry g gp sts mfs auxs st" unfolding store_inv_def by blast+
  have ne: "last_processed_block st \<noteq> c" using b I(1) assms(2) by auto
  show "b = last_processed_block st
      \<and> (\<exists>q. authorised_state stf registry g gp st q \<and> block_authority registry (last_processed_block g) gp mfs' st = Some q)
      \<and> (st = g \<or> replayable stf registry g gp sts mfs' auxs' st)"
    using I authority_frame [of c mfs' mfs st, OF assms(3) ne]
      replayable_frame [where sts = sts and sts' = sts and mfs = mfs and mfs' = mfs' and auxs = auxs and auxs' = auxs' and c = c,
        OF _ assms(2) ne assms(3,4) map_le_refl]
    by auto
qed

lemma store_inv_commit:
  assumes "store_inv stf registry g gp sts mfs auxs" "sts (last_processed_block st) = None"
    and "authorised_state stf registry g gp st q" "block_authority registry (last_processed_block g) gp mfs st = Some q"
    and "st = g \<or> replayable stf registry g gp sts mfs auxs st"
  shows "store_inv stf registry g gp (sts(last_processed_block st \<mapsto> st)) mfs auxs"
proof -
  let ?c = "last_processed_block st" and ?sts' = "sts(last_processed_block st \<mapsto> st)"
  have le: "sts \<subseteq>\<^sub>m ?sts'" using assms(2) by (auto simp: map_le_def)
  have grow: "replayable stf registry g gp ?sts' mfs auxs st'" if "replayable stf registry g gp sts mfs auxs st'" for st'
    using that unfolding replayable_def by (metis assms(2) fun_upd_other option.distinct(1))
  show ?thesis unfolding store_inv_def
  proof (intro allI impI)
    fix b st'
    assume b: "?sts' b = Some st'"
    show "b = last_processed_block st'
      \<and> (\<exists>q. authorised_state stf registry g gp st' q \<and> block_authority registry (last_processed_block g) gp mfs st' = Some q)
      \<and> (st' = g \<or> replayable stf registry g gp ?sts' mfs auxs st')"
    proof (cases "b = ?c")
      case True
      then show ?thesis using b assms(3-5) grow by auto
    next
      case False
      then have "sts b = Some st'" using b by simp
      then show ?thesis using assms(1) grow unfolding store_inv_def by blast
    qed
  qed
qed

section \<open>The stores behind the worker\<close>

abbreviation st_at :: "('t, 'm, 'l, 'n, 'z) worker_env_scheme \<Rightarrow> ('l, 't, 'n, 'y) world_scheme \<Rightarrow> l1_block_commitment \<rightharpoonup> 'm anchor_state" where
  "st_at env w \<equiv> kv_lookup env (decode_state env) (w_states w)"

abbreviation mf_at :: "('t, 'm, 'l, 'n, 'z) worker_env_scheme \<Rightarrow> ('l, 't, 'n, 'y) world_scheme \<Rightarrow> l1_block_commitment \<rightharpoonup> asm_manifest" where
  "mf_at env w \<equiv> kv_lookup env (decode_manifest env) (w_manifests w)"

abbreviation ax_at :: "('t, 'm, 'l, 'n, 'z) worker_env_scheme \<Rightarrow> ('l, 't, 'n, 'y) world_scheme \<Rightarrow> l1_block_commitment \<rightharpoonup> aux_data" where
  "ax_at env w \<equiv> kv_lookup env (decode_aux env) (w_aux w)"

text \<open>What is relied on: the database's laws, that values decode to what was encoded, and that the Bitcoin
  client answers a request for a block with the block of that hash.\<close>

definition worker_laws :: "('t, 'm, 'l, 'n, 'z) worker_env_scheme \<Rightarrow> bool" where
  "worker_laws env \<longleftrightarrow> sled_laws env
   \<and> (\<forall>st. state_decode env (state_encode env st) = Ok st)
   \<and> (\<forall>mf. manifest_decode env (manifest_encode env mf) = Ok mf)
   \<and> (\<forall>d. aux_decode env (aux_encode env d) = Ok d)
   \<and> (\<forall>b l block l'. rpc_get_block env b l = (Ok block, l') \<longrightarrow>
        compute_block_hash (se_body (wk_stf env)) (bl_header block) = b)"

lemma worker_lawsD:
  assumes "worker_laws env"
  shows "sled_laws env" "state_decode env (state_encode env st) = Ok st"
    "manifest_decode env (manifest_encode env mf) = Ok mf" "aux_decode env (aux_encode env d) = Ok d"
    "rpc_get_block env b l = (Ok block, l') \<Longrightarrow> compute_block_hash (se_body (wk_stf env)) (bl_header block) = b"
  using assms unfolding worker_laws_def by (elim conjE; blast)+

lemma op_bindE:
  assumes "op_bind m f w = (r, w')"
  obtains (panic) w1 where "m w = (None, w1)" "r = None" "w' = w1"
  | (fail) e w1 where "m w = (Some (Err e), w1)" "r = Some (Err e)" "w' = w1"
  | (ok) a w1 where "m w = (Some (Ok a), w1)" "f a w1 = (r, w')"
proof -
  obtain x w1 where m: "m w = (x, w1)" by (cases "m w")
  show ?thesis
  proof (cases x)
    case None
    then show ?thesis using panic m assms by (simp add: op_bind_def)
  next
    case (Some y)
    then show ?thesis using fail ok m assms by (cases y) (simp_all add: op_bind_def)
  qed
qed

lemma store_anchor_state_effect:
  assumes laws: "worker_laws env" and run: "store_anchor_state env st w = (r, w')"
  shows "\<exists>t. w' = w\<lparr>w_states := t\<rparr>"
    and "st_at env w' = (st_at env w)(last_processed_block st \<mapsto> st) \<or> r \<noteq> Some (Ok ()) \<and> st_at env w' = st_at env w"
proof -
  obtain r0 t where put: "state_put env st (w_states w) = (r0, t)" by (cases "state_put env st (w_states w)")
  have w': "w' = w\<lparr>w_states := t\<rparr>" "r = Some (map_err DbError r0)" using run put by (simp_all add: store_anchor_state_def)
  show "\<exists>t. w' = w\<lparr>w_states := t\<rparr>" using w' by blast
  show "st_at env w' = (st_at env w)(last_processed_block st \<mapsto> st) \<or> r \<noteq> Some (Ok ()) \<and> st_at env w' = st_at env w"
    using states.put_look [OF worker_lawsD(1) [OF laws] _ put] worker_lawsD(2) [OF laws, of st] w'
    by (auto simp: map_err_def is_ok_def split: sum.splits)
qed

lemma store_anchor_state_wf:
  assumes "worker_laws env" "store_anchor_state env st w = (r, w')" "states_wf env (w_states w)"
  shows "states_wf env (w_states w')"
proof -
  obtain r0 t where put: "state_put env st (w_states w) = (r0, t)" by (cases "state_put env st (w_states w)")
  then show ?thesis
    using states_wf_put [OF worker_lawsD(1) [OF assms(1)] assms(3) worker_lawsD(2) [OF assms(1)] put] assms(2)
    by (auto simp: store_anchor_state_def)
qed

lemma record_manifest_effect:
  assumes laws: "worker_laws env" and run: "record_manifest env mf w = (r, w')"
  shows "\<exists>t n. w' = w\<lparr>w_manifests := t, w_mmr := n\<rparr>"
    and "b \<noteq> manifest_block mf \<Longrightarrow> mf_at env w' b = mf_at env w b"
    and "r = Some (Ok ()) \<Longrightarrow> mf_at env w' (manifest_block mf) = Some mf"
proof -
  obtain r0 t where put: "manifest_put env mf (w_manifests w) = (r0, t)" by (cases "manifest_put env mf (w_manifests w)")
  have pm: "put_manifest env mf w = (Some (map_err DbError r0), w\<lparr>w_manifests := t\<rparr>)"
    using put by (simp add: put_manifest_def)
  note look = manifests.put_look [OF worker_lawsD(1) [OF laws] _ put] worker_lawsD(3) [OF laws, of mf]
  have shape: "\<exists>n. w' = w\<lparr>w_manifests := t, w_mmr := n\<rparr>" and ok: "r = Some (Ok ()) \<Longrightarrow> is_ok r0"
    using run pm by (auto simp: record_manifest_def Let_def op_bind_def put_manifest_hash_def map_err_def is_ok_def
        split: sum.splits prod.splits intro: exI [of _ "w_mmr w"])
  show "\<exists>t n. w' = w\<lparr>w_manifests := t, w_mmr := n\<rparr>" using shape by blast
  show "mf_at env w' b = mf_at env w b" if "b \<noteq> manifest_block mf"
    using shape look that by auto
  show "mf_at env w' (manifest_block mf) = Some mf" if "r = Some (Ok ())"
    using shape look ok [OF that] by auto
qed

lemma store_aux_data_effect:
  assumes laws: "worker_laws env" and run: "store_aux_data env c d w = (r, w')"
  shows "\<exists>t. w' = w\<lparr>w_aux := t\<rparr>"
    and "b \<noteq> c \<Longrightarrow> ax_at env w' b = ax_at env w b"
    and "r = Some (Ok ()) \<Longrightarrow> ax_at env w' c = Some d"
proof -
  obtain r0 t where put: "aux_put env c d (w_aux w) = (r0, t)" by (cases "aux_put env c d (w_aux w)")
  have w': "w' = w\<lparr>w_aux := t\<rparr>" "r = Some (map_err DbError r0)" using run put by (simp_all add: store_aux_data_def)
  note look = auxes.put_look [OF worker_lawsD(1) [OF laws] _ put] worker_lawsD(4) [OF laws, of d]
  show "\<exists>t. w' = w\<lparr>w_aux := t\<rparr>" using w' by blast
  show "ax_at env w' b = ax_at env w b" if "b \<noteq> c" using look that w' by auto
  show "ax_at env w' c = Some d" if "r = Some (Ok ())"
    using look that w' by (auto simp: map_err_def is_ok_def split: sum.splits)
qed

lemma recover_is_authority:
  assumes "sled_laws env" "recover_from_context env registry gb gp st w = (Some (Ok q), w')"
  shows "block_authority registry gb gp (mf_at env w) st = Some q"
proof -
  let ?b = "last_processed_block st"
  show ?thesis
  proof (cases "?b = gb \<or> l1_block_height ?b \<le> l1_block_height gb")
    case True
    then show ?thesis using assms(2)
      by (auto simp: recover_from_context_def block_authority_def Let_def op_return_def op_fail_def split: if_splits)
  next
    case False
    then obtain mf where mf: "manifest_get env ?b (w_manifests w) = Ok (Some mf)" "recover_predicate st mf registry = Ok q"
      using assms(2) by (auto simp: recover_from_context_def Let_def op_bind_def op_lift_def get_manifest_def
          map_err_def res_bind_def ok_or_def split: sum.splits option.splits)
    have "mf_at env w ?b = Some mf" by (rule manifests.get_look [OF assms(1) mf(1), symmetric])
    then show ?thesis using False mf(2) by (simp add: block_authority_def Let_def)
  qed
qed

lemma op_bind_OkD:
  "op_bind m f w = (Some (Ok b), w') \<Longrightarrow> \<exists>a w1. m w = (Some (Ok a), w1) \<and> f a w1 = (Some (Ok b), w')"
  by (erule op_bindE) auto

lemma op_lift_OkD: "op_lift r w = (Some (Ok a), w') \<Longrightarrow> r = Some (Ok a) \<and> w' = w"
  by (simp add: op_lift_def)

lemma asm_result_OkD: "map_option (map_err AsmError) r = Some (Ok a) \<Longrightarrow> r = Some (Ok a)"
  by (cases r) (auto simp: map_err_def split: sum.splits)

lemma execute_OkD:
  assumes "execute env registry q st block w = (Some (Ok (out, aux)), w')"
  shows "\<exists>spec cb. resolve_target q registry = Ok spec
    \<and> compute_asm_transition spec (wk_stf env) st block aux cb = Some (Ok out)"
  using assms unfolding execute_def Let_def
  by (auto simp: op_return_def dest!: op_bind_OkD op_lift_OkD asm_result_OkD)

section \<open>Synchronisation keeps the stores consistent\<close>

definition worker_inv ::
  "('t, 'm, 'l, 'n, 'z) worker_env_scheme \<Rightarrow> execution_registry \<Rightarrow> 'm anchor_state \<Rightarrow> predicate_key
     \<Rightarrow> ('l, 't, 'n, 'm) worker_state \<Rightarrow> bool" where
  "worker_inv env registry g gp s \<longleftrightarrow>
     store_inv (wk_stf env) registry g gp (st_at env s) (mf_at env s) (ax_at env s)
   \<and> states_wf env (w_states s)
   \<and> ws_registry s = registry \<and> ws_genesis_block s = last_processed_block g \<and> ws_genesis_predicate s = gp
   \<and> ws_genesis_height s = ucast (l1_block_height (last_processed_block g))
   \<and> ws_blkid s = last_processed_block (ws_anchor s) \<and> st_at env s (ws_blkid s) = Some (ws_anchor s)
   \<and> block_authority registry (last_processed_block g) gp (mf_at env s) (ws_anchor s) = Some (ws_next_predicate s)"

lemma worker_inv_l1 [simp]: "worker_inv env registry g gp (s\<lparr>w_l1 := l\<rparr>) = worker_inv env registry g gp s"
  by (simp add: worker_inv_def)

lemma worker_inv_uncommitted:
  assumes "worker_inv env registry g gp s" "st_at env s c = None"
    and "\<And>b. b \<noteq> c \<Longrightarrow> mf_at env s' b = mf_at env s b" "\<And>b. b \<noteq> c \<Longrightarrow> ax_at env s' b = ax_at env s b"
    and "\<exists>tm n ta. s' = s\<lparr>w_manifests := tm, w_mmr := n, w_aux := ta\<rparr>"
  shows "worker_inv env registry g gp s'"
proof -
  have ne: "last_processed_block (ws_anchor s) \<noteq> c" using assms(1,2) by (auto simp: worker_inv_def)
  have "store_inv (wk_stf env) registry g gp (st_at env s) (mf_at env s') (ax_at env s')"
    using store_inv_uncommitted [where sts = "st_at env s" and mfs = "mf_at env s" and auxs = "ax_at env s"
        and mfs' = "mf_at env s'" and auxs' = "ax_at env s'" and c = c, OF _ assms(2) assms(3,4)] assms(1)
    by (auto simp: worker_inv_def)
  moreover have "block_authority registry (last_processed_block g) gp (mf_at env s') (ws_anchor s)
      = block_authority registry (last_processed_block g) gp (mf_at env s) (ws_anchor s)"
    by (rule authority_frame [OF assms(3) ne])
  ultimately show ?thesis using assms(1,5) by (auto simp: worker_inv_def)
qed

lemma worker_inv_authorised:
  assumes "worker_inv env registry g gp s"
  shows "authorised_state (wk_stf env) registry g gp (ws_anchor s) (ws_next_predicate s)"
proof -
  have "\<exists>q. authorised_state (wk_stf env) registry g gp (ws_anchor s) q
      \<and> block_authority registry (last_processed_block g) gp (mf_at env s) (ws_anchor s) = Some q"
    using assms unfolding worker_inv_def store_inv_def by blast
  then show ?thesis using assms by (auto simp: worker_inv_def)
qed

lemma commit_block:
  assumes laws: "worker_laws env" and reg: "registry_ok registry" and inv: "worker_inv env registry g gp s"
    and spec: "resolve_target (ws_next_predicate s) registry = Ok spec"
    and out: "compute_asm_transition spec (wk_stf env) (ws_anchor s) block aux cb = Some (Ok out)"
    and c: "c = last_processed_block (so_state out)"
    and above: "l1_block_height (last_processed_block g) < l1_block_height c" and fresh: "st_at env s c = None"
    and mf: "mf_at env s c = Some (so_manifest out)" and ax: "ax_at env s c = Some aux"
    and run: "store_anchor_state env (so_state out) s = (r, s1)"
    and s': "s' = (if r = Some (Ok ()) then (accept_output out c s1)\<lparr>ws_subscribers := subs\<rparr> else s1)"
  shows "worker_inv env registry g gp s'"
proof -
  let ?gb = "last_processed_block g"
  let ?q = "case extract_next_predicate_from_logs (mf_logs (so_manifest out)) of Some p \<Rightarrow> p | None \<Rightarrow> ws_next_predicate s"
  obtain t where s1: "s1 = s\<lparr>w_states := t\<rparr>" using store_anchor_state_effect(1) [OF laws run] by blast
  have st: "st_at env s1 = (st_at env s)(c \<mapsto> so_state out) \<or> r \<noteq> Some (Ok ()) \<and> st_at env s1 = st_at env s"
    using store_anchor_state_effect(2) [OF laws run] c by simp
  have store: "store_inv (wk_stf env) registry g gp (st_at env s) (mf_at env s) (ax_at env s)"
    and blk: "ws_blkid s = last_processed_block (ws_anchor s)" "st_at env s (ws_blkid s) = Some (ws_anchor s)"
    and auth: "block_authority registry ?gb gp (mf_at env s) (ws_anchor s) = Some (ws_next_predicate s)"
    using inv by (auto simp: worker_inv_def)
  note parent = worker_inv_authorised [OF inv]
  have wf: "states_wf env (w_states s1)"
    by (rule store_anchor_state_wf [OF laws run]) (use inv in \<open>simp add: worker_inv_def\<close>)
  have q: "block_authority registry ?gb gp (mf_at env s) (so_state out) = Some ?q"
    by (rule authority_of_output [OF reg spec out]) (use mf above c in simp_all)
  have authd: "authorised_state (wk_stf env) registry g gp (so_state out) ?q" by (rule authorised_step [OF parent spec out])
  have rep: "replayable (wk_stf env) registry g gp (st_at env s) (mf_at env s) (ax_at env s) (so_state out)"
    unfolding replayable_def using above c blk auth parent spec out mf ax by metis
  have new: "store_inv (wk_stf env) registry g gp ((st_at env s)(c \<mapsto> so_state out)) (mf_at env s) (ax_at env s)"
    unfolding c by (rule store_inv_commit [OF store _ authd q]) (use fresh c rep in simp_all)
  have ne: "ws_blkid s \<noteq> c" using fresh blk(2) by auto
  show ?thesis
  proof (cases "r = Some (Ok ())")
    case True
    then have st1: "st_at env s1 = (st_at env s)(c \<mapsto> so_state out)" using st by blast
    show ?thesis
      using inv new q wf True st1 unfolding s' worker_inv_def
      by (cases "extract_next_predicate_from_logs (mf_logs (so_manifest out))")
        (simp_all add: accept_output_def update_anchor_state_def s1 c)
  next
    case False
    show ?thesis
      using inv new store wf st ne False unfolding s' worker_inv_def by (auto simp: s1)
  qed
qed

lemma persist_output_cases:
  assumes "persist_output env c out aux s = (r, s')" and "record_manifest env (so_manifest out) s = (r1, s1)"
    and "store_aux_data env c aux s1 = (r2, s2)" and "store_anchor_state env (so_state out) s2 = (r3, s3)"
  shows "r1 \<noteq> Some (Ok ()) \<and> r \<noteq> Some (Ok ()) \<and> s' = s1
    \<or> r2 \<noteq> Some (Ok ()) \<and> r \<noteq> Some (Ok ()) \<and> s' = s2
    \<or> r1 = Some (Ok ()) \<and> r2 = Some (Ok ()) \<and> (r = Some (Ok ()) \<longleftrightarrow> r3 = Some (Ok ()))
      \<and> s' = (if r3 = Some (Ok ()) then (accept_output out c s3)\<lparr>ws_subscribers := emit c (ws_subscribers s3)\<rparr> else s3)"
proof -
  have sub: "ws_subscribers (accept_output out c s3) = ws_subscribers s3"
    by (simp add: accept_output_def update_anchor_state_def split: option.splits)
  show ?thesis using assms unfolding persist_output_def
    by (elim op_bindE) (auto simp: op_return_def Let_def sub)
qed

lemma persist_output_keeps:
  assumes laws: "worker_laws env" and reg: "registry_ok registry" and inv: "worker_inv env registry g gp s"
    and T: "resolve_target (ws_next_predicate s) registry = Ok spec"
      "compute_asm_transition spec (wk_stf env) (ws_anchor s) block aux cb = Some (Ok out)"
    and name: "last_processed_block (so_state out) = c" "manifest_block (so_manifest out) = c"
    and above: "l1_block_height (last_processed_block g) < l1_block_height c" and fresh: "st_at env s c = None"
    and run: "persist_output env c out aux s = (r, s')"
  shows "worker_inv env registry g gp s' \<and> (\<forall>b. b \<noteq> c \<longrightarrow> st_at env s' b = st_at env s b)
    \<and> (r = Some (Ok ()) \<longrightarrow> ws_blkid s' = c \<and> ws_subscribers s' = emit c (ws_subscribers s))"
proof -
  obtain r1 s1 where M: "record_manifest env (so_manifest out) s = (r1, s1)" by (cases "record_manifest env (so_manifest out) s")
  obtain r2 s2 where A: "store_aux_data env c aux s1 = (r2, s2)" by (cases "store_aux_data env c aux s1")
  obtain r3 s3 where C: "store_anchor_state env (so_state out) s2 = (r3, s3)" by (cases "store_anchor_state env (so_state out) s2")
  note R = record_manifest_effect [OF laws M] and X = store_aux_data_effect [OF laws A] and S = store_anchor_state_effect [OF laws C]
  obtain tm n where s1: "s1 = s\<lparr>w_manifests := tm, w_mmr := n\<rparr>" using R(1) by blast
  obtain ta where s2: "s2 = s1\<lparr>w_aux := ta\<rparr>" using X(1) by blast
  obtain t where s3: "s3 = s2\<lparr>w_states := t\<rparr>" using S(1) by blast
  have shape1: "\<exists>tm n ta. s1 = s\<lparr>w_manifests := tm, w_mmr := n, w_aux := ta\<rparr>"
    by (rule exI [of _ tm], rule exI [of _ n], rule exI [of _ "w_aux s"]) (simp add: s1)
  have inv1: "worker_inv env registry g gp s1"
    by (rule worker_inv_uncommitted [OF inv fresh _ _ shape1]) (use R(2) name s1 in simp_all)
  have inv2: "worker_inv env registry g gp s2"
    by (rule worker_inv_uncommitted [OF inv1, where c = c]) (use X(2) fresh s1 s2 in auto)
  consider (manifest) "r1 \<noteq> Some (Ok ())" "r \<noteq> Some (Ok ())" "s' = s1"
    | (aux) "r2 \<noteq> Some (Ok ())" "r \<noteq> Some (Ok ())" "s' = s2"
    | (anchor) "r1 = Some (Ok ())" "r2 = Some (Ok ())" "r = Some (Ok ()) \<longleftrightarrow> r3 = Some (Ok ())"
        "s' = (if r3 = Some (Ok ()) then (accept_output out c s3)\<lparr>ws_subscribers := emit c (ws_subscribers s3)\<rparr> else s3)"
    using persist_output_cases [OF run M A C] by blast
  then show ?thesis
  proof cases
    case manifest
    then show ?thesis using inv1 s1 by auto
  next
    case aux
    then show ?thesis using inv2 s1 s2 by auto
  next
    case anchor
    have mf: "mf_at env s2 c = Some (so_manifest out)" using R(3) anchor(1) name(2) s2 by simp
    have "worker_inv env registry g gp s'"
      by (rule commit_block [OF laws reg inv2 _ _ name(1) [symmetric] above _ mf X(3) [OF anchor(2)] C anchor(4)])
        (use T fresh s1 s2 in simp_all)
    moreover have "st_at env s3 b = st_at env s b" if "b \<noteq> c" for b using S(2) that name(1) s1 s2 by auto
    ultimately show ?thesis using anchor(3,4) s1 s2 s3
      by (auto simp: accept_output_def update_anchor_state_def split: option.splits)
  qed
qed

lemma apply_block_keeps:
  assumes laws: "worker_laws env" and reg: "registry_ok registry" and inv: "worker_inv env registry g gp s"
    and c: "l1_block_height c = l1_block_height (ws_blkid s) + 1"
    and above: "l1_block_height (last_processed_block g) < l1_block_height c" and fresh: "st_at env s c = None"
    and run: "apply_block env c s = (r, s')"
  shows "worker_inv env registry g gp s' \<and> (\<forall>b. b \<noteq> c \<longrightarrow> st_at env s' b = st_at env s b)
    \<and> (r = Some (Ok ()) \<longrightarrow> ws_blkid s' = c \<and> ws_subscribers s' = emit c (ws_subscribers s))"
  using run [unfolded apply_block_def]
proof (cases rule: op_bindE)
  case (ok block s1)
  obtain l where s1: "s1 = s\<lparr>w_l1 := l\<rparr>" using l1_onlyD [OF l1_only_client(1) ok(1)] by blast
  have hash: "compute_block_hash (se_body (wk_stf env)) (bl_header block) = l1_block_blkid c"
    using ok(1) worker_lawsD(5) [OF laws]
    by (auto simp: get_l1_block_def rpc_def map_err_def split: prod.splits sum.splits)
  from ok(2) show ?thesis
  proof (cases rule: op_bindE)
    case (ok pair s2)
    obtain out aux where pair: "pair = (out, aux)" by (cases pair)
    obtain l' where s2: "s2 = s\<lparr>w_l1 := l'\<rparr>" using l1_onlyD [OF l1_only_transition ok(1)] s1 by auto
    have inv2: "worker_inv env registry g gp s2" using inv s2 by simp
    obtain spec cb where T: "resolve_target (ws_next_predicate s2) registry = Ok spec"
      "compute_asm_transition spec (wk_stf env) (ws_anchor s2) block aux cb = Some (Ok out)"
      using execute_OkD [OF ok(1) [unfolded transition_def pair]] inv by (auto simp: s1 s2 worker_inv_def)
    have name: "last_processed_block (so_state out) = c" "manifest_block (so_manifest out) = c"
      using transition_names_block(1,2) [OF T(2)] c hash inv2 s2 by (cases c; simp add: worker_inv_def)+
    show ?thesis
      using persist_output_keeps [OF laws reg inv2 T name above _ ok(2) [unfolded pair prod.case]] fresh s2 by auto
  qed (use inv s1 l1_onlyD [OF l1_only_transition] in fastforce)+
qed (use inv l1_onlyD [OF l1_only_client(1)] in fastforce)+

lemma ascends_above: "ascends base cs \<Longrightarrow> x \<in> set cs \<Longrightarrow> l1_block_height base < l1_block_height x"
  by (induction base cs rule: ascends.induct) (auto dest: less_trans)

lemma apply_blocks_keeps:
  assumes laws: "worker_laws env" and reg: "registry_ok registry"
  shows "worker_inv env registry g gp s \<Longrightarrow> ascends (ws_blkid s) cs \<Longrightarrow>
    (\<And>c. c \<in> set cs \<Longrightarrow> l1_block_height (last_processed_block g) < l1_block_height c \<and> st_at env s c = None) \<Longrightarrow>
    apply_blocks env cs s = (r, s') \<Longrightarrow>
    worker_inv env registry g gp s' \<and> (\<forall>b. b \<notin> set cs \<longrightarrow> st_at env s' b = st_at env s b)
    \<and> (r = Some (Ok ()) \<longrightarrow> ws_blkid s' = last (ws_blkid s # cs) \<and> ws_subscribers s' = fold emit cs (ws_subscribers s)
         \<and> (\<forall>c \<in> set cs. st_at env s' c \<noteq> None))"
proof (induction cs arbitrary: s)
  case Nil
  then show ?case by (simp add: op_return_def)
next
  case (Cons c cs)
  obtain r1 s1 where A: "apply_block env c s = (r1, s1)" by (cases "apply_block env c s")
  have asc: "l1_block_height c = l1_block_height (ws_blkid s) + 1" "ascends c cs" using Cons.prems(2) by simp_all
  have K: "worker_inv env registry g gp s1" "\<forall>b. b \<noteq> c \<longrightarrow> st_at env s1 b = st_at env s b"
    "r1 = Some (Ok ()) \<longrightarrow> ws_blkid s1 = c \<and> ws_subscribers s1 = emit c (ws_subscribers s)"
    using apply_block_keeps [OF laws reg Cons.prems(1) asc(1) _ _ A] Cons.prems(3) [of c] by simp_all
  show ?case
  proof (cases "r1 = Some (Ok ())")
    case False
    then have "r \<noteq> Some (Ok ()) \<and> s' = s1" using Cons.prems(4) A by (auto elim!: op_bindE)
    then show ?thesis using K by auto
  next
    case True
    then have run: "apply_blocks env cs s1 = (r, s')" and blk: "ws_blkid s1 = c" "ws_subscribers s1 = emit c (ws_subscribers s)"
      using Cons.prems(4) A K(3) by (auto simp: op_bind_def)
    have notin: "c \<notin> set cs" using ascends_above [OF asc(2), of c] by auto
    have fresh: "l1_block_height (last_processed_block g) < l1_block_height x \<and> st_at env s1 x = None" if "x \<in> set cs" for x
    proof -
      have "x \<noteq> c" using that notin by blast
      then have "st_at env s1 x = st_at env s x" using K(2) by blast
      then show ?thesis using Cons.prems(3) [of x] that by simp
    qed
    have rest: "worker_inv env registry g gp s' \<and> (\<forall>b. b \<notin> set cs \<longrightarrow> st_at env s' b = st_at env s1 b)
      \<and> (r = Some (Ok ()) \<longrightarrow> ws_blkid s' = last (ws_blkid s1 # cs) \<and> ws_subscribers s' = fold emit cs (ws_subscribers s1)
           \<and> (\<forall>c \<in> set cs. st_at env s' c \<noteq> None))"
      by (rule Cons.IH [OF K(1) _ fresh run]) (use asc(2) blk(1) in simp)
    have "st_at env s1 c \<noteq> None" using K(1) blk(1) by (auto simp: worker_inv_def)
    then show ?thesis using rest K(2) blk notin by (auto simp: fold_Cons)
  qed
qed

lemma restore_anchor_keeps:
  assumes laws: "worker_laws env" and inv: "worker_inv env registry g gp s" and st: "st_at env s b = Some st"
    and run: "restore_anchor env st b s = (r, s')"
  shows "worker_inv env registry g gp s' \<and> st_at env s' = st_at env s \<and> ws_subscribers s' = ws_subscribers s
    \<and> (r = Some (Ok ()) \<longrightarrow> ws_blkid s' = b)"
proof (cases "b = ws_blkid s")
  case True
  then have "st = ws_anchor s" using st inv by (simp add: worker_inv_def)
  then show ?thesis using run inv True by (simp add: restore_anchor_def op_bind_def op_return_def update_anchor_state_def)
next
  case False
  obtain x s1 where R: "recover_from_context env (ws_registry s) (ws_genesis_block s) (ws_genesis_predicate s) st s = (x, s1)"
    by (cases "recover_from_context env (ws_registry s) (ws_genesis_block s) (ws_genesis_predicate s) st s")
  obtain l where s1: "s1 = s\<lparr>w_l1 := l\<rparr>" using l1_onlyD [OF l1_only_recover R] by blast
  show ?thesis
  proof (cases "\<exists>q. x = Some (Ok q)")
    case True
    then obtain q where q: "x = Some (Ok q)" by blast
    have "b = last_processed_block st" using inv st unfolding worker_inv_def store_inv_def by blast
    moreover have "block_authority registry (last_processed_block g) gp (mf_at env s) st = Some q"
      using recover_is_authority [OF worker_lawsD(1) [OF laws]] R q inv by (simp add: worker_inv_def)
    ultimately show ?thesis using run R q False inv st s1
      by (auto simp: restore_anchor_def op_bind_def op_return_def update_anchor_state_def worker_inv_def)
  next
    case no: False
    then have "s' = s1 \<and> r \<noteq> Some (Ok ())" using run R \<open>b \<noteq> ws_blkid s\<close>
      by (auto simp: restore_anchor_def op_bind_def split: option.splits sum.splits)
    then show ?thesis using inv s1 by auto
  qed
qed

lemma ucast_u32_less: "(ucast (a :: u32) :: u64) < ucast b \<longleftrightarrow> a < b"
  by (simp add: word_less_nat_alt unat_ucast_u64)

lemma fold_emit:
  "processed \<noteq> [] \<Longrightarrow> fold emit processed subs
     = map (\<lambda>q. q\<lparr>sub_queue := sub_queue q @ processed\<rparr>) (filter sub_alive subs)"
proof (induction processed arbitrary: subs)
  case (Cons c cs)
  have alive: "filter sub_alive (emit c subs) = emit c subs" by (auto simp: emit_def filter_id_conv)
  show ?case
  proof (cases "cs = []")
    case False
    then show ?thesis using Cons.IH [of "emit c subs"] alive by (simp add: emit_def comp_def)
  qed (simp add: emit_def)
qed simp

text \<open>What a successful synchronisation has done.  The height of the target comes from the client.  With
  nothing to do, the target lies below genesis or is committed already, and the tip stays; otherwise the
  blocks are consecutive from a committed one to the target, which is the new tip.  Exactly these blocks
  are newly committed, and every live subscriber has been sent exactly these, in order.\<close>

definition sync_result ::
  "('t, 'm, 'l, 'n, 'z) worker_env_scheme \<Rightarrow> block_id \<Rightarrow> l1_block_commitment list
     \<Rightarrow> ('l, 't, 'n, 'm) worker_state \<Rightarrow> ('l, 't, 'n, 'm) worker_state \<Rightarrow> bool" where
  "sync_result env target processed s s' \<longleftrightarrow>
     (\<exists>height. fst (get_l1_block_height env target s) = Some (Ok height)
      \<and> (if processed = []
         then (ucast height < ws_genesis_height s \<or> st_at env s \<lparr>l1_block_height = height, l1_block_blkid = target\<rparr> \<noteq> None)
            \<and> ws_blkid s' = ws_blkid s
         else last processed = \<lparr>l1_block_height = height, l1_block_blkid = target\<rparr> \<and> ws_blkid s' = last processed
            \<and> (\<exists>base. st_at env s base \<noteq> None \<and> ascends base processed)))
   \<and> distinct processed \<and> set processed \<inter> dom (st_at env s) = {}
   \<and> dom (st_at env s') = dom (st_at env s) \<union> set processed \<and> (\<forall>c. c \<notin> set processed \<longrightarrow> st_at env s' c = st_at env s c)
   \<and> ws_subscribers s' =
       (if processed = [] then ws_subscribers s
        else map (\<lambda>q. q\<lparr>sub_queue := sub_queue q @ processed\<rparr>) (filter sub_alive (ws_subscribers s)))"

lemma ascends_distinct: "ascends base cs \<Longrightarrow> distinct cs"
  by (induction base cs rule: ascends.induct) (auto dest: ascends_above)

lemma run_plan_keeps:
  assumes laws: "worker_laws env" and reg: "registry_ok registry" and inv: "worker_inv env registry g gp s"
    and plan: "planned env (w_states s) (ws_genesis_height s) \<lparr>l1_block_height = h, l1_block_blkid = target\<rparr>
        (pl_base_block plan) (pl_pending plan)"
    and base: "state_get env (pl_base_block plan) (w_states s) = Ok (Some (pl_base_state plan))"
    and height: "fst (get_l1_block_height env target s0) = Some (Ok h)" and s0: "s = s0\<lparr>w_l1 := l0\<rparr>"
    and run: "run_plan env plan s = (r, s')"
  shows "worker_inv env registry g gp s' \<and> st_at env s \<subseteq>\<^sub>m st_at env s'
    \<and> (\<forall>processed. r = Some (Ok processed) \<longrightarrow> sync_result env target processed s0 s')"
proof (cases "pl_pending plan = []")
  case True
  have "st_at env s (pl_base_block plan) \<noteq> None" using states.get_look [OF worker_lawsD(1) [OF laws] base] by (metis option.distinct(1))
  moreover have "pl_base_block plan = \<lparr>l1_block_height = h, l1_block_blkid = target\<rparr>" using plan True by (simp add: planned_def)
  ultimately show ?thesis using run inv True height s0 by (auto simp: run_plan_def op_return_def sync_result_def)
next
  case False
  let ?cs = "rev (pl_pending plan)"
  note sled = worker_lawsD(1) [OF laws]
  have look: "state_get env c (w_states s) = Ok x \<Longrightarrow> st_at env s c = x" for c x using states.get_look [OF sled] by simp
  obtain r1 s1 where R: "restore_anchor env (pl_base_state plan) (pl_base_block plan) s = (r1, s1)"
    by (cases "restore_anchor env (pl_base_state plan) (pl_base_block plan) s")
  have K: "worker_inv env registry g gp s1" "st_at env s1 = st_at env s" "ws_subscribers s1 = ws_subscribers s"
    "r1 = Some (Ok ()) \<longrightarrow> ws_blkid s1 = pl_base_block plan"
    using restore_anchor_keeps [OF laws inv look [OF base] R] by simp_all
  show ?thesis
  proof (cases "r1 = Some (Ok ())")
    case no: False
    then have "s' = s1 \<and> (\<forall>processed. r \<noteq> Some (Ok processed))"
      using run R False by (auto simp: run_plan_def Let_def elim!: op_bindE)
    then show ?thesis using K by simp
  next
    case True
    obtain r2 s2 where A: "apply_blocks env ?cs s1 = (r2, s2)" by (cases "apply_blocks env ?cs s1")
    have fin: "s' = s2" "r = Some (Ok processed) \<Longrightarrow> r2 = Some (Ok ()) \<and> processed = ?cs" for processed
      using run R True False A by (auto simp: run_plan_def Let_def op_bind_def op_return_def split: option.splits sum.splits)
    have blk: "ws_blkid s1 = pl_base_block plan" using K(4) True by simp
    have P: "ascends (pl_base_block plan) ?cs" "last (pl_base_block plan # ?cs) = \<lparr>l1_block_height = h, l1_block_blkid = target\<rparr>"
      "\<And>c. c \<in> set ?cs \<Longrightarrow> l1_block_height (last_processed_block g) < l1_block_height c \<and> st_at env s c = None"
      using plan inv look by (auto simp: planned_def list_all_iff worker_inv_def ucast_u32_less)
    have B: "worker_inv env registry g gp s2 \<and> (\<forall>b. b \<notin> set ?cs \<longrightarrow> st_at env s2 b = st_at env s1 b)
      \<and> (r2 = Some (Ok ()) \<longrightarrow> ws_blkid s2 = last (ws_blkid s1 # ?cs) \<and> ws_subscribers s2 = fold emit ?cs (ws_subscribers s1)
           \<and> (\<forall>c \<in> set ?cs. st_at env s2 c \<noteq> None))"
      by (rule apply_blocks_keeps [OF laws reg K(1) _ _ A]) (use P(1,3) blk K(2) in auto)
    have le: "st_at env s \<subseteq>\<^sub>m st_at env s'"
      unfolding map_le_def
    proof
      fix b assume "b \<in> dom (st_at env s)"
      then have "b \<notin> set ?cs" using P(3) [of b] by (auto simp: dom_def)
      then show "st_at env s b = st_at env s' b" using B K(2) fin(1) by simp
    qed
    have "sync_result env target processed s0 s'" if ok: "r = Some (Ok processed)" for processed
    proof -
      have p: "processed = ?cs" "r2 = Some (Ok ())" using fin(2) [OF ok] by simp_all
      have last: "last ?cs = \<lparr>l1_block_height = h, l1_block_blkid = target\<rparr>" "ws_blkid s' = last ?cs"
        using B P(2) p(2) blk fin(1) False by simp_all
      have stored: "st_at env s0 (pl_base_block plan) \<noteq> None" using look [OF base] s0 by simp
      have new: "set ?cs \<inter> dom (st_at env s0) = {}" using P(3) s0 by auto
      have rest: "st_at env s' c = st_at env s0 c" if "c \<notin> set ?cs" for c using B that K(2) s0 fin(1) by simp
      have "dom (st_at env s') = dom (st_at env s0) \<union> set ?cs" using rest B p(2) fin(1) by (auto simp: dom_def)
      moreover have "ws_subscribers s' = map (\<lambda>q. q\<lparr>sub_queue := sub_queue q @ ?cs\<rparr>) (filter sub_alive (ws_subscribers s0))"
        using B p(2) fin(1) K(3) s0 fold_emit [of ?cs "ws_subscribers s0"] False by simp
      ultimately show ?thesis unfolding sync_result_def p(1)
        using height last stored P(1) ascends_distinct [OF P(1)] new rest False by auto
    qed
    then show ?thesis using B fin(1) le by blast
  qed
qed

lemma sync_to_block_keeps:
  assumes laws: "worker_laws env" and reg: "registry_ok registry" and inv: "worker_inv env registry g gp s"
    and run: "sync_to_block env target s = Some (r, s')"
  shows "worker_inv env registry g gp s' \<and> st_at env s \<subseteq>\<^sub>m st_at env s'
    \<and> (\<forall>processed. r = Some (Ok processed) \<longrightarrow> sync_result env target processed s s')"
proof -
  obtain x s1 where H: "get_l1_block_height env target s = (x, s1)" by (cases "get_l1_block_height env target s")
  obtain l where s1: "s1 = s\<lparr>w_l1 := l\<rparr>" using l1_onlyD [OF l1_only_client(4) H] by blast
  have stop: ?thesis if "s' = s1" "r = Some (Ok []) \<and> (\<exists>height. x = Some (Ok height) \<and> ucast height < ws_genesis_height s) \<or> (\<forall>p. r \<noteq> Some (Ok p))"
    using that inv s1 H by (auto simp: sync_result_def)
  show ?thesis
  proof (cases "\<exists>height. x = Some (Ok height) \<and> \<not> ucast height < ws_genesis_height s")
    case False
    then show ?thesis using run H s1
      by (intro stop) (auto simp: sync_to_block_def op_return_def op_fail_def split: option.splits sum.splits if_splits)
  next
    case True
    then obtain height where h: "x = Some (Ok height)" "\<not> ucast height < ws_genesis_height s" by blast
    let ?t = "\<lparr>l1_block_height = height, l1_block_blkid = target\<rparr>"
    obtain p s2 where P: "plan_block_processing env ?t (ws_genesis_height s) s1 = Some (p, s2)"
      using plan_block_processing_returns [of env ?t "ws_genesis_height s" s1] by blast
    note S = plan_block_processing_spec [OF P]
    obtain l' where s2: "s2 = s\<lparr>w_l1 := l'\<rparr>" using S s1 by auto
    have inv2: "worker_inv env registry g gp s2" using inv s2 by simp
    show ?thesis
    proof (cases "\<exists>plan. p = Some (Ok plan)")
      case True
      then obtain plan where plan: "p = Some (Ok plan)" by blast
      have "run_plan env plan s2 = (r, s')" using run H h P plan s1 by (simp add: sync_to_block_def)
      from run_plan_keeps [OF laws reg inv2 _ _ _ s2 this, of height target] S plan s1 s2 H h(1)
      show ?thesis by simp
    next
      case False
      then have "s' = s2 \<and> (\<forall>p. r \<noteq> Some (Ok p))" using run H h P s1
        by (auto simp: sync_to_block_def op_fail_def split: option.splits sum.splits)
      then show ?thesis using inv2 s2 by simp
    qed
  qed
qed

section \<open>Start-up\<close>

definition disk_inv ::
  "('t, 'm, 'l, 'n, 'z) worker_env_scheme \<Rightarrow> execution_registry \<Rightarrow> 'm anchor_state \<Rightarrow> predicate_key
     \<Rightarrow> ('l, 't, 'n, 'y) world_scheme \<Rightarrow> bool" where
  "disk_inv env registry g gp w \<longleftrightarrow>
     store_inv (wk_stf env) registry g gp (st_at env w) (mf_at env w) (ax_at env w) \<and> states_wf env (w_states w)"

lemma disk_inv_l1 [simp]: "disk_inv env registry g gp (w\<lparr>w_l1 := l\<rparr>) = disk_inv env registry g gp w"
  "disk_inv env registry g gp (w\<lparr>w_mmr := n\<rparr>) = disk_inv env registry g gp w"
  by (simp_all add: disk_inv_def)

lemma store_genesis_keeps:
  assumes laws: "worker_laws env" and inv: "disk_inv env registry g gp w"
    and empty: "st_at env w (last_processed_block g) = None" and run: "store_anchor_state env g w = (r, w')"
  shows "disk_inv env registry g gp w' \<and> st_at env w \<subseteq>\<^sub>m st_at env w'
    \<and> (r = Some (Ok ()) \<longrightarrow> st_at env w' (last_processed_block g) = Some g)"
proof -
  obtain t where w': "w' = w\<lparr>w_states := t\<rparr>" using store_anchor_state_effect(1) [OF laws run] by blast
  have st: "st_at env w' = (st_at env w)(last_processed_block g \<mapsto> g) \<or> r \<noteq> Some (Ok ()) \<and> st_at env w' = st_at env w"
    by (rule store_anchor_state_effect(2) [OF laws run])
  have wf: "states_wf env (w_states w')"
    by (rule store_anchor_state_wf [OF laws run]) (use inv in \<open>simp add: disk_inv_def\<close>)
  have "block_authority registry (last_processed_block g) gp (mf_at env w) g = Some gp" by (simp add: block_authority_def)
  from store_inv_commit [where sts = "st_at env w" and mfs = "mf_at env w" and auxs = "ax_at env w" and st = g and q = gp,
      OF _ empty authorised_genesis this] inv
  have "store_inv (wk_stf env) registry g gp ((st_at env w)(last_processed_block g \<mapsto> g)) (mf_at env w) (ax_at env w)"
    by (simp add: disk_inv_def)
  then show ?thesis using st wf inv empty w' by (auto simp: disk_inv_def map_le_def)
qed

lemma restore_genesis_keeps:
  assumes laws: "worker_laws env" and inv: "disk_inv env registry g gp w"
    and run: "restore_genesis env g latest w = (r, w')"
  shows "disk_inv env registry g gp w' \<and> st_at env w \<subseteq>\<^sub>m st_at env w' \<and> (latest = None \<longrightarrow> w' = w)"
proof (cases "w' = w")
  case False
  have "state_get env (last_processed_block g) (w_states w) = Ok None \<and> latest \<noteq> None
      \<and> store_anchor_state env g w = (r, w')"
    using run False
    by (auto simp: restore_genesis_def get_anchor_state_def op_return_def op_fail_def map_err_def res_bind_def ok_or_def
        split: sum.splits option.splits if_splits)
  then show ?thesis
    using store_genesis_keeps [OF laws inv] states.get_look [OF worker_lawsD(1) [OF laws]] by metis
qed (use inv in simp)

lemma align_manifest_mmr_frame: "align_manifest_mmr env acc w = (r, w') \<Longrightarrow> \<exists>n. w' = w\<lparr>w_mmr := n\<rparr>"
  by (auto simp: align_manifest_mmr_def op_bind_def manifest_mmr_leaf_count_def seed_manifest_mmr_def op_return_def
      op_fail_def Let_def intro: exI [of _ "w_mmr w"] split: sum.splits prod.splits if_splits)

lemma adopt_keeps:
  assumes laws: "worker_laws env" and inv: "disk_inv env registry g gp w"
    and latest: "case latest of
        None \<Rightarrow> \<forall>c. st_at env w c = None
      | Some st \<Rightarrow> st_at env w (last_processed_block st) = Some st"
    and run: "(case latest of Some state \<Rightarrow> op_return state
       | None \<Rightarrow> op_bind (store_anchor_state env g) (\<lambda>_. op_return g)) w = (r, w')"
  shows "disk_inv env registry g gp w' \<and> st_at env w \<subseteq>\<^sub>m st_at env w'
    \<and> (\<forall>anchor. r = Some (Ok anchor) \<longrightarrow> st_at env w' (last_processed_block anchor) = Some anchor)"
proof (cases latest)
  case (Some st)
  then show ?thesis using run inv latest by (auto simp: op_return_def)
next
  case None
  obtain r0 w0 where S: "store_anchor_state env g w = (r0, w0)" by (cases "store_anchor_state env g w")
  have "disk_inv env registry g gp w0 \<and> st_at env w \<subseteq>\<^sub>m st_at env w0
      \<and> (r0 = Some (Ok ()) \<longrightarrow> st_at env w0 (last_processed_block g) = Some g)"
    by (rule store_genesis_keeps [OF laws inv _ S]) (use latest None in simp)
  moreover have "w' = w0 \<and> (\<forall>a. r = Some (Ok a) \<longrightarrow> r0 = Some (Ok ()) \<and> a = g)"
    using run None S by (auto simp: op_bind_def op_return_def split: option.splits sum.splits)
  ultimately show ?thesis by auto
qed

lemma latest_anchor:
  assumes laws: "worker_laws env" and wf: "states_wf env (w_states w)"
    and run: "get_latest_anchor_state env w = (Some (Ok latest), w')"
  shows "case latest of
        None \<Rightarrow> \<forall>c. st_at env w c = None
      | Some st \<Rightarrow> st_at env w (last_processed_block st) = Some st"
proof -
  have "state_get_latest env (w_states w) = Ok latest"
    using run by (auto simp: get_latest_anchor_state_def map_err_def split: sum.splits)
  from get_latest_highest [OF worker_lawsD(1) [OF laws] wf this] show ?thesis by (auto split: option.splits)
qed

text \<open>A triple: from \<open>P\<close>, whatever the outcome, \<open>G\<close> holds afterwards, and \<open>Q\<close> on success.\<close>

definition triple :: "('w \<Rightarrow> bool) \<Rightarrow> ('e, 'w, 'a) op \<Rightarrow> ('w \<Rightarrow> bool) \<Rightarrow> ('a \<Rightarrow> 'w \<Rightarrow> bool) \<Rightarrow> bool" where
  "triple P m G Q \<longleftrightarrow> (\<forall>w r w'. P w \<longrightarrow> m w = (r, w') \<longrightarrow> G w' \<and> (\<forall>a. r = Some (Ok a) \<longrightarrow> Q a w'))"

lemma triple_bind: "triple P m G Q \<Longrightarrow> (\<And>a. triple (Q a) (f a) G R) \<Longrightarrow> triple P (op_bind m f) G R"
  unfolding triple_def by (intro allI impI) (erule op_bindE, fastforce+)

lemma triple_return: "(\<And>w. P w \<Longrightarrow> G w \<and> Q a w) \<Longrightarrow> triple P (op_return a) G Q"
  by (auto simp: triple_def op_return_def)

lemma triple_fail: "(\<And>w. P w \<Longrightarrow> G w) \<Longrightarrow> triple P (op_fail e) G Q"
  by (auto simp: triple_def op_fail_def)

lemma triple_lift: "(\<And>w. P w \<Longrightarrow> G w \<and> (\<forall>a. r = Some (Ok a) \<longrightarrow> Q a w)) \<Longrightarrow> triple P (op_lift r) G Q"
  by (auto simp: triple_def op_lift_def)

lemma triple_if:
  "(c \<Longrightarrow> triple P m G Q) \<Longrightarrow> (\<not> c \<Longrightarrow> triple P n G Q) \<Longrightarrow> triple P (if c then m else n) G Q"
  by simp

lemma triple_l1:
  assumes "l1_only m" "\<And>w l. P w \<Longrightarrow> P (w\<lparr>w_l1 := l\<rparr>)" "\<And>w. P w \<Longrightarrow> G w"
  shows "triple P m G (\<lambda>_. P)"
  unfolding triple_def using l1_onlyD [OF assms(1)] assms(2,3) by blast

lemma worker_new_keeps:
  assumes laws: "worker_laws env" and inv: "disk_inv env registry g gp w"
    and run: "worker_new env g gp registry subs w = (r, w')"
  shows "disk_inv env registry g gp w' \<and> st_at env w \<subseteq>\<^sub>m st_at env w'
    \<and> (\<forall>s. r = Some (Ok s) \<longrightarrow> worker_inv env registry g gp s \<and> world.truncate s = w')"
proof -
  let ?G = "\<lambda>v. disk_inv env registry g gp v \<and> st_at env w \<subseteq>\<^sub>m st_at env v"
  let ?L = "\<lambda>latest v. ?G v \<and> (case latest of
        None \<Rightarrow> \<forall>c. st_at env v c = None
      | Some st \<Rightarrow> st_at env v (last_processed_block st) = Some st)"
  let ?A = "\<lambda>anchor v. ?G v \<and> st_at env v (last_processed_block anchor) = Some anchor"
  let ?Q = "\<lambda>anchor q v. ?A anchor v \<and> block_authority registry (last_processed_block g) gp (mf_at env v) anchor = Some q"
  have validate: "triple ?G (validate_anchor_against_l1 env (an_pow_state g)) ?G (\<lambda>_. ?G)"
    by (rule triple_l1) simp_all
  have get: "triple ?G (get_latest_anchor_state env) ?G ?L"
    unfolding triple_def using latest_anchor [OF laws]
    by (auto simp: get_latest_anchor_state_def disk_inv_def)
  have genesis: "triple (?L latest) (restore_genesis env g latest) ?G (\<lambda>_. ?L latest)" for latest
    unfolding triple_def using restore_genesis_keeps [OF laws]
    by (fastforce simp: map_le_def dom_def split: option.splits intro: map_le_trans)
  have align: "triple (?L latest) (align_manifest_mmr env (an_history g)) ?G (\<lambda>_. ?L latest)" for latest
    unfolding triple_def by (auto dest!: align_manifest_mmr_frame split: option.splits)
  have adopt: "triple (?L latest) (case latest of Some state \<Rightarrow> op_return state
       | None \<Rightarrow> op_bind (store_anchor_state env g) (\<lambda>_. op_return g)) ?G ?A" for latest
    unfolding triple_def using adopt_keeps [OF laws] by (blast intro: map_le_trans)
  have recover: "triple (?A anchor) (recover_from_context env registry (last_processed_block g) gp anchor) ?G (?Q anchor)" for anchor
    unfolding triple_def using l1_onlyD [OF l1_only_recover] recover_is_authority [OF worker_lawsD(1) [OF laws]]
    by fastforce
  have "triple ?G (worker_new env g gp registry subs) ?G (\<lambda>s v. worker_inv env registry g gp s \<and> world.truncate s = v)"
    unfolding worker_new_def Let_def
    apply (rule triple_bind [where Q = "\<lambda>_. ?G"], rule triple_lift, simp)
    apply (rule triple_if, rule triple_fail, simp)
    apply (rule triple_bind [OF validate], rule triple_bind [OF get], rule triple_bind [OF genesis],
        rule triple_bind [OF align], rule triple_bind [OF adopt], rule triple_bind [OF recover])
    apply (auto simp: triple_def op_return_def worker_inv_def disk_inv_def world.defs)
    done
  from this [unfolded triple_def, rule_format, OF _ run] inv show ?thesis by simp
qed

end
