(* ===== verification/Worker_Runs.thy ===== *)
theory Worker_Runs
  imports Worker "HOL-Library.Countable"
begin

text \<open>
  Runs of the ASM worker: stores, starts and synchronisations in any order, with failures and crashes in
  between.  The theory states what holds of every run, and has a concrete worker over an in-memory
  database, Bitcoin client and accumulator on which the properties are evaluated.
\<close>

section \<open>Runs of the worker\<close>

text \<open>A run: stores without anchor states, any number of starts and of synchronisations.  A start or a
  synchronisation that fails or panics leaves the stores as they are at that point and no worker; a start
  is possible at any time, so a crash needs no rule of its own.\<close>

inductive runner ::
  "('t, 'm, 'l, 'n, 'z) worker_env_scheme \<Rightarrow> execution_registry \<Rightarrow> 'm anchor_state \<Rightarrow> predicate_key
     \<Rightarrow> ('l, 't, 'n) world \<Rightarrow> ('l, 't, 'n, 'm) worker_state option \<Rightarrow> bool"
  for env registry g gp where
  runner_fresh: "sl_entries env (w_states w) = [] \<Longrightarrow> runner env registry g gp w None"
| runner_start: "runner env registry g gp w x \<Longrightarrow> worker_new env g gp registry subs w = (r, w') \<Longrightarrow>
    runner env registry g gp w' (case r of Some (Inr s) \<Rightarrow> Some s | _ \<Rightarrow> None)"
| runner_sync: "runner env registry g gp w (Some s) \<Longrightarrow> sync_to_block env target s = Some (r, s') \<Longrightarrow>
    runner env registry g gp (world.truncate s') (case r of Some (Inr _) \<Rightarrow> Some s' | _ \<Rightarrow> None)"

lemma worker_inv_disk: "worker_inv env registry g gp s \<Longrightarrow> disk_inv env registry g gp (world.truncate s)"
  by (simp add: worker_inv_def disk_inv_def world.defs)

lemma runner_inv:
  assumes laws: "worker_laws env" and reg: "registry_ok registry"
  shows "runner env registry g gp w x \<Longrightarrow>
    disk_inv env registry g gp w \<and> (\<forall>s. x = Some s \<longrightarrow> worker_inv env registry g gp s)"
proof (induction rule: runner.induct)
  case (runner_fresh w)
  have "st_at env w c = None" for c by (simp add: kv_lookup_def runner_fresh)
  then show ?case by (simp add: disk_inv_def store_inv_def states_wf_def runner_fresh)
next
  case (runner_start w x subs r w')
  then have "disk_inv env registry g gp w" by blast
  from worker_new_keeps [OF laws this runner_start.hyps(2)] show ?case
    by (auto split: option.splits sum.splits)
next
  case (runner_sync w s target r s')
  then have "worker_inv env registry g gp s" by blast
  from sync_to_block_keeps [OF laws reg this runner_sync.hyps(2)] show ?case
    using worker_inv_disk by (auto split: option.splits sum.splits)
qed

text \<open>C9: whatever sequence of starts, synchronisations, failures and crashes the worker goes through, every
  anchor state in the store is one the chain may be in: genesis, or the result of the transition under
  the ruleset that the chain had authorised for that block, computed from a parent that is stored too.
  It is stored under its own block, and the manifest and the auxiliary data the prover replays the block
  with are stored next to it, unchanged since they were written.\<close>
theorem committed_states_are_authorised:
  assumes "worker_laws env" and "registry_ok registry" and "runner env registry g gp w x"
    and "st_at env w c = Some st"
  shows "c = last_processed_block st
    \<and> (\<exists>q. authorised_state (wk_stf env) registry g gp st q)
    \<and> (st = g \<or> replayable (wk_stf env) registry g gp (st_at env w) (mf_at env w) (ax_at env w) st)"
proof -
  have "store_inv (wk_stf env) registry g gp (st_at env w) (mf_at env w) (ax_at env w)"
    using runner_inv [OF assms(1-3)] by (simp add: disk_inv_def)
  from this [unfolded store_inv_def, rule_format, OF assms(4)] show ?thesis by blast
qed

text \<open>C10: the ruleset for the next block survives a restart.  In a running worker the predicate held in
  memory is the one that recovery from the stored manifest of its anchor computes, and it is the
  predicate the chain authorises for the next block.\<close>
theorem restart_recovers_authority:
  assumes "worker_laws env" and "registry_ok registry" and "runner env registry g gp w (Some s)"
    and "recover_from_context env registry (last_processed_block g) gp (ws_anchor s) s = (Some (Ok q), s')"
  shows "q = ws_next_predicate s \<and> authorised_state (wk_stf env) registry g gp (ws_anchor s) q"
proof -
  have inv: "worker_inv env registry g gp s" using runner_inv [OF assms(1-3)] by simp
  have "block_authority registry (last_processed_block g) gp (mf_at env s) (ws_anchor s) = Some q"
    by (rule recover_is_authority [OF worker_lawsD(1) [OF assms(1)] assms(4)])
  then have "q = ws_next_predicate s" using inv by (simp add: worker_inv_def)
  then show ?thesis using worker_inv_authorised [OF inv] by simp
qed

lemma sync_returns_somehow: "\<exists>r s'. sync_to_block env target s = Some (r, s')"
proof -
  obtain x s1 where H: "get_l1_block_height env target s = (x, s1)" by (cases "get_l1_block_height env target s")
  have plan: "\<exists>p s2. plan_block_processing env t gh s1 = Some (p, s2)" for t gh by (rule plan_block_processing_returns)
  have run: "\<exists>r s'. run_plan env p s2 = (r, s')" for p s2 by (cases "run_plan env p s2") blast
  show ?thesis
  proof (cases "\<exists>height. x = Some (Ok height) \<and> \<not> ucast height < ws_genesis_height s1")
    case True
    then obtain height where h: "x = Some (Ok height)" "\<not> ucast height < ws_genesis_height s1" by blast
    obtain p s2 where P: "plan_block_processing env \<lparr>l1_block_height = height, l1_block_blkid = target\<rparr>
        (ws_genesis_height s1) s1 = Some (p, s2)" using plan by blast
    show ?thesis using H h P run
      by (cases p) (auto simp: sync_to_block_def op_fail_def split: sum.splits)
  next
    case False
    then show ?thesis using H
      by (cases x) (auto simp: sync_to_block_def op_fail_def op_return_def split: sum.splits)
  qed
qed

text \<open>C11: synchronisation always returns, whatever the Bitcoin client answers: every step of the backward search
  lowers the height, and the search stops at genesis at the latest.  In any case nothing that was
  committed is lost.  When it succeeds with blocks processed, they are consecutive from a committed block
  up to the submitted one, which is the new tip; when it succeeds with none, the submitted block is below
  genesis or committed already, and the tip is where it was.  Either way the blocks newly committed are
  exactly the processed ones, no other stored state differs, and each subscriber still listening has
  exactly these blocks, in order, appended to what it was sent before.\<close>
theorem sync_returns:
  "\<exists>r s'. sync_to_block env target s = Some (r, s')
    \<and> (worker_laws env \<and> registry_ok registry \<and> worker_inv env registry g gp s \<longrightarrow>
         st_at env s \<subseteq>\<^sub>m st_at env s'
       \<and> (\<forall>processed. r = Some (Ok processed) \<longrightarrow> sync_result env target processed s s'))"
  using sync_returns_somehow [of env target s] sync_to_block_keeps [of env registry g gp s target] by blast

section \<open>The stored manifest hashes\<close>

text \<open>What the accumulator's store promises: a successful write of a leaf is an append or an overwrite of that
  leaf, and the other leaves stay.\<close>

definition leaf_law :: "('t, 'm, 'l, 'n, 'z) worker_env_scheme \<Rightarrow> bool" where
  "leaf_law env \<longleftrightarrow> (\<forall>h x n n' k. ns_put_leaf env h x n = (Ok (), n') \<longrightarrow>
     ns_get_leaf env k n' = (if k = h then Ok (Some x) else ns_get_leaf env k n))"

text \<open>The blocks' manifests are stored, their hashes are the leaves at their heights, and nothing else moved.\<close>

definition recorded ::
  "('t, 'm, 'l, 'n, 'z) worker_env_scheme \<Rightarrow> l1_block_commitment list
     \<Rightarrow> ('l, 't, 'n, 'x) world_scheme \<Rightarrow> ('l, 't, 'n, 'x) world_scheme \<Rightarrow> bool" where
  "recorded env cs w w' \<longleftrightarrow>
     (\<forall>c \<in> set cs. \<exists>mf. mf_at env w' c = Some mf
        \<and> ns_get_leaf env (ucast (l1_block_height c)) (w_mmr w') = Ok (Some (se_manifest_hash (wk_stf env) mf)))
   \<and> (\<forall>b. b \<notin> set cs \<longrightarrow> mf_at env w' b = mf_at env w b)
   \<and> (\<forall>k. k \<notin> ucast ` l1_block_height ` set cs \<longrightarrow> ns_get_leaf env k (w_mmr w') = ns_get_leaf env k (w_mmr w))"

lemma ucast_u32_eq: "(ucast (a :: u32) :: u64) = ucast b \<longleftrightarrow> a = b"
  by (metis unat_ucast_u64 word_unat_eq_iff)

lemma recorded_Cons:
  assumes "recorded env [c] w w1" and "recorded env cs w1 w'"
    and "\<And>x. x \<in> set cs \<Longrightarrow> l1_block_height x \<noteq> l1_block_height c"
  shows "recorded env (c # cs) w w'"
proof -
  have other: "c \<notin> set cs" "ucast (l1_block_height c) \<notin> (ucast ` l1_block_height ` set cs :: u64 set)"
    using assms(3) by (auto simp: ucast_u32_eq) metis
  show ?thesis unfolding recorded_def
  proof (intro conjI ballI allI impI)
    fix x assume x: "x \<in> set (c # cs)"
    show "\<exists>mf. mf_at env w' x = Some mf
        \<and> ns_get_leaf env (ucast (l1_block_height x)) (w_mmr w') = Ok (Some (se_manifest_hash (wk_stf env) mf))"
      using assms(1,2) other x unfolding recorded_def by (cases "x \<in> set cs") simp_all
  qed (use assms(1,2) in \<open>simp_all add: recorded_def\<close>)
qed

lemma record_manifest_leaves:
  assumes laws: "worker_laws env" "leaf_law env" and run: "record_manifest env mf w = (Some (Ok ()), w')"
  shows "recorded env [manifest_block mf] w w'"
proof -
  obtain w1 n where "put_manifest env mf w = (Some (Ok ()), w1)" "w_mmr w1 = w_mmr w"
    "ns_put_leaf env (ucast (mf_height mf)) (se_manifest_hash (wk_stf env) mf) (w_mmr w1) = (Ok (), n)" "w' = w1\<lparr>w_mmr := n\<rparr>"
    using run unfolding record_manifest_def Let_def
    by (elim op_bindE) (auto simp: put_manifest_def put_manifest_hash_def map_err_def split: prod.splits sum.splits)
  then have "ns_get_leaf env k (w_mmr w') = (if k = ucast (mf_height mf) then Ok (Some (se_manifest_hash (wk_stf env) mf))
      else ns_get_leaf env k (w_mmr w))" for k using laws(2) by (simp add: leaf_law_def)
  then show ?thesis using record_manifest_effect(2,3) [OF laws(1) run] by (simp add: recorded_def manifest_block_def)
qed

lemma persist_output_leaves:
  assumes laws: "worker_laws env" "leaf_law env" and name: "manifest_block (so_manifest out) = c"
    and run: "persist_output env c out aux s = (Some (Ok ()), s')"
  shows "recorded env [c] s s'"
proof -
  obtain r1 s1 where M: "record_manifest env (so_manifest out) s = (r1, s1)" by (cases "record_manifest env (so_manifest out) s")
  obtain r2 s2 where A: "store_aux_data env c aux s1 = (r2, s2)" by (cases "store_aux_data env c aux s1")
  obtain r3 s3 where C: "store_anchor_state env (so_state out) s2 = (r3, s3)" by (cases "store_anchor_state env (so_state out) s2")
  have ok: "r1 = Some (Ok ())" "s' = (accept_output out c s3)\<lparr>ws_subscribers := emit c (ws_subscribers s3)\<rparr>"
    using persist_output_cases [OF run M A C] by auto
  have "w_mmr s' = w_mmr s1 \<and> w_manifests s' = w_manifests s1"
    using ok(2) store_aux_data_effect(1) [OF laws(1) A] store_anchor_state_effect(1) [OF laws(1) C]
    by (auto simp: accept_output_def update_anchor_state_def split: option.splits)
  moreover have "recorded env [c] s s1" using record_manifest_leaves [OF laws M [unfolded ok(1)]] name by simp
  ultimately show ?thesis by (simp add: recorded_def)
qed

lemma apply_block_leaves:
  assumes laws: "worker_laws env" "leaf_law env" and reg: "registry_ok registry" and inv: "worker_inv env registry g gp s"
    and c: "l1_block_height c = l1_block_height (ws_blkid s) + 1"
    and run: "apply_block env c s = (Some (Ok ()), s')"
  shows "recorded env [c] s s'"
  using run [unfolded apply_block_def]
proof (cases rule: op_bindE)
  case (ok block s1)
  obtain l where s1: "s1 = s\<lparr>w_l1 := l\<rparr>" using l1_onlyD [OF l1_only_client(1) ok(1)] by blast
  have hash: "compute_block_hash (se_body (wk_stf env)) (bl_header block) = l1_block_blkid c"
    using ok(1) worker_lawsD(5) [OF laws(1)]
    by (auto simp: get_l1_block_def rpc_def map_err_def split: prod.splits sum.splits)
  from ok(2) show ?thesis
  proof (cases rule: op_bindE)
    case (ok pair s2)
    obtain out aux where pair: "pair = (out, aux)" by (cases pair)
    obtain l' where s2: "s2 = s\<lparr>w_l1 := l'\<rparr>" using l1_onlyD [OF l1_only_transition ok(1)] s1 by auto
    obtain spec cb where T: "compute_asm_transition spec (wk_stf env) (ws_anchor s2) block aux cb = Some (Ok out)"
      using execute_OkD [OF ok(1) [unfolded transition_def pair]] inv by (auto simp: s1 s2 worker_inv_def)
    have "manifest_block (so_manifest out) = c"
      using transition_names_block(1,2) [OF T] c hash inv s2 by (cases c; simp add: worker_inv_def)
    from persist_output_leaves [OF laws this ok(2) [unfolded pair prod.case]] show ?thesis by (simp add: recorded_def s2)
  qed simp_all
qed simp_all

lemma apply_blocks_leaves:
  assumes laws: "worker_laws env" "leaf_law env" and reg: "registry_ok registry"
  shows "worker_inv env registry g gp s \<Longrightarrow> ascends (ws_blkid s) cs \<Longrightarrow>
    (\<And>c. c \<in> set cs \<Longrightarrow> l1_block_height (last_processed_block g) < l1_block_height c \<and> st_at env s c = None) \<Longrightarrow>
    apply_blocks env cs s = (Some (Ok ()), s') \<Longrightarrow> recorded env cs s s'"
proof (induction cs arbitrary: s)
  case Nil
  then show ?case by (simp add: op_return_def recorded_def)
next
  case (Cons c cs)
  obtain s1 where A: "apply_block env c s = (Some (Ok ()), s1)" and rest: "apply_blocks env cs s1 = (Some (Ok ()), s')"
    using Cons.prems(4) by (auto elim!: op_bindE)
  have asc: "l1_block_height c = l1_block_height (ws_blkid s) + 1" "ascends c cs" using Cons.prems(2) by simp_all
  have K: "worker_inv env registry g gp s1" "\<forall>b. b \<noteq> c \<longrightarrow> st_at env s1 b = st_at env s b" "ws_blkid s1 = c"
    using apply_block_keeps [OF laws(1) reg Cons.prems(1) asc(1) _ _ A] Cons.prems(3) [of c] by simp_all
  have lower: "l1_block_height c < l1_block_height x" if "x \<in> set cs" for x by (rule ascends_above [OF asc(2) that])
  have "recorded env cs s1 s'"
  proof (rule Cons.IH [OF K(1) _ _ rest])
    show "l1_block_height (last_processed_block g) < l1_block_height x \<and> st_at env s1 x = None" if "x \<in> set cs" for x
      using Cons.prems(3) [of x] K(2) lower [OF that] that by auto
  qed (use asc(2) K(3) in simp)
  then show ?case
    using recorded_Cons [OF apply_block_leaves [OF laws reg Cons.prems(1) asc(1) A]] lower by (metis less_irrefl)
qed

lemma restore_anchor_stores:
  "restore_anchor env st b s = (r, s') \<Longrightarrow> w_mmr s' = w_mmr s \<and> w_manifests s' = w_manifests s"
  by (auto simp: restore_anchor_def op_return_def update_anchor_state_def elim!: op_bindE
      dest!: l1_onlyD [OF l1_only_recover] split: if_splits)

lemma run_plan_leaves:
  assumes laws: "worker_laws env" "leaf_law env" and reg: "registry_ok registry" and inv: "worker_inv env registry g gp s"
    and plan: "planned env (w_states s) (ws_genesis_height s) tip (pl_base_block plan) (pl_pending plan)"
    and base: "state_get env (pl_base_block plan) (w_states s) = Ok (Some (pl_base_state plan))"
    and run: "run_plan env plan s = (Some (Ok processed), s')"
  shows "recorded env processed s s'"
proof (cases "pl_pending plan = []")
  case True
  then show ?thesis using run by (simp add: run_plan_def op_return_def recorded_def)
next
  case False
  have look: "state_get env c (w_states s) = Ok x \<Longrightarrow> st_at env s c = x" for c x
    using states.get_look [OF worker_lawsD(1) [OF laws(1)]] by simp
  obtain s1 where R: "restore_anchor env (pl_base_state plan) (pl_base_block plan) s = (Some (Ok ()), s1)"
    and A: "apply_blocks env processed s1 = (Some (Ok ()), s')" and p: "processed = rev (pl_pending plan)"
    using run False by (auto simp: run_plan_def Let_def op_return_def elim!: op_bindE)
  have K: "worker_inv env registry g gp s1" "st_at env s1 = st_at env s" "ws_blkid s1 = pl_base_block plan"
    using restore_anchor_keeps [OF laws(1) inv look [OF base] R] by simp_all
  have "recorded env processed s1 s'"
    by (rule apply_blocks_leaves [OF laws reg K(1) _ _ A])
      (use plan inv look K(2,3) p in \<open>auto simp: planned_def list_all_iff worker_inv_def ucast_u32_less\<close>)
  then show ?thesis using restore_anchor_stores [OF R] by (simp add: recorded_def)
qed

lemma sync_leaves:
  assumes laws: "worker_laws env" "leaf_law env" and reg: "registry_ok registry" and inv: "worker_inv env registry g gp s"
    and run: "sync_to_block env target s = Some (Some (Ok processed), s')"
  shows "recorded env processed s s'"
proof -
  obtain x s1 where H: "get_l1_block_height env target s = (x, s1)" by (cases "get_l1_block_height env target s")
  obtain l where s1: "s1 = s\<lparr>w_l1 := l\<rparr>" using l1_onlyD [OF l1_only_client(4) H] by blast
  show ?thesis
  proof (cases "\<exists>height. x = Some (Ok height) \<and> \<not> ucast height < ws_genesis_height s")
    case False
    then have "processed = []" "s' = s1" using run H s1
      by (auto simp: sync_to_block_def op_return_def op_fail_def split: option.splits sum.splits if_splits)
    then show ?thesis by (simp add: recorded_def s1)
  next
    case True
    then obtain height where h: "x = Some (Ok height)" "\<not> ucast height < ws_genesis_height s" by blast
    obtain plan s2 where P: "plan_block_processing env \<lparr>l1_block_height = height, l1_block_blkid = target\<rparr> (ws_genesis_height s) s1
        = Some (Some (Ok plan), s2)" "run_plan env plan s2 = (Some (Ok processed), s')"
      using run H h s1 by (auto simp: sync_to_block_def op_fail_def split: option.splits sum.splits)
    note S = plan_block_processing_spec [OF P(1)]
    obtain l' where s2: "s2 = s\<lparr>w_l1 := l'\<rparr>" using S s1 by auto
    have "recorded env processed s2 s'"
      by (rule run_plan_leaves [OF laws reg _ _ _ P(2)]) (use S s1 s2 inv in auto)
    then show ?thesis by (simp add: recorded_def s2)
  qed
qed

text \<open>C39: a synchronisation writes the manifest hashes of the blocks it processes and of no others.  For each of
  them the stored leaf at its height is the hash of its stored manifest; every other leaf is as before,
  those at and below the committed block the walk ended at included.  So when the chain comes back to a
  branch it had left, whose blocks are committed and not processed again, the leaves of the branch
  abandoned last stay in the accumulator's store.\<close>
theorem sync_writes_leaves_of_processed_only:
  assumes "worker_laws env" and "leaf_law env" and "registry_ok registry" and "worker_inv env registry g gp s"
    and "sync_to_block env target s = Some (Some (Ok processed), s')"
  shows "(\<forall>c \<in> set processed. \<exists>mf. mf_at env s' c = Some mf
        \<and> ns_get_leaf env (ucast (l1_block_height c)) (w_mmr s') = Ok (Some (se_manifest_hash (wk_stf env) mf)))
    \<and> (\<forall>k. k \<notin> ucast ` l1_block_height ` set processed \<longrightarrow>
        ns_get_leaf env k (w_mmr s') = ns_get_leaf env k (w_mmr s))
    \<and> (\<forall>base. ascends base processed \<longrightarrow> (\<forall>k \<le> ucast (l1_block_height base).
        ns_get_leaf env k (w_mmr s') = ns_get_leaf env k (w_mmr s)))"
proof -
  note R = sync_leaves [OF assms, unfolded recorded_def]
  have "k \<notin> ucast ` l1_block_height ` set processed"
    if "ascends base processed" "k \<le> ucast (l1_block_height base)" for base and k :: u64
  proof
    assume "k \<in> ucast ` l1_block_height ` set processed"
    then obtain c where c: "c \<in> set processed" "k = ucast (l1_block_height c)" by auto
    have "ucast (l1_block_height base) < k" using ascends_above [OF that(1) c(1)] c(2) by (simp add: ucast_u32_less)
    then show False using that(2) by simp
  qed
  then show ?thesis using R by blast
qed

section \<open>A concrete worker\<close>

text \<open>The stored types are countable, so every value has a byte string of its own.\<close>

instance network :: countable
  by countable_datatype

instance l1_block_commitment_ext :: (countable) countable
  by (rule countable_classI [of "\<lambda>r. to_nat (l1_block_height r, l1_block_blkid r, l1_block_commitment.more r)"]) simp

instance ol_block_commitment_ext :: (countable) countable
  by (rule countable_classI [of "\<lambda>r. to_nat (olbc_slot r, olbc_blkid r, ol_block_commitment.more r)"]) simp

instance checkpoint_tip_ext :: (countable) countable
  by (rule countable_classI [of "\<lambda>r. to_nat (ct_epoch r, ct_l1_height r, ct_l2_commitment r, checkpoint_tip.more r)"]) simp

instance timestamp_store_ext :: (countable) countable
  by (rule countable_classI [of "\<lambda>r. to_nat (ts_buffer r, ts_head r, timestamp_store.more r)"]) simp

instance header_verification_state_ext :: (countable) countable
  by (rule countable_classI [of "\<lambda>r. to_nat (hvs_network r, hvs_last_verified_block r, hvs_next_block_target r,
      hvs_epoch_start_timestamp r, hvs_block_timestamp_history r, hvs_total_accumulated_pow r,
      header_verification_state.more r)"]) simp

instance section_state_ext :: (countable) countable
  by (rule countable_classI [of "\<lambda>r. to_nat (sec_id r, sec_version r, sec_data r, section_state.more r)"]) simp

instance anchor_state_ext :: (countable, countable) countable
  by (rule countable_classI [of "\<lambda>r. to_nat (an_spec_id r, an_magic r, an_pow_state r, an_history r, an_sections r,
      anchor_state.more r)"]) simp

instance asm_log :: countable
  by countable_datatype

instance asm_manifest_ext :: (countable) countable
  by (rule countable_classI [of "\<lambda>r. to_nat (mf_height r, mf_blkid r, mf_wtxids_root r, mf_logs r, asm_manifest.more r)"]) simp

instance mmr_proof_ext :: (countable) countable
  by (rule countable_classI [of "\<lambda>r. to_nat (mp_index r, mp_cohashes r, mmr_proof.more r)"]) simp

instance aux_data_ext :: (countable) countable
  by (rule countable_classI [of "\<lambda>r. to_nat (ad_manifest_hashes r, ad_bitcoin_txs r, aux_data.more r)"]) simp

text \<open>An encoding of a countable type: short strings for the values of a table, the rest by number.\<close>

fun table_index :: "'a \<Rightarrow> 'a list \<Rightarrow> nat \<Rightarrow> nat option" where
  "table_index x [] i = None"
| "table_index x (y # ys) i = (if x = y then Some i else table_index x ys (Suc i))"

definition table_encode :: "'a::countable list \<Rightarrow> 'a \<Rightarrow> bytes" where
  "table_encode table x = (case table_index x table 0 of Some i \<Rightarrow> replicate i 0 | None \<Rightarrow> 1 # replicate (to_nat x) 0)"

definition table_decode :: "'a::countable list \<Rightarrow> bytes \<Rightarrow> (string, 'a) result" where
  "table_decode table bs =
     (if bs \<noteq> [] \<and> hd bs = 1 then Ok (from_nat (length bs - 1))
      else if length bs < length table then Ok (table ! length bs) else Err ''unknown'')"

lemma table_index_Some: "table_index x table i = Some j \<Longrightarrow> i \<le> j \<and> j - i < length table \<and> table ! (j - i) = x"
proof (induction x table i rule: table_index.induct)
  case (2 x y ys i)
  show ?case
  proof (cases "x = y")
    case False
    then have "Suc i \<le> j \<and> j - Suc i < length ys \<and> ys ! (j - Suc i) = x" using 2 by simp
    then show ?thesis by (auto simp: nth_Cons' Suc_diff_le)
  qed (use 2 in auto)
qed simp

lemma table_decode_encode: "table_decode table (table_encode table x) = Ok x"
proof (cases "table_index x table 0")
  case None
  then show ?thesis by (simp add: table_encode_def table_decode_def)
next
  case (Some i)
  have "\<not> (replicate i 0 \<noteq> [] \<and> hd (replicate i 0) = (1 :: u8))" by (cases i) simp_all
  then show ?thesis using table_index_Some [OF Some] Some by (auto simp: table_encode_def table_decode_def)
qed

definition sample_worker_stf :: "buf32 list stf_env" where
  "sample_worker_stf = sample_stf_env\<lparr>se_body := sample_body_env\<lparr>sha256d := (\<lambda>b. if b = [5] then [1] else 7 # b)\<rparr>\<rparr>"

text \<open>The chain: an anchor at height 6, two blocks on it at height 7, and a child of the first of them.\<close>

definition sample_l1_block :: "block_id \<Rightarrow> block option" where
  "sample_l1_block b =
     (if b = [7, 100] then Some (bi_block (sample_block_input [1] 100 5))
      else if b = [7, 101] then Some (bi_block (sample_block_input [1] 101 5))
      else if b = [7, 104] then Some (bi_block (sample_block_input [7, 100] 104 15)) else None)"

definition sample_l1_header :: "block_id \<Rightarrow> header option" where
  "sample_l1_header b =
     (if b = [1] then Some (sample_header [] 5 5)
      else if b = [4] then Some (sample_header [] 90 5)
      else map_option bl_header (sample_l1_block b))"

definition sample_anchor :: "u32 \<Rightarrow> block_id \<Rightarrow> u32 \<Rightarrow> u32 \<Rightarrow> u32 list \<Rightarrow> buf32 list \<Rightarrow> buf32 list anchor_state" where
  "sample_anchor height blkid target epoch stamps leaves =
     \<lparr>an_spec_id = 0, an_magic = [],
      an_pow_state = \<lparr>hvs_network = Regtest, hvs_last_verified_block = \<lparr>l1_block_height = height, l1_block_blkid = blkid\<rparr>,
        hvs_next_block_target = target, hvs_epoch_start_timestamp = epoch,
        hvs_block_timestamp_history = \<lparr>ts_buffer = stamps @ replicate (11 - length stamps) 0, ts_head = length stamps\<rparr>,
        hvs_total_accumulated_pow = 3 * of_nat (length stamps)\<rparr>,
      an_history = replicate 7 [0] @ leaves,
      an_sections = [\<lparr>sec_id = 0, sec_version = 0, sec_data = [1]\<rparr>, \<lparr>sec_id = 1, sec_version = 0, sec_data = [2]\<rparr>,
                     \<lparr>sec_id = 2, sec_version = 0, sec_data = [3]\<rparr>]\<rparr>"

definition sample_worker_genesis :: "buf32 list anchor_state" where
  "sample_worker_genesis = sample_anchor 6 [1] 5 90 [] []"

definition sample_manifest :: "u32 \<Rightarrow> block_id \<Rightarrow> asm_manifest" where
  "sample_manifest height blkid =
     \<lparr>mf_height = height, mf_blkid = blkid, mf_wtxids_root = [7, 9, 1], mf_logs = [ExportExtraDataUpdate 2 [3]]\<rparr>"

definition sample_states :: "buf32 list anchor_state list" where
  "sample_states = [sample_worker_genesis, sample_anchor 7 [7, 100] 15 90 [100] [[7, 100]],
     sample_anchor 7 [7, 101] 16 90 [101] [[7, 101]], sample_anchor 8 [7, 104] 15 104 [100, 104] [[7, 100], [7, 104]]]"

definition sample_manifests :: "asm_manifest list" where
  "sample_manifests = [sample_manifest 7 [7, 100], sample_manifest 7 [7, 101], sample_manifest 8 [7, 104]]"

definition sample_no_aux :: aux_data where
  "sample_no_aux = \<lparr>ad_manifest_hashes = [], ad_bitcoin_txs = []\<rparr>"

definition rpc_answer :: "'a option \<Rightarrow> 'l \<Rightarrow> (string, 'a) result \<times> 'l" where
  "rpc_answer x l = (ok_or ''not found'' x, l)"

text \<open>The accumulator's store keeps no leaf of the seeded prefix.\<close>

definition sample_worker_env :: "((bytes, bytes) rbt, buf32 list, unit, buf32 option list) worker_env" where
  "sample_worker_env =
     store_env.extend
       ((tree_db (table_encode sample_states) (\<lambda>_. sample_worker_genesis))
          \<lparr>state_decode := table_decode sample_states,
           manifest_encode := table_encode sample_manifests, manifest_decode := table_decode sample_manifests,
           aux_encode := table_encode [sample_no_aux], aux_decode := table_decode [sample_no_aux]\<rparr>)
       (worker_env.fields sample_worker_stf
          (\<lambda>b. rpc_answer (sample_l1_block b)) (\<lambda>b. rpc_answer (sample_l1_header b))
          (\<lambda>h. rpc_answer (Some (if h = 6 then [1] else [4])))
          (\<lambda>b. rpc_answer (if b = [7, 104] then Some 8 else if b = [1] then Some 6 else Some 7))
          (rpc_answer (Some Regtest)) (\<lambda>_. rpc_answer None)
          (\<lambda>n. Ok (of_nat (length n)))
          (\<lambda>i x n. if unat i < length n then (Ok (), n[unat i := Some x])
                   else if unat i = length n then (Ok (), n @ [Some x]) else (Err ''gap'', n))
          (\<lambda>m n. (Ok (), map (\<lambda>_. None) m))
          (\<lambda>i n. Ok (if unat i < length n then n ! unat i else None))
          (\<lambda>i count n. Ok \<lparr>mp_index = i, mp_cohashes = []\<rparr>))"

definition sample_registry :: execution_registry where
  "sample_registry = [([9], StrataAsmSpec)]"

definition sample_world :: "(unit, (bytes, bytes) rbt, buf32 option list) world" where
  "sample_world = \<lparr>w_l1 = (), w_states = RBT.empty, w_manifests = RBT.empty, w_aux = RBT.empty, w_mmr = []\<rparr>"

definition sample_start :: "(unit, (bytes, bytes) rbt, buf32 option list, buf32 list) worker_state option" where
  "sample_start =
     (case worker_new sample_worker_env sample_worker_genesis [9] sample_registry
             [\<lparr>sub_alive = True, sub_queue = []\<rparr>] sample_world of
        (Some (Ok s), _) \<Rightarrow> Some s | _ \<Rightarrow> None)"

definition sample_sync ::
  "block_id \<Rightarrow> (unit, (bytes, bytes) rbt, buf32 option list, buf32 list) worker_state option
     \<Rightarrow> (unit, (bytes, bytes) rbt, buf32 option list, buf32 list) worker_state option" where
  "sample_sync b x = x \<bind> (\<lambda>s. case sync_to_block sample_worker_env b s of
     Some (Some (Ok _), s') \<Rightarrow> Some s' | _ \<Rightarrow> None)"

definition sample_block_7 :: l1_block_commitment where
  "sample_block_7 = \<lparr>l1_block_height = 7, l1_block_blkid = [7, 100]\<rparr>"

definition sample_recovery :: "(unit, (bytes, bytes) rbt, buf32 option list, buf32 list) worker_state \<Rightarrow> predicate_key option" where
  "sample_recovery s =
     (case recover_from_context sample_worker_env sample_registry (last_processed_block sample_worker_genesis) [9] (ws_anchor s) s of
        (Some (Ok q), _) \<Rightarrow> Some q | _ \<Rightarrow> None)"

definition sample_checks :: "(unit, (bytes, bytes) rbt, buf32 option list, buf32 list) worker_state \<Rightarrow> bool" where
  "sample_checks s \<longleftrightarrow> sample_recovery s \<noteq> None
     \<and> (case st_at sample_worker_env s sample_block_7 of None \<Rightarrow> False | Some st \<Rightarrow> st \<noteq> sample_worker_genesis)"

lemma sample_run_facts:
  obtains s s' where "sample_start = Some s"
    "sync_to_block sample_worker_env [7, 100] s = Some (Some (Ok [sample_block_7]), s')" "sample_checks s'"
proof -
  have ev: "case sample_start of None \<Rightarrow> False | Some s \<Rightarrow>
      (case sync_to_block sample_worker_env [7, 100] s of
         Some (Some (Ok p), s') \<Rightarrow> p = [sample_block_7] \<and> sample_checks s' | _ \<Rightarrow> False)" by code_simp
  then obtain s where s: "sample_start = Some s" by (auto split: option.splits)
  obtain r s' where r: "sync_to_block sample_worker_env [7, 100] s = Some (r, s')" using sync_returns_somehow by blast
  from ev [unfolded s option.case r prod.case] obtain p where "r = Some (Ok p)" "p = [sample_block_7]" "sample_checks s'"
    by (cases r) (auto split: sum.splits)
  then show ?thesis using that [OF s] r by blast
qed

lemma sample_db_laws: "sled_laws sample_worker_env"
  unfolding sled_laws_def get_law_def insert_law_def remove_law_def scan_law_def batch_law_def
  by (auto simp: sample_worker_env_def tree_db_def store_env.defs worker_env.defs map_of_entries map_Ok_inj tree_batch
      keys_strict_def strict_sorted_iff sorted_entries distinct_entries)

lemma sample_block_hash:
  "sample_l1_block b = Some block \<Longrightarrow> compute_block_hash (se_body sample_worker_stf) (bl_header block) = b"
proof -
  have "list_all (\<lambda>b. compute_block_hash (se_body sample_worker_stf) (bl_header (the (sample_l1_block b))) = b)
      [[7, 100], [7, 101], [7, 104]]" by code_simp
  then show "sample_l1_block b = Some block \<Longrightarrow> compute_block_hash (se_body sample_worker_stf) (bl_header block) = b"
    by (auto simp: sample_l1_block_def split: if_splits)
qed

lemma sample_worker_laws: "worker_laws sample_worker_env"
  unfolding worker_laws_def
proof (intro conjI allI impI)
  show "sled_laws sample_worker_env" by (rule sample_db_laws)
  show "compute_block_hash (se_body (wk_stf sample_worker_env)) (bl_header block) = b"
    if "rpc_get_block sample_worker_env b l = (Ok block, l')" for b l block l'
    using that sample_block_hash [of b block]
    by (simp add: sample_worker_env_def tree_db_def store_env.defs worker_env.defs rpc_answer_def)
qed (simp_all add: sample_worker_env_def tree_db_def store_env.defs worker_env.defs table_decode_encode)

lemma sample_registry_ok: "registry_ok sample_registry"
  by (simp add: registry_ok_def sample_registry_def)

lemma sample_runner_start:
  assumes "sample_start = Some s"
  shows "\<exists>w. runner sample_worker_env sample_registry sample_worker_genesis [9] w (Some s)"
proof -
  let ?run = "worker_new sample_worker_env sample_worker_genesis [9] sample_registry [\<lparr>sub_alive = True, sub_queue = []\<rparr>] sample_world"
  have "RBT.entries (RBT.empty :: (bytes, bytes) rbt) = []" by code_simp
  then have fresh: "runner sample_worker_env sample_registry sample_worker_genesis [9] sample_world None"
    by (intro runner_fresh) (simp add: sample_worker_env_def tree_db_def store_env.defs sample_world_def)
  obtain w where run: "?run = (Some (Ok s), w)"
    using assms by (auto simp: sample_start_def split: prod.splits option.splits sum.splits)
  from runner_start [OF fresh run] show ?thesis by auto
qed

lemma sample_run_states:
  obtains s where "runner sample_worker_env sample_registry sample_worker_genesis [9] (world.truncate s) (Some s)"
    "sample_checks s"
proof -
  obtain s s' where s: "sample_start = Some s"
    "sync_to_block sample_worker_env [7, 100] s = Some (Some (Ok [sample_block_7]), s')" "sample_checks s'"
    by (rule sample_run_facts)
  obtain w where w: "runner sample_worker_env sample_registry sample_worker_genesis [9] w (Some s)"
    using sample_runner_start [OF s(1)] by blast
  from runner_sync [OF w s(2)] s(3) show ?thesis using that by simp
qed

theorem committed_states_are_authorised_witness:
  "\<exists>w x st. runner sample_worker_env sample_registry sample_worker_genesis [9] w x
     \<and> st_at sample_worker_env w sample_block_7 = Some st
     \<and> replayable sample_worker_stf sample_registry sample_worker_genesis [9]
         (st_at sample_worker_env w) (mf_at sample_worker_env w) (ax_at sample_worker_env w) st"
proof -
  obtain s where s: "runner sample_worker_env sample_registry sample_worker_genesis [9] (world.truncate s) (Some s)"
    "sample_checks s" by (rule sample_run_states)
  obtain st where st: "st_at sample_worker_env (world.truncate s) sample_block_7 = Some st" "st \<noteq> sample_worker_genesis"
    using s(2) by (auto simp: sample_checks_def world.defs split: option.splits)
  have stf: "wk_stf sample_worker_env = sample_worker_stf"
    by (simp add: sample_worker_env_def tree_db_def store_env.defs worker_env.defs)
  show ?thesis
    using committed_states_are_authorised [OF sample_worker_laws sample_registry_ok s(1) st(1)] s(1) st unfolding stf by blast
qed

theorem restart_recovers_authority_witness:
  "\<exists>w s s'. runner sample_worker_env sample_registry sample_worker_genesis [9] w (Some s)
     \<and> recover_from_context sample_worker_env sample_registry (last_processed_block sample_worker_genesis) [9] (ws_anchor s) s
         = (Some (Ok (ws_next_predicate s)), s')"
proof -
  obtain s where s: "runner sample_worker_env sample_registry sample_worker_genesis [9] (world.truncate s) (Some s)"
    "sample_checks s" by (rule sample_run_states)
  let ?rec = "recover_from_context sample_worker_env sample_registry (last_processed_block sample_worker_genesis) [9] (ws_anchor s) s"
  have "sample_recovery s \<noteq> None" using s(2) by (simp add: sample_checks_def)
  then obtain q s' where q: "?rec = (Some (Ok q), s')"
    unfolding sample_recovery_def by (cases ?rec) (auto split: option.splits sum.splits)
  show ?thesis using restart_recovers_authority [OF sample_worker_laws sample_registry_ok s(1) q] s(1) q by blast
qed

theorem sync_returns_witness:
  "\<exists>s s'. sync_to_block sample_worker_env [7, 100] s = Some (Some (Ok [sample_block_7]), s')
     \<and> sync_result sample_worker_env [7, 100] [sample_block_7] s s'"
proof -
  obtain s s' where s: "sample_start = Some s"
    "sync_to_block sample_worker_env [7, 100] s = Some (Some (Ok [sample_block_7]), s')" by (rule sample_run_facts)
  have inv: "worker_inv sample_worker_env sample_registry sample_worker_genesis [9] s"
    using sample_runner_start [OF s(1)] runner_inv [OF sample_worker_laws sample_registry_ok] by blast
  show ?thesis
    using sync_returns [of sample_worker_env "[7, 100]" s sample_registry sample_worker_genesis "[9]"]
      sample_worker_laws sample_registry_ok inv s(2) by auto
qed

lemma sample_leaf_law: "leaf_law sample_worker_env"
  by (auto simp: leaf_law_def sample_worker_env_def tree_db_def store_env.defs worker_env.defs nth_list_update nth_append
      word_unat_eq_iff split: if_splits)

definition sample_block_8 :: l1_block_commitment where
  "sample_block_8 = \<lparr>l1_block_height = 8, l1_block_blkid = [7, 104]\<rparr>"

lemma sample_sync_inv:
  assumes "sample_sync b x = Some s'"
    and "\<forall>s. x = Some s \<longrightarrow> worker_inv sample_worker_env sample_registry sample_worker_genesis [9] s"
  shows "worker_inv sample_worker_env sample_registry sample_worker_genesis [9] s'"
proof -
  obtain s where s: "x = Some s" using assms(1) by (auto simp: sample_sync_def split: Option.bind_splits)
  obtain p where p: "sync_to_block sample_worker_env b s = Some (Some (Ok p), s')"
    using assms(1) s by (auto simp: sample_sync_def split: option.splits prod.splits sum.splits)
  show ?thesis using sync_to_block_keeps [OF sample_worker_laws sample_registry_ok _ p] assms(2) s by blast
qed

text \<open>The chain leaves the first block at height 7 for the second and comes back to a child of the first.\<close>

lemma sample_reorg_back:
  obtains s s' where "worker_inv sample_worker_env sample_registry sample_worker_genesis [9] s"
    "sync_to_block sample_worker_env [7, 104] s = Some (Some (Ok [sample_block_8]), s')"
    "ns_get_leaf sample_worker_env 7 (w_mmr s) = Ok (Some [7, 101])" "an_history (ws_anchor s') ! 7 = [7, 100]"
proof -
  have ev: "case sample_sync [7, 101] (sample_sync [7, 100] sample_start) of None \<Rightarrow> False
    | Some s \<Rightarrow> ns_get_leaf sample_worker_env 7 (w_mmr s) = Ok (Some [7, 101])
        \<and> (case sync_to_block sample_worker_env [7, 104] s of
             Some (Some (Ok p), s') \<Rightarrow> p = [sample_block_8] \<and> an_history (ws_anchor s') ! 7 = [7, 100] | _ \<Rightarrow> False)" by code_simp
  then obtain s where s: "sample_sync [7, 101] (sample_sync [7, 100] sample_start) = Some s" by (auto split: option.splits)
  have start: "\<forall>s. sample_start = Some s \<longrightarrow> worker_inv sample_worker_env sample_registry sample_worker_genesis [9] s"
    using sample_runner_start runner_inv [OF sample_worker_laws sample_registry_ok] by blast
  have inv: "worker_inv sample_worker_env sample_registry sample_worker_genesis [9] s"
    by (rule sample_sync_inv [OF s]) (use sample_sync_inv start in blast)
  obtain r s' where r: "sync_to_block sample_worker_env [7, 104] s = Some (r, s')" using sync_returns_somehow by blast
  from ev [unfolded s option.case r prod.case] show ?thesis using that [OF inv] r
    by (cases r) (auto split: sum.splits)
qed

theorem sync_writes_leaves_of_processed_only_witness:
  "\<exists>s s'. sync_to_block sample_worker_env [7, 104] s = Some (Some (Ok [sample_block_8]), s')
     \<and> an_history (ws_anchor s') ! 7 = [7, 100] \<and> ns_get_leaf sample_worker_env 7 (w_mmr s') = Ok (Some [7, 101])
     \<and> (\<exists>mf. mf_at sample_worker_env s' sample_block_8 = Some mf
          \<and> ns_get_leaf sample_worker_env 8 (w_mmr s') = Ok (Some (se_manifest_hash (wk_stf sample_worker_env) mf)))"
proof -
  obtain s s' where s: "worker_inv sample_worker_env sample_registry sample_worker_genesis [9] s"
    "sync_to_block sample_worker_env [7, 104] s = Some (Some (Ok [sample_block_8]), s')"
    "ns_get_leaf sample_worker_env 7 (w_mmr s) = Ok (Some [7, 101])" "an_history (ws_anchor s') ! 7 = [7, 100]"
    by (rule sample_reorg_back)
  have h: "l1_block_height sample_block_8 = 8" by (simp add: sample_block_8_def)
  note W = sync_writes_leaves_of_processed_only [OF sample_worker_laws sample_leaf_law sample_registry_ok s(1,2)]
  have "ns_get_leaf sample_worker_env 7 (w_mmr s') = Ok (Some [7, 101])" using W s(3) by (simp add: h)
  moreover have "\<exists>mf. mf_at sample_worker_env s' sample_block_8 = Some mf
      \<and> ns_get_leaf sample_worker_env 8 (w_mmr s') = Ok (Some (se_manifest_hash (wk_stf sample_worker_env) mf))"
    using W by (simp add: h)
  ultimately show ?thesis using s(2,4) by blast
qed

end
