(* ===== verification/Spec2Isabelle.thy ===== *)
theory Spec2Isabelle
  imports Worker_Runs
begin

text \<open>
  A verification development for the Anchor State Machine (ASM), the program that derives the state of a
  Bitcoin rollup from the blocks of Bitcoin: which deposits the bridge holds and to whom each is owed, the
  last verified checkpoint of the rollup, the configuration its administrators may change, and a history
  that commits to all of it.

  \<^bold>\<open>The program.\<close>  \<open>crates/stf\<close> has the state transition function: it checks that a block extends the chain
  (\<open>crates/btc-verification\<close>), groups the block's tagged transactions by subprotocol, and runs the
  subprotocols in three stages.  Pre-processing collects the auxiliary data each one asks for; transaction
  processing runs administration, checkpoint and bridge, in this order, on their transactions; message
  processing hands each of them the messages the others sent it.  The results are exported as sections of
  the anchor state (\<open>crates/state\<close>), and a manifest with the logs of the block is appended to the history
  accumulator.  \<open>crates/spec\<close> fixes the ruleset and the genesis state, \<open>crates/params\<close> its parameters.
  The subprotocols are under \<open>crates/subprotocols\<close>: \<open>bridge\<close> (operators, deposits, withdrawal
  assignments), \<open>checkpoint\<close> (verification of the rollup's checkpoints, the pool of withdrawable deposits)
  and \<open>admin\<close> (multisig-authorised updates with a delay).  \<open>crates/worker\<close> with the context of
  \<open>bin/asm-runner\<close> runs the transition on the blocks a Bitcoin node announces, follows reorganisations,
  and keeps the results in the stores of \<open>crates/storage\<close>.

  \<^bold>\<open>Conventions.\<close>  Integers are words of the source's width and wrap where the source does not check; a
  checked or saturating operation is one here.  A fallible function returns a sum whose left injection is
  the source's error; a function that can panic returns an option whose \<open>None\<close> is the panic.  Byte strings,
  hashes, keys and scripts are lists of bytes.  Loops are structural recursions except \<open>plan_sync_loop\<close>
  (a partial function, proved to return).  No fuel is used anywhere.  Library code is a field of an
  environment record (\<open>key_env\<close>, \<open>tx_env\<close>, \<open>bridge_env\<close>, \<open>checkpoint_env\<close>, \<open>btc_env\<close>, \<open>body_env\<close>,
  \<open>mmr_env\<close>, \<open>ecdsa_env\<close>, \<open>admin_env\<close>, \<open>stf_env\<close>, \<open>sled_env\<close>, \<open>store_env\<close>, \<open>worker_env\<close>): signature
  checks, key aggregation, SSZ hashing and encoding, the Merkle mountain range, proof-of-work arithmetic of
  rust-bitcoin, the sled database and the Bitcoin client; so is the store of manifest hashes, whose code
  (\<open>crates/storage/src/sled/manifest_mmr.rs\<close>) only passes on the calls to an external crate.  A theorem that needs a fact about one of them
  has it as a named hypothesis and a witness with a concrete instance.

  \<^bold>\<open>The theories.\<close>

  \<^item> \<open>Asm_Prelude\<close>: results, words, checked arithmetic, generic facts on lists and options.
  \<^item> \<open>Sorted_Vec\<close>: \<open>crates/common/src/sorted_vec.rs\<close>.  The locale \<open>slice_search\<close> has what binary search
    promises, \<open>keyed_table\<close> what a table of keyed entries is; both are interpreted on the containers.
    Sorted vectors refine multisets and flat tables refine finite maps.
  \<^item> \<open>Bitcoin_Types\<close>, \<open>Bridge_Types\<close>, \<open>Bridge_Txs\<close>: transactions, operator bitmaps and selections,
    withdrawal intents, the safe harbor, and the parsers of \<open>bridge/txs\<close>; a transaction is accepted exactly
    when it has the documented shape.
  \<^item> \<open>Operator_Table\<close>, \<open>Deposit_Table\<close>, \<open>Assignment_Table\<close>, \<open>Bridge_State\<close>: \<open>bridge/state\<close>.  The table
    invariants and that every operation keeps them, the rotation of assignments over the operators, expiry
    and reassignment, and the bridge invariant (every index is a deposit or an assignment, never both).
  \<^item> \<open>Bridge_Subprotocol\<close>: \<open>bridge/subprotocol\<close>, the validation of deposits, fulfilments, slashes and
    unstakes, the handlers and the block and message loops.  A deposit is accepted only when backed by a
    request output of the right script and amount; a withdrawal is fulfilled exactly once; an operator
    leaves only by its own authority or by slashing; the one panic left is the removal of the last operator.
  \<^item> \<open>Checkpoint_Types\<close>, \<open>Deposit_Pool\<close>, \<open>Checkpoint_State\<close>, \<open>Checkpoint_Subprotocol\<close>: \<open>checkpoint\<close>.  An
    accepted checkpoint extends the verified chain under the governing predicate, its withdrawals stay
    within the pool, the bridge is sent exactly the intents in the logs of the accepted checkpoints, and the
    auxiliary data requested before a block suffices to process it.
  \<^item> \<open>Threshold_Sig\<close>, \<open>Admin_Txs\<close>, \<open>Admin_Subprotocol\<close>: threshold signatures and \<open>admin\<close>.  A threshold is
    met by distinct members only, the signed message determines the action up to the identifier of a
    cancelled update, and a queued update is either cancelled by its own role or enacted when its delay is
    over, multisig updates on the signer sets themselves.
  \<^item> \<open>Asm_Common\<close>: messages, logs, auxiliary requests and their verified provider.
  \<^item> \<open>Header_Verification\<close>: the timestamp ring buffer and the header checks; a sequence of headers is
    accepted exactly when links, targets, timestamps and work follow the rules of the chain.
  \<^item> \<open>Merkle_Tree\<close>, \<open>Block_Body\<close>: Merkle roots, inclusion proofs, coinbase and witness commitments.  A root
    without duplicates determines the transactions, proofs are sound and complete, and a block is accepted
    exactly when its header commits to it.
  \<^item> \<open>Stf\<close>: \<open>crates/stf\<close>, \<open>crates/spec\<close>, \<open>crates/params\<close>.  Locale \<open>block_machine\<close> has a machine that
    consumes blocks and keeps an invariant; it is interpreted on the transition.  The theory shows that the
    transition advances one block, that every message it relays can be delivered, and that the bridge's
    deposits, its assignments and the checkpoint pool stay in balance along every chain.
  \<^item> \<open>Storage\<close>: \<open>crates/storage/src/sled\<close>.  Key encoding orders blocks by height; locale \<open>block_store\<close> has
    what a client relies on and is interpreted on the stores of anchor states, manifests and auxiliary data.
  \<^item> \<open>Worker\<close>, \<open>Worker_Runs\<close>: \<open>crates/worker\<close> over \<open>bin/asm-runner/src/worker_context.rs\<close>.  An operation
    returns its outcome and the state it leaves, so that failures and crashes are part of every statement.
    The inductive relation \<open>runner\<close> has every sequence of starts, synchronisations and failures; all
    anchor states it commits are authorised and replayable, a restart recovers the governing predicate, and
    a synchronisation returns, having committed, recorded and announced exactly the blocks it reports.

  \<^bold>\<open>Not modelled.\<close>  Text and JSON formats, SSZ and Borsh code generated by macros, tracing, metrics, the
  command line, the RPC server and the channels of the service framework: they read, print or transport
  values and decide nothing.  An argument of a log line is not evaluated either.  The zero-knowledge hosts and guests call the transition inside a virtual
  machine that is library code.  Test utilities and functional tests are not part of the program.
\<close>

end
